(* ===== verification/ZynqPrelude.thy ===== *)
theory ZynqPrelude
  imports Main "HOL-Library.Word"
begin

text \<open>
  Shared vocabulary of the development: the integer types of \<^verbatim>\<open>application/common.h\<close>,
  the outcomes a C statement can have beyond returning a value, the \<^verbatim>\<open>for\<close> loop over an
  unsigned counter, and the word lemmas the components share.

  The target is the ARM of a Zynq (\<^verbatim>\<open>arm-xilinx-linux-gnueabi\<close>): \<^verbatim>\<open>int\<close>, \<^verbatim>\<open>long\<close>, \<^verbatim>\<open>size_t\<close>
  and pointers are 32 bits wide, \<^verbatim>\<open>long long\<close> and \<^verbatim>\<open>loff_t\<close> 64, and plain \<^verbatim>\<open>char\<close> is unsigned.
\<close>

unbundle bit_operations_syntax

section \<open>Integer types\<close>

type_synonym u8 = "8 word"
type_synonym u16 = "16 word"
type_synonym u32 = "32 word"
type_synonym u64 = "64 word"

section \<open>Outcomes of C code\<close>

text \<open>
  A computation of the model yields \<open>Inr\<close> of its result, or \<open>Inl\<close> of the reason why the C
  program has no defined behaviour (or aborts) from here on.
\<close>

datatype c_fault =
    OutOfBounds        \<comment> \<open>an access outside the array\<close>
  | NullPointer        \<comment> \<open>a null or otherwise invalid pointer is used\<close>
  | AssertFailed       \<comment> \<open>\<^verbatim>\<open>assert\<close> aborts the process\<close>
  | DivideByZero
  | UndefinedShift     \<comment> \<open>a shift by a negative or too large amount\<close>
  | BadConversion      \<comment> \<open>a floating value out of the range of the integer type\<close>
  | ProcessExit        \<comment> \<open>\<^verbatim>\<open>exit\<close> is called\<close>
  | FormatDirective    \<comment> \<open>data used as a \<^verbatim>\<open>printf\<close> format contains a directive\<close>

type_synonym 'a res = "c_fault + 'a"

fun andThen :: "'a res \<Rightarrow> ('a \<Rightarrow> 'b res) \<Rightarrow> 'b res" where
  "andThen (Inl e) f = Inl e"
| "andThen (Inr x) f = f x"

definition need :: "bool \<Rightarrow> c_fault \<Rightarrow> 'a res \<Rightarrow> 'a res" where
  "need b e k = (if b then k else Inl e)"

named_theorems c_run "equations that run a model on values"

declare need_def [c_run]

lemma andThen_Inr_iff: "andThen m f = Inr y \<longleftrightarrow> (\<exists>x. m = Inr x \<and> f x = Inr y)"
  by (cases m) auto

lemma andThen_cong [fundef_cong]:
  "\<lbrakk>m = m'; \<And>x. m' = Inr x \<Longrightarrow> f x = g x\<rbrakk> \<Longrightarrow> andThen m f = andThen m' g"
  by (cases m') auto

lemma need_cong [fundef_cong]:
  "\<lbrakk>b = b'; e = e'; b' \<Longrightarrow> k = k'\<rbrakk> \<Longrightarrow> need b e k = need b' e' k'"
  by (simp add: need_def)

text \<open>\<open>holds_after m P\<close>: if \<open>m\<close> does not fault, its result satisfies \<open>P\<close>.\<close>

definition holds_after :: "'a res \<Rightarrow> ('a \<Rightarrow> bool) \<Rightarrow> bool" where
  "holds_after m P \<longleftrightarrow> (\<forall>x. m = Inr x \<longrightarrow> P x)"

lemma holds_after_simps [simp]: "holds_after (Inr x) P = P x" "holds_after (Inl e) P"
  by (simp_all add: holds_after_def)

lemma holds_after_then:
  "(\<And>x. m = Inr x \<Longrightarrow> holds_after (f x) P) \<Longrightarrow> holds_after (andThen m f) P"
  by (auto simp: holds_after_def andThen_Inr_iff)

lemma holds_after_if:
  "\<lbrakk>b \<Longrightarrow> holds_after m P; \<not> b \<Longrightarrow> holds_after n P\<rbrakk> \<Longrightarrow> holds_after (if b then m else n) P"
  by simp

lemmas holds_after_intros = holds_after_then holds_after_if

lemma andThen_assoc: "andThen (andThen m f) g = andThen m (\<lambda>x. andThen (f x) g)"
  by (cases m) auto

lemma need_Inr_iff [simp]: "need b e k = Inr y \<longleftrightarrow> b \<and> k = Inr y"
  by (simp add: need_def)

lemma need_True [simp]: "need True e k = k"
  by (simp add: need_def)

section \<open>The \<^verbatim>\<open>for\<close> loop over an unsigned counter\<close>

lemma unat_incr: "i < n \<Longrightarrow> unat (i + 1) = Suc (unat i)" for i :: "'a::len word"
proof -
  assume "i < n"
  then have "unat i < unat n" by (simp add: word_less_nat_alt)
  also have "unat n \<le> 2 ^ LENGTH('a) - 1"
    by (metis One_nat_def Suc_pred less_Suc_eq_le unsigned_less zero_less_numeral zero_less_power)
  finally have "unat i + 1 < 2 ^ LENGTH('a)" by simp
  then show ?thesis
    by (metis Suc_eq_plus1 unat_1 unat_add_lem len_gt_0 unsigned_1)
qed

lemma incr_measure: "i < n \<Longrightarrow> unat n - unat (i + 1) < unat n - unat i" for i :: "'a::len word"
  by (simp add: unat_incr word_less_nat_alt diff_less_mono2)

text \<open>\<^verbatim>\<open>for (i = i0; i < n; i++) s = body(i, s);\<close> with an unsigned \<^verbatim>\<open>i\<close>.\<close>

function for_word :: "'a::len word \<Rightarrow> 'a word \<Rightarrow> ('a word \<Rightarrow> 's \<Rightarrow> 's) \<Rightarrow> 's \<Rightarrow> 's" where
  "for_word i n body s = (if i < n then for_word (i + 1) n body (body i s) else s)"
  by pat_completeness auto
termination
  by (relation "measure (\<lambda>(i, n, body, s). unat n - unat i)") (auto simp: incr_measure)

declare for_word.simps [simp del]

lemma for_word_fold:
  "for_word i n body s = fold (\<lambda>k. body (of_nat k)) [unat i..<unat n] s"
proof (induction i n body s rule: for_word.induct)
  case (1 i n body s)
  show ?case
  proof (cases "i < n")
    case True
    then have "[unat i..<unat n] = unat i # [unat (i + 1)..<unat n]"
      by (simp add: unat_incr word_less_nat_alt upt_conv_Cons)
    with 1 True show ?thesis by (simp add: for_word.simps [of i])
  next
    case False
    then show ?thesis by (simp add: for_word.simps [of i] word_less_nat_alt)
  qed
qed

lemma for_word_0: "for_word 0 n body s = fold (\<lambda>k. body (of_nat k)) [0..<unat n] s"
  by (simp add: for_word_fold)

text \<open>A loop that stores one element per round, \<^verbatim>\<open>b[i] = f(i)\<close>, and one that may fail.\<close>

lemma fold_update:
  "m \<le> length xs \<Longrightarrow> fold (\<lambda>k b. b[k := g k]) [0..<m] xs = map g [0..<m] @ drop m xs"
proof (induction m)
  case 0
  then show ?case by simp
next
  case (Suc m)
  then have "drop m xs = xs ! m # drop (Suc m) xs" by (simp add: Cons_nth_drop_Suc)
  with Suc show ?case by (simp add: list_update_append)
qed

lemma unat_of_nat_below:
  fixes n :: "'a::len word"
  assumes "k < unat n"
  shows "unat (of_nat k :: 'a word) = k"
proof -
  have "k < 2 ^ LENGTH('a)" using assms unsigned_less [of n] by (rule order.strict_trans)
  then show ?thesis by (simp add: unat_of_nat)
qed

lemma for_word_update:
  assumes "unat n \<le> length xs"
  shows "for_word 0 n (\<lambda>i b. b[unat i := f i]) xs
    = map (\<lambda>k. f (of_nat k)) [0..<unat n] @ drop (unat n) xs"
proof -
  have "for_word 0 n (\<lambda>i b. b[unat i := f i]) xs
      = fold (\<lambda>k b. b[k := f (of_nat k)]) [0..<unat n] xs"
    unfolding for_word_0 by (rule fold_cong) (auto simp: unat_of_nat_below)
  with fold_update [OF assms] show ?thesis by simp
qed

lemma fold_res_update:
  assumes "m \<le> length xs" "\<And>k. k < m \<Longrightarrow> g k = Inr (h k)"
  shows "fold (\<lambda>k r. andThen r (\<lambda>b. andThen (g k) (\<lambda>v. need (k < length b) e (Inr (b[k := v])))))
    [0..<m] (Inr xs) = Inr (map h [0..<m] @ drop m xs)"
  using assms
proof (induction m)
  case 0
  then show ?case by simp
next
  case (Suc m)
  then have "drop m xs = xs ! m # drop (Suc m) xs" by (simp add: Cons_nth_drop_Suc)
  with Suc show ?case by (simp add: list_update_append)
qed

lemma for_word_res_update:
  fixes n :: "'a::len word"
  assumes "unat n \<le> length xs" "\<And>k. k < unat n \<Longrightarrow> g (of_nat k) = Inr (h k)"
  shows "for_word 0 n (\<lambda>j r. andThen r (\<lambda>b. andThen (g j)
      (\<lambda>v. need (unat j < length b) e (Inr (b[unat j := v]))))) (Inr xs)
    = Inr (map h [0..<unat n] @ drop (unat n) xs)"
proof -
  have "fold (\<lambda>k r. andThen r (\<lambda>b. andThen (g (of_nat k))
        (\<lambda>v. need (unat (of_nat k :: 'a word) < length b) e (Inr (b[unat (of_nat k :: 'a word) := v])))))
      [0..<unat n] (Inr xs)
    = fold (\<lambda>k r. andThen r (\<lambda>b. andThen (g (of_nat k))
        (\<lambda>v. need (k < length b) e (Inr (b[k := v]))))) [0..<unat n] (Inr xs)"
    by (rule fold_cong) (auto simp: unat_of_nat_below [of _ n])
  with fold_res_update [of "unat n" xs "\<lambda>k. g (of_nat k)" h e] assms show ?thesis
    by (simp add: for_word_0)
qed

section \<open>Words\<close>

lemma word_and_pred_less: "v \<noteq> 0 \<Longrightarrow> v AND (v - 1) < v" for v :: "'a::len word"
proof -
  assume "v \<noteq> 0"
  then have "unat (v - 1) < unat v"
    by (simp add: unat_minus_one unat_gt_0)
  then have "v - 1 < v" by (simp add: word_less_nat_alt)
  with word_and_le1 [of v "v - 1"] show ?thesis
    by (metis and.commute le_less_trans word_and_le1)
qed

lemma shl1_bit: "bit (push_bit 1 h) k \<longleftrightarrow> 0 < k \<and> k < LENGTH('a) \<and> bit h (k - 1)"
  for h :: "'a::len word"
  by (auto simp del: push_bit_Suc One_nat_def simp: bit_simps)

lemma and_single_bit:
  fixes v :: "'a::len word"
  assumes n: "n < LENGTH('a)"
  shows "2 ^ n AND v = 2 ^ n \<longleftrightarrow> bit v n"
proof -
  have b: "bit (2 ^ n :: 'a word) k \<longleftrightarrow> k = n" if "k < LENGTH('a)" for k
    using that by (auto simp: bit_exp_iff possible_bit_word)
  show ?thesis
  proof
    assume "2 ^ n AND v = 2 ^ n"
    then have "bit (2 ^ n AND v) n" using b [OF n] by metis
    then show "bit v n" by (simp add: bit_and_iff)
  next
    assume v: "bit v n"
    show "2 ^ n AND v = 2 ^ n"
    proof (rule bit_word_eqI)
      fix k assume "k < LENGTH('a)"
      from b [OF this] v show "bit (2 ^ n AND v) k = bit (2 ^ n :: 'a word) k"
        by (auto simp: bit_and_iff)
    qed
  qed
qed

lemma unat_two_power: "n < LENGTH('a) \<Longrightarrow> unat (2 ^ n :: 'a::len word) = 2 ^ n"
proof -
  assume "n < LENGTH('a)"
  then have "(2::nat) ^ n < 2 ^ LENGTH('a)" by (intro power_strict_increasing) auto
  then show ?thesis
    using unat_of_nat [of "2 ^ n", where ?'a = 'a] by simp
qed

lemma below_exp_bits: "n < LENGTH('a) \<Longrightarrow> w < 2 ^ n \<longleftrightarrow> (\<forall>j\<ge>n. \<not> bit w j)" for w :: "'a::len word"
proof -
  assume n: "n < LENGTH('a)"
  have "w < 2 ^ n \<longleftrightarrow> take_bit n (unat w) = unat w"
    using n by (simp add: word_less_nat_alt unat_two_power take_bit_nat_eq_self_iff)
  also have "\<dots> \<longleftrightarrow> (\<forall>j\<ge>n. \<not> bit (unat w) j)"
    by (metis bit_eqI bit_take_bit_iff not_le)
  also have "\<dots> \<longleftrightarrow> (\<forall>j\<ge>n. \<not> bit w j)"
    by (metis bit_unsigned_iff bit_imp_le_length possible_bit_nat not_le)
  finally show ?thesis .
qed

lemma drop_bit_and_1: "drop_bit n w AND 1 = of_bool (bit w n)" for w :: "'a::len word"
  by (simp add: bit_iff_odd_drop_bit and_one_eq odd_iff_mod_2_eq_one)

end
