(* ===== verification/Lfsr.thy ===== *)
theory Lfsr
  imports ZynqPrelude
begin

text \<open>
  \<^verbatim>\<open>application/lfsr.c\<close>: powers of two, bit arrays, the bit-twiddling helpers of the code
  generator, and \<^verbatim>\<open>GetLfsrUint\<close>, which fills the buffer that is written to the code RAM.
  Arrays are lists; a pointer into an array is the rest of the list from there.
\<close>

section \<open>The functions\<close>

definition Power :: "u32 \<Rightarrow> u32" where
  "Power n = for_word 0 n (\<lambda>i uiRet. uiRet * 2) 1"

text \<open>\<^verbatim>\<open>for (i = len - 1; i >= 0; i--)\<close>: the argument is \<open>i + 1\<close>.\<close>

primrec BitToHex_loop :: "u8 list \<Rightarrow> nat \<Rightarrow> u32 \<Rightarrow> u32" where
  "BitToHex_loop bits 0 uiHex = uiHex"
| "BitToHex_loop bits (Suc i) uiHex =
     BitToHex_loop bits i (push_bit 1 uiHex OR ucast (bits ! i))"

definition BitToHex :: "u8 list \<Rightarrow> u8 \<Rightarrow> u32 res" where
  "BitToHex bits len =
     need (unat len \<le> length bits) OutOfBounds (Inr (BitToHex_loop bits (unat len) 0))"

text \<open>The first loop of \<^verbatim>\<open>HexToBit\<close>: how often \<^verbatim>\<open>usValue\<close> is shifted before bit 15 is set.\<close>

function HexToBit_scan :: "u8 \<Rightarrow> u16 \<Rightarrow> u8" where
  "HexToBit_scan i usValue =
     (if i < 16 then
        if 0x8000 AND usValue = 0x8000 then i
        else HexToBit_scan (i + 1) (push_bit 1 usValue)
      else i)"
  by pat_completeness auto
termination
  by (relation "measure (\<lambda>(i, v). unat (16 :: u8) - unat i)")
     (auto dest: incr_measure)

declare HexToBit_scan.simps [simp del]

definition HexToBit :: "u16 \<Rightarrow> u8 list \<Rightarrow> (u8 \<times> u8 list) res" where
  "HexToBit usHex bits =
     (let len = 16 - HexToBit_scan 0 usHex in
      need (unat len \<le> length bits) OutOfBounds
        (Inr (len, for_word 0 len
           (\<lambda>i bs. bs[unat i := ucast (drop_bit (unat i) usHex AND 1)]) bits)))"

function GetBitSet_loop :: "u8 \<Rightarrow> u32 \<Rightarrow> u8 \<Rightarrow> u8 \<Rightarrow> u8 \<times> u8" where
  "GetBitSet_loop i uiValue first second =
     (let ucLen = 32; uiMask = push_bit 31 1 in
      if i < 32 then
        if first = 0 then
          GetBitSet_loop (i + 1) uiValue
            (if uiMask = uiMask AND push_bit (unat i) uiValue then ucLen - i - 1 else first) second
        else if uiMask = uiMask AND push_bit (unat i) uiValue then (first, ucLen - i - 1)
        else GetBitSet_loop (i + 1) uiValue first second
      else (first, second))"
  by pat_completeness auto
termination
  by (relation "measure (\<lambda>(i, v, f, s). unat (32 :: u8) - unat i)")
     (auto dest: incr_measure)

declare GetBitSet_loop.simps [simp del]

definition GetBitSet :: "u32 \<Rightarrow> u8 \<times> u8" where
  "GetBitSet uiValue = GetBitSet_loop 0 uiValue 0 0"

text \<open>
  The result pairs the next state with the output bit. \<^verbatim>\<open>7 - ucFirst\<close> is an \<^verbatim>\<open>int\<close>,
  \<^verbatim>\<open>7 - ucSecond\<close> is unsigned and wraps.
\<close>

definition GetLsfr :: "u32 \<Rightarrow> u8 \<Rightarrow> u32 \<Rightarrow> (u32 \<times> u8) res" where
  "GetLsfr uiSeed ucFirst ucSecond =
     need (unat ucFirst \<le> 7 \<and> 7 - ucSecond < 32) UndefinedShift
       (let uiA = drop_bit (7 - unat ucFirst) uiSeed AND 1;
            uiB = drop_bit (unat (7 - ucSecond)) uiSeed AND 1;
            uiC = uiA XOR uiB
        in Inr (drop_bit 1 uiSeed OR push_bit 6 uiC, ucast (uiSeed AND 1)))"

definition CheckValue :: "u32 \<Rightarrow> u32 \<Rightarrow> int res" where
  "CheckValue uiValue n =
     (if uiValue AND 1 \<noteq> 1 then Inr (-1)
      else need (n < 32) UndefinedShift
        (if drop_bit (unat n) uiValue AND 1 \<noteq> 1 then Inr (-1) else Inr 0))"

function GetBitNum_loop :: "u32 \<Rightarrow> u32 \<Rightarrow> u32" where
  "GetBitNum_loop uiValue uiRet =
     (if uiValue \<noteq> 0 then GetBitNum_loop (uiValue AND (uiValue - 1)) (uiRet + 1) else uiRet)"
  by pat_completeness auto
termination
  by (relation "measure (\<lambda>(v, r). unat v)")
     (auto simp: word_less_nat_alt [symmetric] word_and_pred_less)

declare GetBitNum_loop.simps [simp del]

definition GetBitNum :: "u32 \<Rightarrow> u32" where
  "GetBitNum uiValue = GetBitNum_loop uiValue 0"

text \<open>
  \<open>stack\<close> is what the uninitialised \<^verbatim>\<open>bitBuff[2048]\<close> holds on entry. The call that would run
  the shift register is commented out in the code, which stores 0 for every bit instead.
\<close>

definition GetLfsrUint ::
  "u8 list \<Rightarrow> u32 \<Rightarrow> u32 \<Rightarrow> u32 list \<Rightarrow> u32 \<Rightarrow> u32 list res" where
  "GetLfsrUint stack uiSeed uiValue puiBuff n =
     (if n > 11 then Inr puiBuff
      else
        (let uiNum = Power n - 1;
             bitBuff = for_word 0 uiNum (\<lambda>i b. b[unat i := 0]) stack
         in for_word 0 ((uiNum + 1) div 32)
              (\<lambda>j r. andThen r (\<lambda>buf. andThen (BitToHex (drop (unat j * 32) bitBuff) 32)
                 (\<lambda>h. need (unat j < length buf) OutOfBounds (Inr (buf[unat j := h])))))
              (Inr puiBuff)))"

section \<open>Powers of two\<close>

lemma fold_const_mult: "fold (\<lambda>k r. r * 2) xs a = a * 2 ^ length xs" for a :: u32
  by (induction xs arbitrary: a) (auto simp: algebra_simps)

lemma Power_eq: "Power n = 2 ^ unat n"
  by (simp add: Power_def for_word_0 fold_const_mult)

section \<open>Bit arrays\<close>

lemma BitToHex_loop_bit:
  assumes "\<And>i. i < n \<Longrightarrow> bits ! i = of_bool (bit w i)" "k < 32"
  shows "bit (BitToHex_loop bits n h) k = (if k < n then bit w k else bit h (k - n))"
  using assms
proof (induction n arbitrary: h)
  case 0
  then show ?case by simp
next
  case (Suc n)
  let ?h = "push_bit 1 h OR ucast (bits ! n)"
  have IH: "bit (BitToHex_loop bits n ?h) k = (if k < n then bit w k else bit ?h (k - n))"
    using Suc by auto
  have h: "bit ?h j \<longleftrightarrow> (if j = 0 then bit w n else bit h (j - 1))" if "j < 32" for j
    using that Suc.prems(1) [of n]
    by (cases j) (auto simp del: One_nat_def push_bit_Suc simp: bit_or_iff shl1_bit bit_simps)
  show ?case
    using IH h [of "k - n"] Suc.prems(2) by (cases "k = n") (auto simp: not_less)
qed

lemma BitToHex_loop_eq:
  fixes w :: "'a::len word"
  assumes "\<And>i. i < n \<Longrightarrow> bits ! i = of_bool (bit w i)" "\<And>i. n \<le> i \<Longrightarrow> \<not> bit w i"
  shows "BitToHex_loop bits n 0 = ucast w"
proof (rule bit_word_eqI)
  fix k assume "k < LENGTH(32)"
  then have "k < 32" by simp
  show "bit (BitToHex_loop bits n 0) k = bit (ucast w :: u32) k"
    using BitToHex_loop_bit [of n bits w k 0] assms \<open>k < 32\<close>
    by (auto simp: bit_simps not_less)
qed

lemma BitToHex_loop_zeros:
  "(\<And>i. i < n \<Longrightarrow> bits ! i = 0) \<Longrightarrow> BitToHex_loop bits n h = push_bit n h"
  by (induction n arbitrary: h) (auto simp: add.commute)

lemma mask_top_bit: "0x8000 AND v = 0x8000 \<longleftrightarrow> bit v 15" for v :: u16
  using and_single_bit [of 15 v] by simp

lemma HexToBit_scan_spec:
  assumes "i \<le> 16" "\<And>k. 16 - unat i \<le> k \<Longrightarrow> \<not> bit h k" "v = push_bit (unat i) h"
  shows "HexToBit_scan i v \<le> 16 \<and> (\<forall>k. 16 - unat (HexToBit_scan i v) \<le> k \<longrightarrow> \<not> bit h k)
    \<and> (HexToBit_scan i v < 16 \<longrightarrow> bit h (15 - unat (HexToBit_scan i v)))"
  using assms
proof (induction i v rule: HexToBit_scan.induct)
  case (1 i v)
  show ?case
  proof (cases "i < 16")
    case False
    then have "HexToBit_scan i v = i" by (subst HexToBit_scan.simps) simp
    with False 1 show ?thesis by auto
  next
    case True
    then have i: "unat i < 16" by (simp add: word_less_nat_alt)
    have top: "bit v 15 \<longleftrightarrow> bit h (15 - unat i)"
      using i "1.prems"(3) by (auto simp: bit_simps)
    show ?thesis
    proof (cases "bit v 15")
      case b: True
      with True have "HexToBit_scan i v = i"
        by (subst HexToBit_scan.simps) (simp add: mask_top_bit)
      with b True top "1.prems" show ?thesis by auto
    next
      case b: False
      have le: "i + 1 \<le> 16" and s: "unat (i + 1) = Suc (unat i)"
        using True unat_incr [OF True] by (auto simp: word_le_nat_alt word_less_nat_alt)
      have clr: "\<not> bit h k" if "16 - unat (i + 1) \<le> k" for k
        using that b top s i "1.prems"(2) [of k] by (cases "k = 15 - unat i") auto
      have v: "push_bit 1 v = push_bit (unat (i + 1)) h"
        using "1.prems"(3) s by simp
      have "HexToBit_scan i v = HexToBit_scan (i + 1) (push_bit 1 v)"
        using b True by (subst HexToBit_scan.simps) (simp add: mask_top_bit)
      then show ?thesis
        using "1.IH" [OF True _ le clr v] b by (simp only: mask_top_bit) blast
    qed
  qed
qed

lemma HexToBit_then_BitToHex:
  assumes "16 \<le> length bits"
  shows "\<exists>len bs. HexToBit usHex bits = Inr (len, bs) \<and> BitToHex bs len = Inr (ucast usHex)"
proof -
  define i where "i = HexToBit_scan 0 usHex"
  define len :: u8 where "len = 16 - i"
  from HexToBit_scan_spec [of 0 usHex usHex] have i: "i \<le> 16"
    and clear: "\<And>k. 16 - unat i \<le> k \<Longrightarrow> \<not> bit usHex k"
    by (auto simp: i_def impossible_bit)
  from i have len: "unat len = 16 - unat i"
    by (simp add: len_def unat_sub word_le_nat_alt)
  define bs where "bs = map (\<lambda>k. ucast (drop_bit (unat (of_nat k :: u8)) usHex AND 1)) [0..<unat len]
    @ drop (unat len) bits"
  have H: "HexToBit usHex bits = Inr (len, bs)"
    using assms len for_word_update [of len bits] unfolding HexToBit_def Let_def i_def [symmetric]
      len_def [symmetric] bs_def
    by simp
  have nth: "bs ! k = of_bool (bit usHex k)" if "k < unat len" for k
    using that by (simp add: bs_def nth_append unat_of_nat_below bit_iff_odd_drop_bit
        and_one_eq odd_iff_mod_2_eq_one)
  have "BitToHex_loop bs (unat len) 0 = ucast usHex"
    using nth clear len by (intro BitToHex_loop_eq) auto
  with H show ?thesis using assms len by (simp add: BitToHex_def bs_def)
qed

section \<open>Counting and locating bits\<close>

lemma bits_double_pred:
  fixes n :: nat
  assumes "n > 0"
  shows "{k. bit (2 * n AND (2 * n - 1)) k} = Suc ` {k. bit (n AND (n - 1)) k}"
proof -
  have pred: "2 * n - 1 = Suc (2 * (n - 1))" using assms by simp
  have "bit (2 * n) k \<and> bit (2 * n - 1) k \<longleftrightarrow> (\<exists>j. k = Suc j \<and> bit n j \<and> bit (n - 1) j)" for k
    unfolding pred by (cases k) (auto simp: bit_0 bit_Suc)
  then show ?thesis by (auto simp: bit_and_iff)
qed

lemma bits_double: "{k. bit (2 * n) k} = Suc ` {k. bit n k}" for n :: nat
proof -
  have "bit (2 * n) k \<longleftrightarrow> (\<exists>j. k = Suc j \<and> bit n j)" for k
    by (cases k) (auto simp: bit_0 bit_Suc)
  then show ?thesis by auto
qed

lemma finite_bits: "finite {k. bit n k}" for n :: nat
proof (rule finite_subset)
  show "{k. bit n k} \<subseteq> {..<n}"
  proof
    fix k assume "k \<in> {k. bit n k}"
    then have "2 ^ k \<le> n" by (auto simp: bit_iff_odd intro: ccontr)
    then show "k \<in> {..<n}" using order.strict_trans2 [OF less_exp [of k]] by simp
  qed
qed simp

text \<open>\<^verbatim>\<open>v & (v - 1)\<close> drops exactly one set bit.\<close>

lemma card_bits_and_pred: "n > 0 \<Longrightarrow> Suc (card {k. bit (n AND (n - 1)) k}) = card {k. bit n k}"
  for n :: nat
proof (induction n rule: nat_bit_induct)
  case zero
  then show ?case by simp
next
  case (even n)
  then show ?case
    by (simp add: bits_double_pred [simplified] bits_double card_image)
next
  case (odd n)
  have b: "bit (Suc (2 * n)) k \<longleftrightarrow> k = 0 \<or> bit (2 * n) k" for k
    by (cases k) (auto simp: bit_0 bit_Suc)
  then have "Suc (2 * n) AND (2 * n) = 2 * n"
    by (intro bit_eqI) (auto simp: bit_and_iff)
  moreover have "{k. bit (Suc (2 * n)) k} = insert 0 {k. bit (2 * n) k}"
    using b by auto
  ultimately show ?case by (simp add: bits_double finite_bits card_insert_if)
qed

text \<open>The positions of the set bits, and the highest one below a bound (0 if there is none).\<close>

definition bits_of :: "'a::len word \<Rightarrow> nat set" where
  "bits_of w = {k. bit w k}"

lemma bits_of_unat: "bits_of w = {k. bit (unat w) k}"
  by (simp add: bits_of_def unsigned_word_eqI bit_unsigned_iff bit_imp_le_length) 

lemma finite_bits_of [simp]: "finite (bits_of w)"
  by (simp add: bits_of_unat finite_bits)

lemma card_bits_of_pred:
  "v \<noteq> 0 \<Longrightarrow> Suc (card (bits_of (v AND (v - 1)))) = card (bits_of v)"
  using card_bits_and_pred [of "unat v"]
  by (simp add: bits_of_unat unsigned_and_eq unat_minus_one unat_gt_0)

lemma GetBitNum_loop_eq: "GetBitNum_loop v r = r + of_nat (card (bits_of v))"
proof (induction v r rule: GetBitNum_loop.induct)
  case (1 v r)
  show ?case
  proof (cases "v = 0")
    case True
    then show ?thesis by (subst GetBitNum_loop.simps) (simp add: bits_of_def)
  next
    case False
    have "(of_nat (card (bits_of v)) :: u32) = 1 + of_nat (card (bits_of (v AND (v - 1))))"
      using card_bits_of_pred [OF False] by (metis of_nat_Suc)
    with False 1 show ?thesis
      by (simp add: GetBitNum_loop.simps [of v])
  qed
qed

definition top_bit_below :: "u32 \<Rightarrow> nat \<Rightarrow> nat" where
  "top_bit_below v n = (if bits_of v \<inter> {..<n} = {} then 0 else Max (bits_of v \<inter> {..<n}))"

lemma top_bit_below_0 [simp]: "top_bit_below v 0 = 0"
  by (simp add: top_bit_below_def)

lemma top_bit_below_Suc:
  "top_bit_below v (Suc n) = (if bit v n then n else top_bit_below v n)"
proof (cases "bit v n")
  case True
  then have "bits_of v \<inter> {..<Suc n} = insert n (bits_of v \<inter> {..<n})"
    by (auto simp: bits_of_def lessThan_Suc)
  moreover have "Max (insert n (bits_of v \<inter> {..<n})) = n"
    by (rule Max_eqI) auto
  ultimately show ?thesis using True by (simp add: top_bit_below_def)
next
  case False
  then have "bits_of v \<inter> {..<Suc n} = bits_of v \<inter> {..<n}"
    by (auto simp: bits_of_def lessThan_Suc)
  with False show ?thesis by (simp add: top_bit_below_def)
qed

lemma top_bit_below_less: "n > 0 \<Longrightarrow> top_bit_below v n < n"
  by (induction n) (auto simp: top_bit_below_Suc less_Suc_eq)

lemma GetBitSet_mask:
  "unat i < 32 \<Longrightarrow> 0x80000000 AND push_bit (unat i) v = 0x80000000 \<longleftrightarrow> bit v (31 - unat i)"
  for v :: u32
  using and_single_bit [of 31 "push_bit (unat i) v"] by (simp add: bit_push_bit_iff)

lemma GetBitSet_loop_second:
  assumes "f \<noteq> 0" "i \<le> 32"
  shows "GetBitSet_loop i v f 0 = (f, of_nat (top_bit_below v (32 - unat i)))"
  using assms
proof (induction i v f "0::u8" rule: GetBitSet_loop.induct)
  case (1 i v f)
  show ?case
  proof (cases "i < 32")
    case False
    with 1 have "i = 32" by simp
    then show ?thesis by (simp add: GetBitSet_loop.simps [of 32])
  next
    case True
    then have i: "unat i < 32" by (simp add: word_less_nat_alt)
    then have n: "32 - unat i = Suc (31 - unat i)" and s: "unat (i + 1) = Suc (unat i)"
      using unat_incr [OF True] by auto
    show ?thesis
    proof (cases "bit v (31 - unat i)")
      case b: True
      have "32 - i - 1 = of_nat (31 - unat i)"
        using i by (simp add: of_nat_diff)
      with b True 1 i show ?thesis
        by (subst GetBitSet_loop.simps)
           (simp add: GetBitSet_mask n top_bit_below_Suc)
    next
      case b: False
      have "i + 1 \<le> 32" using s i by (simp add: word_le_nat_alt)
      with b True 1 i s show ?thesis
        by (subst GetBitSet_loop.simps)
           (simp add: GetBitSet_mask n top_bit_below_Suc)
    qed
  qed
qed

lemma GetBitSet_loop_eq:
  assumes "i \<le> 32"
  shows "GetBitSet_loop i v 0 0 =
    (let f = top_bit_below v (32 - unat i) in (of_nat f, of_nat (top_bit_below v f)))"
  using assms
proof (induction i v "0::u8" "0::u8" rule: GetBitSet_loop.induct)
  case (1 i v)
  show ?case
  proof (cases "i < 32")
    case False
    with 1 have "i = 32" by simp
    then show ?thesis by (simp add: GetBitSet_loop.simps [of 32])
  next
    case True
    then have i: "unat i < 32" by (simp add: word_less_nat_alt)
    then have n: "32 - unat i = Suc (31 - unat i)" and s: "unat (i + 1) = Suc (unat i)"
      using unat_incr [OF True] by auto
    have le: "i + 1 \<le> 32" using s i by (simp add: word_le_nat_alt)
    show ?thesis
    proof (cases "bit v (31 - unat i)")
      case b: True
      have e: "32 - i - 1 = of_nat (31 - unat i)" using i by (simp add: of_nat_diff)
      have u: "GetBitSet_loop i v 0 0 = GetBitSet_loop (i + 1) v (31 - i) 0"
        using b True i by (subst GetBitSet_loop.simps) (simp add: GetBitSet_mask)
      show ?thesis
      proof (cases "i = 31")
        case t: True
        with u b show ?thesis by (simp add: GetBitSet_loop.simps [of 32] top_bit_below_Suc)
      next
        case f: False
        then have "31 - i \<noteq> 0" by simp
        from GetBitSet_loop_second [OF this le, of v] b n s show ?thesis
          by (simp add: u top_bit_below_Suc of_nat_diff)
      qed
    next
      case b: False
      have u: "GetBitSet_loop i v 0 0 = GetBitSet_loop (i + 1) v 0 0"
        using b True i by (subst GetBitSet_loop.simps) (simp add: GetBitSet_mask)
      with "1.hyps" (1) [OF refl refl True refl _ le] b i n s show ?thesis
        by (simp add: GetBitSet_mask top_bit_below_Suc)
    qed
  qed
qed

section \<open>The shift register\<close>

lemma GetLsfr_bits:
  assumes "GetLsfr s f k = Inr (t, b)" "s < 128"
  shows "bit t j \<longleftrightarrow> (if j = 6 then bit s (7 - unat f) \<noteq> bit s (unat (7 - k)) else j < 6 \<and> bit s (Suc j))"
    and "b = of_bool (bit s 0)"
proof -
  have top: "bit s (Suc j) \<longrightarrow> j < 6"
    using assms(2) below_exp_bits [of 7 s] by (cases "j < 6") auto
  have t: "t = drop_bit 1 s OR push_bit 6 (of_bool (bit s (7 - unat f)) XOR of_bool (bit s (unat (7 - k))))"
    and b: "b = ucast (s AND 1)"
    using assms(1) by (auto simp: GetLsfr_def Let_def drop_bit_and_1)
  show "b = of_bool (bit s 0)"
    using drop_bit_and_1 [of 0 s] by (simp add: b)
  have x: "of_bool p XOR of_bool q = (of_bool (p \<noteq> q) :: u32)" for p q
    by (cases p; cases q) auto
  have d: "bit (drop_bit 1 s) j = bit s (Suc j)"
    by (simp add: bit_drop_bit_eq)
  have p: "bit (push_bit 6 (of_bool r :: u32)) j \<longleftrightarrow> j = 6 \<and> r" for r
    using bit_exp_iff [of 6 j, where ?'a = u32] by (cases r) auto
  show "bit t j \<longleftrightarrow> (if j = 6 then bit s (7 - unat f) \<noteq> bit s (unat (7 - k)) else j < 6 \<and> bit s (Suc j))"
    using top unfolding t x bit_or_iff d p by auto
qed

lemma GetLsfr_defined: "\<lbrakk>unat f \<le> 7; k \<le> 7\<rbrakk> \<Longrightarrow> \<exists>t b. GetLsfr s f k = Inr (t, b)"
  by (auto simp: GetLsfr_def Let_def word_le_nat_alt word_less_nat_alt unat_sub)

lemma GetLsfr_keeps_7_bits: "\<lbrakk>GetLsfr s f k = Inr (t, b); s < 128\<rbrakk> \<Longrightarrow> t < 128"
  using below_exp_bits [of 7 t] GetLsfr_bits(1) [of s f k t b] by simp

lemma GetLsfr_injective:
  assumes "GetLsfr s 7 k = Inr (t, b)" "GetLsfr s' 7 k = Inr (t, b')" "s < 128" "s' < 128"
    "0 < k" "k < 7"
  shows "s = s'"
proof -
  have k: "unat (7 - k) < 7" "0 < unat (7 - k)"
    using assms(5,6) by (auto simp: unat_sub word_less_nat_alt word_le_nat_alt)
  have hi: "bit s (Suc j) = bit s' (Suc j)" if "j < 6" for j
    using GetLsfr_bits(1) [OF assms(1,3), of j] GetLsfr_bits(1) [OF assms(2,4), of j] that by simp
  from hi [of "unat (7 - k) - 1"] k have tap: "bit s (unat (7 - k)) = bit s' (unat (7 - k))"
    by simp
  have lo: "bit s 0 = bit s' 0"
    using GetLsfr_bits(1) [OF assms(1,3), of 6] GetLsfr_bits(1) [OF assms(2,4), of 6] tap by auto
  have top: "\<not> bit s i \<and> \<not> bit s' i" if "7 \<le> i" for i
    using assms(3,4) below_exp_bits [of 7 s] below_exp_bits [of 7 s'] that by simp
  show ?thesis
  proof (rule bit_word_eqI)
    fix i
    show "bit s i = bit s' i"
      using lo hi [of "i - 1"] top [of i] by (cases "i = 0"; cases "i < 7") auto
  qed
qed

section \<open>The code buffer\<close>

lemma uiNum_bounds:
  assumes "n \<le> 11"
  shows "unat (Power n - 1) = 2 ^ unat n - 1" "unat (Power n - 1) < 2048"
    "unat ((Power n - 1 + 1) div 32) = 2 ^ unat n div 32"
proof -
  have n: "unat n \<le> 11" using assms by (simp add: word_le_nat_alt)
  then have u: "unat (Power n) = 2 ^ unat n" by (simp add: Power_eq unat_two_power)
  have "Power n \<noteq> 0" using u by (metis power_not_zero unsigned_0 zero_neq_numeral)
  then show e: "unat (Power n - 1) = 2 ^ unat n - 1" by (simp add: unat_minus_one u)
  have "(2::nat) ^ unat n \<le> 2 ^ 11" using n by (intro power_increasing) auto
  then show "unat (Power n - 1) < 2048" using e by simp
  show "unat ((Power n - 1 + 1) div 32) = 2 ^ unat n div 32"
    by (simp add: unat_div u)
qed

lemma code_words:
  assumes "5 \<le> n" "n \<le> 11"
  shows "(2::nat) ^ n = 32 * (2 ^ n div 32)" "0 < (2::nat) ^ n div 32" "(2::nat) ^ n \<le> 2048"
proof -
  have "(2::nat) ^ n = 2 ^ 5 * 2 ^ (n - 5)" using assms by (simp only: flip: power_add) simp
  then show "(2::nat) ^ n = 32 * (2 ^ n div 32)" "0 < (2::nat) ^ n div 32" by simp_all
  show "(2::nat) ^ n \<le> 2048" using power_increasing [of n 11 "2::nat"] assms by simp
qed

lemma BitToHex_loop_32: "BitToHex_loop b 32 0 = BitToHex_loop b 31 (ucast (b ! 31))"
proof -
  have "BitToHex_loop b (Suc 31) 0 = BitToHex_loop b 31 (ucast (b ! 31))"
    by (simp only: BitToHex_loop.simps) simp
  then show ?thesis by simp
qed

text \<open>All bits but the last are 0: so are all words but the last, which has one bit to its name.\<close>

lemma zero_bits_words:
  assumes W: "0 < W" and bits: "bits = replicate (32 * W - 1) 0 @ x # xs"
  shows "map (\<lambda>j. BitToHex_loop (drop (j * 32) bits) 32 0) [0..<W]
    = replicate (W - 1) 0 @ [push_bit 31 (ucast x)]"
proof -
  have zero: "bits ! i = 0" if "i < 32 * W - 1" for i using that by (simp add: bits nth_append)
  have len: "32 * W \<le> length bits" using W by (simp add: bits)
  have "map (\<lambda>j. BitToHex_loop (drop (j * 32) bits) 32 0) [0..<W - 1] = replicate (W - 1) 0"
  proof (rule nth_equalityI)
    fix i assume "i < length (map (\<lambda>j. BitToHex_loop (drop (j * 32) bits) 32 0) [0..<W - 1])"
    then have i: "i < W - 1" by simp
    have "BitToHex_loop (drop (i * 32) bits) 32 0 = push_bit 32 0"
      by (rule BitToHex_loop_zeros) (use i len zero in auto)
    with i show "map (\<lambda>j. BitToHex_loop (drop (j * 32) bits) 32 0) [0..<W - 1] ! i
        = replicate (W - 1) 0 ! i" by simp
  qed simp
  moreover have "BitToHex_loop (drop ((W - 1) * 32) bits) 32 0 = push_bit 31 (ucast x)"
  proof -
    have "drop ((W - 1) * 32) bits ! 31 = bits ! (32 * W - 1)"
      using W len by (simp add: algebra_simps)
    also have "\<dots> = x" by (simp add: bits nth_append)
    finally have "BitToHex_loop (drop ((W - 1) * 32) bits) 32 0
        = BitToHex_loop (drop ((W - 1) * 32) bits) 31 (ucast x)"
      by (simp add: BitToHex_loop_32)
    also have "\<dots> = push_bit 31 (ucast x)"
      by (rule BitToHex_loop_zeros) (use W len zero in auto)
    finally show ?thesis .
  qed
  moreover have "[0..<W] = [0..<W - 1] @ [W - 1]" using W by (cases W) auto
  ultimately show ?thesis by simp
qed

lemma GetLfsrUint_eq:
  assumes n: "5 \<le> n" "n \<le> 11" and len: "length stack = 2048" and buf: "2 ^ unat n div 32 \<le> length buf"
  shows "GetLfsrUint stack seed poly buf n =
    Inr (replicate (2 ^ unat n div 32 - 1) 0
      @ push_bit 31 (ucast (stack ! (2 ^ unat n - 1))) # drop (2 ^ unat n div 32) buf)"
proof -
  define W where "W = (2::nat) ^ unat n div 32"
  have N: "(2::nat) ^ unat n = 32 * W" "0 < W" "32 * W \<le> 2048"
    using code_words [of "unat n"] n by (auto simp: W_def word_le_nat_alt)
  define bits where "bits = replicate (32 * W - 1) (0::u8) @ drop (32 * W - 1) stack"
  have b: "for_word 0 (Power n - 1) (\<lambda>i b. b[unat i := 0]) stack = bits"
    using uiNum_bounds [OF n(2)] len N
    by (subst for_word_update) (auto simp: bits_def map_replicate_const)
  have cons: "drop (32 * W - 1) stack = stack ! (32 * W - 1) # drop (32 * W) stack"
    using N len Cons_nth_drop_Suc [of "32 * W - 1" stack] by simp
  have words: "BitToHex (drop (unat (of_nat j :: u32) * 32) bits) 32
      = Inr (BitToHex_loop (drop (j * 32) bits) 32 0)" if "j < W" for j
  proof -
    have "unat (of_nat j :: u32) = j" using that N by (simp add: unat_of_nat)
    with that N len show ?thesis by (simp add: BitToHex_def bits_def)
  qed
  have "for_word 0 ((Power n - 1 + 1) div 32) (\<lambda>j r. andThen r (\<lambda>buf.
      andThen (BitToHex (drop (unat j * 32) bits) 32)
        (\<lambda>h. need (unat j < length buf) OutOfBounds (Inr (buf[unat j := h]))))) (Inr buf)
    = Inr (map (\<lambda>j. BitToHex_loop (drop (j * 32) bits) 32 0) [0..<W] @ drop W buf)"
    using uiNum_bounds(3) [OF n(2)] buf words
    by (subst for_word_res_update [where h = "\<lambda>j. BitToHex_loop (drop (j * 32) bits) 32 0"])
       (auto simp: W_def)
  moreover have "\<not> 11 < n" using n by simp
  ultimately show ?thesis
    using b N zero_bits_words [OF N(2) bits_def [unfolded cons]]
    by (simp add: GetLfsrUint_def W_def [symmetric])
qed

section \<open>Properties\<close>

text \<open>
  \<^verbatim>\<open>Power\<close> doubles in 32-bit arithmetic: it is \<open>2 ^ n\<close> while that fits, and 0 from
  32 on.
\<close>

theorem Power_wraps: "unat (Power n) = (if unat n < 32 then 2 ^ unat n else 0)"
proof (cases "unat n < 32")
  case True
  then show ?thesis by (simp add: Power_eq unat_two_power)
next
  case False
  then have "(2 :: u32) ^ unat n = 2 ^ 32 * 2 ^ (unat n - 32)"
    by (simp only: flip: power_add) simp
  moreover have "(2 :: u32) ^ 32 = 0" by simp
  ultimately have "(2 :: u32) ^ unat n = 0" by (simp only: mult_zero_left)
  with False show ?thesis by (simp only: Power_eq unsigned_0 if_False)
qed

text \<open>
  \<^verbatim>\<open>BitToHex\<close> undoes \<^verbatim>\<open>HexToBit\<close>: spelling a 16-bit value out into a large enough bit
  array succeeds, and reading that many bits back gives the value.
\<close>

theorem hex_bit_roundtrip:
  assumes "16 \<le> length bits"
  shows "andThen (HexToBit usHex bits) (\<lambda>(len, bs). BitToHex bs len) = Inr (ucast usHex)"
  using HexToBit_then_BitToHex [OF assms, of usHex] by auto

theorem hex_bit_roundtrip_witness:
  "16 \<le> length (replicate 16 (0::u8)) \<and>
   andThen (HexToBit 0x1D2C (replicate 16 0)) (\<lambda>(len, bs). BitToHex bs len) = Inr 0x1D2C"
  using hex_bit_roundtrip [of "replicate 16 0" "0x1D2C"] by simp

text \<open>
  \<^verbatim>\<open>GetBitNum\<close> terminates and counts the set bits of its argument.
\<close>

theorem GetBitNum_popcount: "GetBitNum uiValue = of_nat (card {k. bit uiValue k})"
  by (simp add: GetBitNum_def GetBitNum_loop_eq bits_of_def)

text \<open>
  \<^verbatim>\<open>GetBitSet\<close> returns the position of the highest set bit and the position of the next
  one below it, each 0 when there is none.
\<close>

theorem GetBitSet_finds_top_two:
  "GetBitSet v =
     (let f = (if v = 0 then 0 else Max {k. bit v k}); below = {k. bit v k \<and> k < f}
      in (of_nat f, of_nat (if below = {} then 0 else Max below)))"
proof -
  have all: "bits_of v \<inter> {..<32} = {k. bit v k}"
    by (auto simp: bits_of_def dest: bit_imp_le_length)
  have "v = 0 \<longleftrightarrow> {k. bit v k} = {}" using bit_eqI [of v 0] by auto
  then have f: "top_bit_below v 32 = (if v = 0 then 0 else Max {k. bit v k})"
    unfolding top_bit_below_def all by (cases "v = 0") auto
  have below: "top_bit_below v n =
      (if {k. bit v k \<and> k < n} = {} then 0 else Max {k. bit v k \<and> k < n})" for n
  proof -
    have "bits_of v \<inter> {..<n} = {k. bit v k \<and> k < n}" by (auto simp: bits_of_def)
    then show ?thesis by (simp only: top_bit_below_def)
  qed
  show ?thesis
    using GetBitSet_loop_eq [of 0 v]
    unfolding GetBitSet_def Let_def f [symmetric] below [symmetric] by simp
qed

text \<open>
  One step of the 7-stage shift register, with one tap on the output stage and the other on
  an inner stage, is defined and permutes the 7-bit states: no state is lost, so a sequence
  started anywhere is purely periodic.
\<close>

theorem GetLsfr_permutes_states:
  assumes "0 < k" "k < 7"
  shows "bij_betw (\<lambda>s. fst (projr (GetLsfr s 7 k))) {s. s < 128} {s. s < 128}
    \<and> (\<forall>s. isl (GetLsfr s 7 k) = False)"
proof -
  have def: "\<exists>t b. GetLsfr s 7 k = Inr (t, b)" for s
    using GetLsfr_defined [of 7 k s] assms by simp
  have "inj_on (\<lambda>s. fst (projr (GetLsfr s 7 k))) {s. s < 128}"
  proof (rule inj_onI)
    fix s s' assume s: "s \<in> {s. s < 128}" "s' \<in> {s. s < 128}"
      and eq: "fst (projr (GetLsfr s 7 k)) = fst (projr (GetLsfr s' 7 k))"
    obtain t b t' b' where r: "GetLsfr s 7 k = Inr (t, b)" "GetLsfr s' 7 k = Inr (t', b')"
      using def by meson
    with eq have "t' = t" by simp
    with GetLsfr_injective [of s k t b s' b'] r s assms show "s = s'" by simp
  qed
  moreover have "fst (projr (GetLsfr s 7 k)) < 128" if "s < 128" for s
  proof -
    obtain t b where r: "GetLsfr s 7 k = Inr (t, b)" using def by meson
    with GetLsfr_keeps_7_bits [OF r that] show ?thesis by simp
  qed
  moreover have "isl (GetLsfr s 7 k) = False" for s
    using def [of s] by auto
  ultimately show ?thesis
    unfolding bij_betw_def by (intro conjI endo_inj_surj) auto
qed

theorem GetLsfr_permutes_states_witness:
  "bij_betw (\<lambda>s. fst (projr (GetLsfr s 7 6))) {s. s < 128} {s. s < 128}
    \<and> (\<forall>s. isl (GetLsfr s 7 6) = False)"
  by (rule GetLsfr_permutes_states) simp_all

text \<open>
  C40. For code orders 5 to 11 \<^verbatim>\<open>GetLfsrUint\<close> stores \<open>2 ^ n div 32\<close> words that do not depend
  on the seed or the polynomial: every word is 0 except that bit 31 of the last one is whatever
  the uninitialised last byte of the bit buffer held. The rest of the caller's buffer is kept.
\<close>

theorem GetLfsrUint_ignores_seed:
  assumes "5 \<le> n" "n \<le> 11" "length stack = 2048" "2 ^ unat n div 32 \<le> length puiBuff"
  shows "GetLfsrUint stack uiSeed uiValue puiBuff n =
    Inr (replicate (2 ^ unat n div 32 - 1) 0
      @ push_bit 31 (ucast (stack ! (2 ^ unat n - 1))) # drop (2 ^ unat n div 32) puiBuff)"
  by (rule GetLfsrUint_eq [OF assms])

theorem GetLfsrUint_ignores_seed_witness:
  "GetLfsrUint (replicate 2048 1) 0x55 0x60 [9, 9, 9, 9, 9] 7 = Inr [0, 0, 0, 0x80000000, 9]"
  using GetLfsrUint_ignores_seed [of 7 "replicate 2048 1" "[9, 9, 9, 9, 9]" "0x55" "0x60"]
  by (simp add: numeral_3_eq_3)

end
