(* ===== verification/FileOps.thy ===== *)
theory FileOps
  imports ZynqPrelude
begin

text \<open>
  The interface between the application and the register drivers: what a driver asks of the
  kernel and the hardware, the table of operations it registers (\<^verbatim>\<open>struct file_operations\<close>),
  and the contract of a word-addressed register device, with the lemmas its clients need.
\<close>

section \<open>Kernel and hardware\<close>

text \<open>
  Every kernel service that reaches the hardware or takes a resource leaves an event, so a state
  carries its history. The hardware is a parameter: a function that says what a register reads as
  after a history, so it may change registers by itself. \<open>kernel_mem\<close> gives the answers of the two
  memory-region services.
\<close>

datatype dev_event =
    IoRead u32
  | IoWrite u32 u32                  \<comment> \<open>address, value\<close>
  | RequestRegion u32 u32
  | ReleaseRegion u32 u32
  | Ioremap u32 u32 u32              \<comment> \<open>physical address, size, virtual address\<close>
  | Iounmap u32

type_synonym hardware = "dev_event list \<Rightarrow> u32 \<Rightarrow> u32"

record kernel_mem =
  request_mem_region :: "u32 \<Rightarrow> u32 \<Rightarrow> bool"
  ioremap_nocache :: "u32 \<Rightarrow> u32 \<Rightarrow> u32"

definition ioread32 :: "hardware \<Rightarrow> u32 \<Rightarrow> dev_event list \<Rightarrow> u32 \<times> dev_event list" where
  "ioread32 hw addr log = (hw log addr, log @ [IoRead addr])"

definition iowrite32 :: "u32 \<Rightarrow> u32 \<Rightarrow> dev_event list \<Rightarrow> dev_event list" where
  "iowrite32 value addr log = log @ [IoWrite addr value]"

text \<open>
  \<open>storage_at hw a\<close>: the word at address \<open>a\<close> is plain storage. It reads as the last value written
  to it and nothing else changes it.
\<close>

definition storage_at :: "hardware \<Rightarrow> u32 \<Rightarrow> bool" where
  "storage_at hw a \<longleftrightarrow>
     (\<forall>log v. hw (log @ [IoWrite a v]) a = v) \<and>
     (\<forall>log e. (\<forall>v. e \<noteq> IoWrite a v) \<longrightarrow> hw (log @ [e]) a = hw log a)"

text \<open>Hardware whose words all are storage, with given contents at reset.\<close>

definition bank_hw :: "(u32 \<Rightarrow> u32) \<Rightarrow> hardware" where
  "bank_hw reset log = fold (\<lambda>e m. case e of IoWrite a v \<Rightarrow> m(a := v) | _ \<Rightarrow> m) log reset"

lemma storage_at_bank_hw: "storage_at (bank_hw reset) a"
  by (auto simp: storage_at_def bank_hw_def split: dev_event.splits)

section \<open>The operations table\<close>

text \<open>
  \<open>fop_read\<close> returns the return value, the word stored to the caller's buffer (if any) and the
  new state; \<open>fop_llseek\<close> takes offset and \<^verbatim>\<open>whence\<close>. Positions are \<^verbatim>\<open>loff_t\<close>.
\<close>

record 'f file_operations =
  fop_read :: "'f \<Rightarrow> int \<times> u32 option \<times> 'f"
  fop_write :: "'f \<Rightarrow> u32 \<Rightarrow> int \<times> 'f"
  fop_llseek :: "'f \<Rightarrow> u64 \<Rightarrow> int \<Rightarrow> u64 \<times> 'f"

definition EINVAL :: u64 where "EINVAL = 22"

section \<open>Positions and addresses\<close>

lemma loff_of_u32: "\<not> sint (ucast r :: u64) < 0" "ucast (ucast r :: u64) = r" for r :: u32
proof -
  have "\<not> bit (ucast r :: u64) 63"
    by (auto simp: bit_ucast_iff dest: bit_imp_le_length)
  then show "\<not> sint (ucast r :: u64) < 0"
    using bit_last_iff [of "ucast r :: u64"] by simp
  show "ucast (ucast r :: u64) = r" by (rule ucast_up_ucast_id) (simp add: is_up)
qed

lemma word4_inj: "\<lbrakk>r < 2 ^ 30; s < 2 ^ 30\<rbrakk> \<Longrightarrow> 4 * r = 4 * s \<longleftrightarrow> r = s" for r s :: u32
proof
  assume r: "r < 2 ^ 30" and s: "s < 2 ^ 30" and eq: "4 * r = 4 * s"
  have "unat (4 * w) = 4 * unat w" if "w < 2 ^ 30" for w :: u32
    using that by (simp add: unat_word_ariths word_less_nat_alt)
  with r s eq have "4 * unat r = 4 * unat s" by metis
  then show "r = s" by (simp add: word_unat_eq_iff)
qed simp

section \<open>Contract of a register device\<close>

text \<open>
  \<open>ready\<close> says that the device has been opened, \<open>pos\<close> is the file position, \<open>nregs\<close> the
  number of 32-bit registers, \<open>peek f r\<close> what register \<open>r\<close> would read as now. Reading and
  writing happen at the position and leave it where it is.
\<close>

locale word_device =
  fixes fops :: "'f file_operations"
    and ready :: "'f \<Rightarrow> bool"
    and pos :: "'f \<Rightarrow> u64"
    and nregs :: u32
    and peek :: "'f \<Rightarrow> u32 \<Rightarrow> u32"
  assumes seek_set: "\<lbrakk>ready f; fop_llseek fops f (ucast (r :: u32)) 0 = (p, f')\<rbrakk> \<Longrightarrow>
      ready f' \<and> pos f' = ucast r \<and> peek f' = peek f"
    and read_inside: "\<lbrakk>ready f; pos f = ucast (r :: u32); r < nregs; fop_read fops f = (n, b, f')\<rbrakk> \<Longrightarrow>
      n = 4 \<and> b = Some (peek f r) \<and> ready f' \<and> pos f' = pos f"
    and read_outside: "\<lbrakk>ready f; pos f = ucast (r :: u32); \<not> r < nregs\<rbrakk> \<Longrightarrow>
      fop_read fops f = (0, None, f)"
    and write_inside: "\<lbrakk>ready f; pos f = ucast (r :: u32); r < nregs; fop_write fops f v = (n, f')\<rbrakk> \<Longrightarrow>
      n = 4 \<and> ready f' \<and> pos f' = pos f"
    and write_outside: "\<lbrakk>ready f; pos f = ucast (r :: u32); \<not> r < nregs\<rbrakk> \<Longrightarrow>
      fop_write fops f v = (0, f)"

text \<open>
  A register store is a register device some of whose registers (\<open>stable\<close>) are storage: they
  keep their value under every operation but a write to themselves.
\<close>

locale register_store = word_device fops ready pos nregs peek
  for fops :: "'f file_operations"
    and ready :: "'f \<Rightarrow> bool"
    and pos :: "'f \<Rightarrow> u64"
    and nregs :: u32
    and peek :: "'f \<Rightarrow> u32 \<Rightarrow> u32" +
  fixes stable :: "'f \<Rightarrow> u32 \<Rightarrow> bool"
  assumes stable_seek: "fop_llseek fops f off w = (p, f') \<Longrightarrow> stable f' s = stable f s"
    and stable_read: "fop_read fops f = (n, b, f') \<Longrightarrow> stable f' s = stable f s"
    and stable_write: "fop_write fops f v = (n, f') \<Longrightarrow> stable f' s = stable f s"
    and read_keeps: "\<lbrakk>fop_read fops f = (n, b, f'); stable f s\<rbrakk> \<Longrightarrow> peek f' s = peek f s"
    and write_stores: "\<lbrakk>ready f; pos f = ucast (r :: u32); r < nregs; fop_write fops f v = (n, f');
      stable f r\<rbrakk> \<Longrightarrow> peek f' r = v"
    and write_keeps: "\<lbrakk>ready f; pos f = ucast (r :: u32); r < nregs; fop_write fops f v = (n, f');
      stable f s; s < nregs; s \<noteq> r\<rbrakk> \<Longrightarrow> peek f' s = peek f s"

end
