(* ===== verification/AxiCsr.thy ===== *)
theory AxiCsr
  imports FileOps
begin

text \<open>
  \<^verbatim>\<open>driver/csr/axi_csr.c\<close>: the character device \<^verbatim>\<open>/dev/axi_csr0\<close> that exposes the 14 control
  and status registers of the programmable logic. A state is an open file together with the device
  structure its \<^verbatim>\<open>private_data\<close> points to and the history of device events.
\<close>

section \<open>State\<close>

record axi_csr_dev =
  c_dev_physaddr :: u32
  c_dev_virtaddr :: u32
  c_dev_addrsize :: u32
  c_writers :: u32
  c_bytes_written :: u32
  c_writes :: u32
  c_opens :: u32
  c_closes :: u32
  c_errors :: u32

record axi_csr_file =
  c_dev :: axi_csr_dev
  c_f_pos :: u64
  c_log :: "dev_event list"

definition AXI_CSR_PHY_ADDR :: u32 where "AXI_CSR_PHY_ADDR = 0x67200000"
definition AXI_CSR_PHY_SIZE :: u32 where "AXI_CSR_PHY_SIZE = 14"

section \<open>File operations\<close>

definition axi_csr_open :: "kernel_mem \<Rightarrow> axi_csr_file \<Rightarrow> int \<times> axi_csr_file" where
  "axi_csr_open kern f =
     (let retval = 0;
          dev = (c_dev f)\<lparr>c_opens := c_opens (c_dev f) + 1,
                          c_dev_addrsize := AXI_CSR_PHY_SIZE,
                          c_dev_physaddr := AXI_CSR_PHY_ADDR\<rparr>;
          size = c_dev_addrsize dev * 4;
          log = c_log f @ (if request_mem_region kern (c_dev_physaddr dev) size
                           then [RequestRegion (c_dev_physaddr dev) size] else []);
          virt = ioremap_nocache kern (c_dev_physaddr dev) size;
          dev = dev\<lparr>c_dev_virtaddr := virt\<rparr>
      in (retval, f\<lparr>c_dev := dev, c_log := log @ [Ioremap (c_dev_physaddr dev) size virt]\<rparr>))"

definition axi_csr_release :: "axi_csr_file \<Rightarrow> int \<times> axi_csr_file" where
  "axi_csr_release f =
     (let dev = c_dev f in
      (0, f\<lparr>c_log := c_log f @ [Iounmap (c_dev_virtaddr dev),
                               ReleaseRegion (c_dev_physaddr dev) (c_dev_addrsize dev * 4)]\<rparr>))"

definition axi_csr_ioctl :: "axi_csr_file \<Rightarrow> u32 \<Rightarrow> u32 \<Rightarrow> int" where
  "axi_csr_ioctl f cmd arg = 0"

text \<open>\<^verbatim>\<open>unsigned long f_pos = filp->f_pos\<close> keeps the low 32 bits of the position.\<close>

definition axi_csr_read :: "hardware \<Rightarrow> axi_csr_file \<Rightarrow> int \<times> u32 option \<times> axi_csr_file" where
  "axi_csr_read hw f =
     (let dev = c_dev f;
          f_pos = ucast (c_f_pos f) :: u32;
          addr = c_dev_virtaddr dev + 4 * f_pos
      in if c_dev_addrsize dev \<le> f_pos then (0, None, f)
         else (let (v, log) = ioread32 hw addr (c_log f) in (4, Some v, f\<lparr>c_log := log\<rparr>)))"

definition axi_csr_write :: "axi_csr_file \<Rightarrow> u32 \<Rightarrow> int \<times> axi_csr_file" where
  "axi_csr_write f uiValue =
     (let dev = c_dev f;
          f_pos = ucast (c_f_pos f) :: u32;
          addr = c_dev_virtaddr dev + 4 * f_pos
      in if c_dev_addrsize dev \<le> f_pos then (0, f)
         else (4, f\<lparr>c_log := iowrite32 uiValue addr (c_log f)\<rparr>))"

definition axi_csr_lseek :: "axi_csr_file \<Rightarrow> u64 \<Rightarrow> int \<Rightarrow> u64 \<times> axi_csr_file" where
  "axi_csr_lseek f off whence =
     (if whence \<notin> {0, 1, 2} then (- EINVAL, f)
      else
        let newpos = (if whence = 0 then off
                      else if whence = 1 then c_f_pos f + off
                      else ucast (c_dev_addrsize (c_dev f)) - off)
        in if sint newpos < 0 then (- EINVAL, f)
           else (newpos, f\<lparr>c_f_pos := newpos\<rparr>))"

definition axi_csr_fops :: "hardware \<Rightarrow> axi_csr_file file_operations" where
  "axi_csr_fops hw =
     \<lparr>fop_read = axi_csr_read hw, fop_write = axi_csr_write, fop_llseek = axi_csr_lseek\<rparr>"

section \<open>Module entry and exit\<close>

text \<open>
  \<open>register_chrdev\<close> answers the requested major number with the assigned one, or a negative
  error. \<open>ret\<close> is the uninitialised local the failure branch returns. The result pairs the return
  value with the new \<^verbatim>\<open>axi_csr_major\<close>.
\<close>

definition axi_csr_int :: "(int \<Rightarrow> int) \<Rightarrow> int \<Rightarrow> int \<Rightarrow> int \<times> int" where
  "axi_csr_int register_chrdev ret axi_csr_major =
     (let major = register_chrdev axi_csr_major in
      if major < 0 then (ret, major) else (0, major))"

section \<open>The driver meets the contract\<close>

text \<open>
  A file is ready once \<^verbatim>\<open>axi_csr_open\<close> has set the size of the window. Register \<open>r\<close> lives at
  \<open>axi_csr_addr\<close>; it is stable when the hardware treats that word as storage.
\<close>

definition axi_csr_ready :: "axi_csr_file \<Rightarrow> bool" where
  "axi_csr_ready f \<longleftrightarrow> c_dev_addrsize (c_dev f) = AXI_CSR_PHY_SIZE"

definition axi_csr_addr :: "axi_csr_file \<Rightarrow> u32 \<Rightarrow> u32" where
  "axi_csr_addr f r = c_dev_virtaddr (c_dev f) + 4 * r"

definition axi_csr_peek :: "hardware \<Rightarrow> axi_csr_file \<Rightarrow> u32 \<Rightarrow> u32" where
  "axi_csr_peek hw f r = hw (c_log f) (axi_csr_addr f r)"

definition axi_csr_stable :: "hardware \<Rightarrow> axi_csr_file \<Rightarrow> u32 \<Rightarrow> bool" where
  "axi_csr_stable hw f r \<longleftrightarrow> storage_at hw (axi_csr_addr f r)"

lemma axi_csr_open_ready: "axi_csr_open kern f = (r, f') \<Longrightarrow> r = 0 \<and> axi_csr_ready f'"
  by (auto simp: axi_csr_open_def axi_csr_ready_def Let_def)

lemmas axi_csr_io_defs =
  axi_csr_read_def axi_csr_write_def axi_csr_lseek_def axi_csr_ready_def axi_csr_addr_def
  axi_csr_peek_def axi_csr_stable_def ioread32_def iowrite32_def AXI_CSR_PHY_SIZE_def

interpretation axi: register_store "axi_csr_fops hw" axi_csr_ready c_f_pos AXI_CSR_PHY_SIZE
  "axi_csr_peek hw" "axi_csr_stable hw" for hw
proof (unfold_locales, goal_cases)
  case (1 f r p f')
  then show ?case
    by (auto simp: axi_csr_fops_def axi_csr_io_defs Let_def fun_eq_iff loff_of_u32 not_less split: if_splits)
next
  case (2 f r n b f')
  then show ?case by (auto simp: axi_csr_fops_def axi_csr_io_defs Let_def not_less loff_of_u32 split: if_splits)
next
  case (3 f r)
  then show ?case by (auto simp: axi_csr_fops_def axi_csr_io_defs Let_def not_less loff_of_u32)
next
  case (4 f r v n f')
  then show ?case by (auto simp: axi_csr_fops_def axi_csr_io_defs Let_def not_less loff_of_u32 split: if_splits)
next
  case (5 f r v)
  then show ?case by (auto simp: axi_csr_fops_def axi_csr_io_defs Let_def not_less loff_of_u32)
next
  case (6 f off w p f' s)
  then show ?case by (auto simp: axi_csr_fops_def axi_csr_io_defs Let_def split: if_splits)
next
  case (7 f n b f' s)
  then show ?case by (auto simp: axi_csr_fops_def axi_csr_io_defs Let_def split: if_splits)
next
  case (8 f v n f' s)
  then show ?case by (auto simp: axi_csr_fops_def axi_csr_io_defs Let_def split: if_splits)
next
  case (9 f n b f' s)
  then show ?case
    by (auto simp: axi_csr_fops_def axi_csr_io_defs Let_def storage_at_def loff_of_u32 split: if_splits)
next
  case (10 f r v n f')
  then show ?case
    by (auto simp: axi_csr_fops_def axi_csr_io_defs Let_def storage_at_def loff_of_u32 split: if_splits)
next
  case (11 f r v n f' s)
  then have "axi_csr_addr f s \<noteq> axi_csr_addr f r"
    using word4_inj [of s r] by (auto simp: axi_csr_addr_def AXI_CSR_PHY_SIZE_def word_less_nat_alt)
  with 11 show ?case
    by (auto simp: axi_csr_fops_def axi_csr_io_defs Let_def storage_at_def loff_of_u32 split: if_splits)
qed

end
