(* ===== verification/Bram.thy ===== *)
theory Bram
  imports FileOps
begin

text \<open>
  \<^verbatim>\<open>driver/bram/bram.c\<close>: the character device \<^verbatim>\<open>/dev/bram0\<close> that exposes the 80 words of
  block RAM the code sequence is written to. The file is a copy of \<^verbatim>\<open>axi_csr.c\<close> with other
  names, address and size. A state is an open file together with the device
  structure its \<^verbatim>\<open>private_data\<close> points to and the history of device events.
\<close>

section \<open>State\<close>

record bram_dev =
  b_dev_physaddr :: u32
  b_dev_virtaddr :: u32
  b_dev_addrsize :: u32
  b_writers :: u32
  b_bytes_written :: u32
  b_writes :: u32
  b_opens :: u32
  b_closes :: u32
  b_errors :: u32

record bram_file =
  b_dev :: bram_dev
  b_f_pos :: u64
  b_log :: "dev_event list"

definition BRAM_PHY_ADDR :: u32 where "BRAM_PHY_ADDR = 0x80030000"
definition BRAM_PHY_SIZE :: u32 where "BRAM_PHY_SIZE = 80"

section \<open>File operations\<close>

definition bram_open :: "kernel_mem \<Rightarrow> bram_file \<Rightarrow> int \<times> bram_file" where
  "bram_open kern f =
     (let retval = 0;
          dev = (b_dev f)\<lparr>b_opens := b_opens (b_dev f) + 1,
                          b_dev_addrsize := BRAM_PHY_SIZE,
                          b_dev_physaddr := BRAM_PHY_ADDR\<rparr>;
          size = b_dev_addrsize dev * 4;
          log = b_log f @ (if request_mem_region kern (b_dev_physaddr dev) size
                           then [RequestRegion (b_dev_physaddr dev) size] else []);
          virt = ioremap_nocache kern (b_dev_physaddr dev) size;
          dev = dev\<lparr>b_dev_virtaddr := virt\<rparr>
      in (retval, f\<lparr>b_dev := dev, b_log := log @ [Ioremap (b_dev_physaddr dev) size virt]\<rparr>))"

definition bram_release :: "bram_file \<Rightarrow> int \<times> bram_file" where
  "bram_release f =
     (let dev = b_dev f in
      (0, f\<lparr>b_log := b_log f @ [Iounmap (b_dev_virtaddr dev),
                               ReleaseRegion (b_dev_physaddr dev) (b_dev_addrsize dev * 4)]\<rparr>))"

definition bram_ioctl :: "bram_file \<Rightarrow> u32 \<Rightarrow> u32 \<Rightarrow> int" where
  "bram_ioctl f cmd arg = 0"

text \<open>\<^verbatim>\<open>unsigned long f_pos = filp->f_pos\<close> keeps the low 32 bits of the position.\<close>

definition bram_read :: "hardware \<Rightarrow> bram_file \<Rightarrow> int \<times> u32 option \<times> bram_file" where
  "bram_read hw f =
     (let dev = b_dev f;
          f_pos = ucast (b_f_pos f) :: u32;
          addr = b_dev_virtaddr dev + 4 * f_pos
      in if b_dev_addrsize dev \<le> f_pos then (0, None, f)
         else (let (v, log) = ioread32 hw addr (b_log f) in (4, Some v, f\<lparr>b_log := log\<rparr>)))"

definition bram_write :: "bram_file \<Rightarrow> u32 \<Rightarrow> int \<times> bram_file" where
  "bram_write f uiValue =
     (let dev = b_dev f;
          f_pos = ucast (b_f_pos f) :: u32;
          addr = b_dev_virtaddr dev + 4 * f_pos
      in if b_dev_addrsize dev \<le> f_pos then (0, f)
         else (4, f\<lparr>b_log := iowrite32 uiValue addr (b_log f)\<rparr>))"

definition bram_lseek :: "bram_file \<Rightarrow> u64 \<Rightarrow> int \<Rightarrow> u64 \<times> bram_file" where
  "bram_lseek f off whence =
     (if whence \<notin> {0, 1, 2} then (- EINVAL, f)
      else
        let newpos = (if whence = 0 then off
                      else if whence = 1 then b_f_pos f + off
                      else ucast (b_dev_addrsize (b_dev f)) - off)
        in if sint newpos < 0 then (- EINVAL, f)
           else (newpos, f\<lparr>b_f_pos := newpos\<rparr>))"

definition bram_fops :: "hardware \<Rightarrow> bram_file file_operations" where
  "bram_fops hw =
     \<lparr>fop_read = bram_read hw, fop_write = bram_write, fop_llseek = bram_lseek\<rparr>"

section \<open>Module entry and exit\<close>

text \<open>
  \<open>register_chrdev\<close> answers the requested major number with the assigned one, or a negative
  error. \<open>ret\<close> is the uninitialised local the failure branch returns. The result pairs the return
  value with the new \<^verbatim>\<open>bram_major\<close>.
\<close>

definition bram_int :: "(int \<Rightarrow> int) \<Rightarrow> int \<Rightarrow> int \<Rightarrow> int \<times> int" where
  "bram_int register_chrdev ret bram_major =
     (let major = register_chrdev bram_major in
      if major < 0 then (ret, major) else (0, major))"

section \<open>The driver meets the contract\<close>

text \<open>
  A file is ready once \<^verbatim>\<open>bram_open\<close> has set the size of the window. Register \<open>r\<close> lives at
  \<open>bram_addr\<close>; it is stable when the hardware treats that word as storage.
\<close>

definition bram_ready :: "bram_file \<Rightarrow> bool" where
  "bram_ready f \<longleftrightarrow> b_dev_addrsize (b_dev f) = BRAM_PHY_SIZE"

definition bram_addr :: "bram_file \<Rightarrow> u32 \<Rightarrow> u32" where
  "bram_addr f r = b_dev_virtaddr (b_dev f) + 4 * r"

definition bram_peek :: "hardware \<Rightarrow> bram_file \<Rightarrow> u32 \<Rightarrow> u32" where
  "bram_peek hw f r = hw (b_log f) (bram_addr f r)"

definition bram_stable :: "hardware \<Rightarrow> bram_file \<Rightarrow> u32 \<Rightarrow> bool" where
  "bram_stable hw f r \<longleftrightarrow> storage_at hw (bram_addr f r)"

lemma bram_open_ready: "bram_open kern f = (r, f') \<Longrightarrow> r = 0 \<and> bram_ready f'"
  by (auto simp: bram_open_def bram_ready_def Let_def)

lemmas bram_io_defs =
  bram_read_def bram_write_def bram_lseek_def bram_ready_def bram_addr_def
  bram_peek_def bram_stable_def ioread32_def iowrite32_def BRAM_PHY_SIZE_def

interpretation bramdev: register_store "bram_fops hw" bram_ready b_f_pos BRAM_PHY_SIZE
  "bram_peek hw" "bram_stable hw" for hw
proof (unfold_locales, goal_cases)
  case (1 f r p f')
  then show ?case
    by (auto simp: bram_fops_def bram_io_defs Let_def fun_eq_iff loff_of_u32 not_less split: if_splits)
next
  case (2 f r n b f')
  then show ?case by (auto simp: bram_fops_def bram_io_defs Let_def not_less loff_of_u32 split: if_splits)
next
  case (3 f r)
  then show ?case by (auto simp: bram_fops_def bram_io_defs Let_def not_less loff_of_u32)
next
  case (4 f r v n f')
  then show ?case by (auto simp: bram_fops_def bram_io_defs Let_def not_less loff_of_u32 split: if_splits)
next
  case (5 f r v)
  then show ?case by (auto simp: bram_fops_def bram_io_defs Let_def not_less loff_of_u32)
next
  case (6 f off w p f' s)
  then show ?case by (auto simp: bram_fops_def bram_io_defs Let_def split: if_splits)
next
  case (7 f n b f' s)
  then show ?case by (auto simp: bram_fops_def bram_io_defs Let_def split: if_splits)
next
  case (8 f v n f' s)
  then show ?case by (auto simp: bram_fops_def bram_io_defs Let_def split: if_splits)
next
  case (9 f n b f' s)
  then show ?case
    by (auto simp: bram_fops_def bram_io_defs Let_def storage_at_def loff_of_u32 split: if_splits)
next
  case (10 f r v n f')
  then show ?case
    by (auto simp: bram_fops_def bram_io_defs Let_def storage_at_def loff_of_u32 split: if_splits)
next
  case (11 f r v n f' s)
  then have "bram_addr f s \<noteq> bram_addr f r"
    using word4_inj [of s r] by (auto simp: bram_addr_def BRAM_PHY_SIZE_def word_less_nat_alt)
  with 11 show ?case
    by (auto simp: bram_fops_def bram_io_defs Let_def storage_at_def loff_of_u32 split: if_splits)
qed

end
