(* ===== verification/Csr.thy ===== *)
theory Csr
  imports AxiCsr
begin

text \<open>
  \<^verbatim>\<open>application/csr.h\<close> and \<^verbatim>\<open>application/csr.c\<close>: the labels that name bit fields of the control
  registers, and reading and writing a field through a register device. The functions take the
  operations table of the device behind the file descriptor.
\<close>

section \<open>Labels\<close>

text \<open>A label packs register number, first bit and number of bits.\<close>

definition REG_OFFSET :: "u32 \<Rightarrow> u32" where
  "REG_OFFSET uiLabel = drop_bit 24 uiLabel"

definition REG_SHIFT :: "u32 \<Rightarrow> u32" where
  "REG_SHIFT uiLabel = drop_bit 8 (uiLabel AND 0x0000FF00)"

definition REG_BITNUM :: "u32 \<Rightarrow> u32" where
  "REG_BITNUM uiLabel = uiLabel AND 0x000000FF"

definition CSR_C_TO_IO_BUSY :: u32 where "CSR_C_TO_IO_BUSY = 0x00001F01"
definition CSR_C_TO_IO_STOP :: u32 where "CSR_C_TO_IO_STOP = 0x00001E01"
definition CSR_C_TO_IO_CTS :: u32 where "CSR_C_TO_IO_CTS = 0x00001D01"
definition CSR_C_TO_IO_RTS :: u32 where "CSR_C_TO_IO_RTS = 0x00001C01"
definition CSR_C_TO_IO_CMD :: u32 where "CSR_C_TO_IO_CMD = 0x00000010"
definition CSR_IO_TO_C_BUSY :: u32 where "CSR_IO_TO_C_BUSY = 0x01001F01"
definition CSR_IO_TO_C_STOP :: u32 where "CSR_IO_TO_C_STOP = 0x01001E01"
definition CSR_IO_TO_C_CTS :: u32 where "CSR_IO_TO_C_CTS = 0x01001D01"
definition CSR_IO_TO_C_RTS :: u32 where "CSR_IO_TO_C_RTS = 0x01001C01"
definition CSR_IO_TO_C_D :: u32 where "CSR_IO_TO_C_D = 0x01000010"
definition CSR_TRANS_EN :: u32 where "CSR_TRANS_EN = 0x02000D01"
definition CSR_REC_EN :: u32 where "CSR_REC_EN = 0x02000C01"
definition CSR_SYNC_MODE :: u32 where "CSR_SYNC_MODE = 0x02000B01"
definition CSR_MODE :: u32 where "CSR_MODE = 0x02000A01"
definition CSR_FLT_SEL :: u32 where "CSR_FLT_SEL = 0x02000802"
definition CSR_FLL_SCALE_SET :: u32 where "CSR_FLL_SCALE_SET = 0x02000206"
definition CSR_INPUT_SEL :: u32 where "CSR_INPUT_SEL = 0x02000002"
definition CSR_CODE_LENGTH :: u32 where "CSR_CODE_LENGTH = 0x03000020"
definition CSR_SAMPLES_LENGTH :: u32 where "CSR_SAMPLES_LENGTH = 0x04000020"
definition CSR_CODE_CLK_CYCLES :: u32 where "CSR_CODE_CLK_CYCLES = 0x05000020"
definition CSR_T_START :: u32 where "CSR_T_START = 0x06001F01"
definition CSR_T_DELTA :: u32 where "CSR_T_DELTA = 0x0600100F"
definition CSR_T_ACQ :: u32 where "CSR_T_ACQ = 0x06000010"
definition CSR_PROG_FULL :: u32 where "CSR_PROG_FULL = 0x0A000001"
definition CSR_PPS1 :: u32 where "CSR_PPS1 = 0x0B000001"

lemmas csr_label_defs =
  CSR_C_TO_IO_BUSY_def CSR_C_TO_IO_STOP_def CSR_C_TO_IO_CTS_def CSR_C_TO_IO_RTS_def
  CSR_C_TO_IO_CMD_def CSR_IO_TO_C_BUSY_def CSR_IO_TO_C_STOP_def CSR_IO_TO_C_CTS_def
  CSR_IO_TO_C_RTS_def CSR_IO_TO_C_D_def CSR_TRANS_EN_def CSR_REC_EN_def CSR_SYNC_MODE_def
  CSR_MODE_def CSR_FLT_SEL_def CSR_FLL_SCALE_SET_def CSR_INPUT_SEL_def CSR_CODE_LENGTH_def
  CSR_SAMPLES_LENGTH_def CSR_CODE_CLK_CYCLES_def CSR_T_START_def CSR_T_DELTA_def CSR_T_ACQ_def
  CSR_PROG_FULL_def CSR_PPS1_def

definition csr_labels :: "u32 list" where
  "csr_labels =
     [CSR_C_TO_IO_BUSY, CSR_C_TO_IO_STOP, CSR_C_TO_IO_CTS, CSR_C_TO_IO_RTS, CSR_C_TO_IO_CMD,
      CSR_IO_TO_C_BUSY, CSR_IO_TO_C_STOP, CSR_IO_TO_C_CTS, CSR_IO_TO_C_RTS, CSR_IO_TO_C_D,
      CSR_TRANS_EN, CSR_REC_EN, CSR_SYNC_MODE, CSR_MODE, CSR_FLT_SEL, CSR_FLL_SCALE_SET,
      CSR_INPUT_SEL, CSR_CODE_LENGTH, CSR_SAMPLES_LENGTH, CSR_CODE_CLK_CYCLES,
      CSR_T_START, CSR_T_DELTA, CSR_T_ACQ, CSR_PROG_FULL, CSR_PPS1]"

section \<open>Register access\<close>

text \<open>
  \<^verbatim>\<open>1 << (ucShift + i)\<close> is a shift by a register, which the ARM makes 0 for the amounts 32 to 255.
  \<open>label_ok\<close> labels, and those of \<^verbatim>\<open>csr.h\<close> all are, never get there.
\<close>

definition GetRegMask :: "u32 \<Rightarrow> u32" where
  "GetRegMask uiLabel =
     (let ucBitNum = ucast (REG_BITNUM uiLabel) :: u8;
          ucShift = ucast (REG_SHIFT uiLabel) :: u8
      in for_word 0 ucBitNum (\<lambda>i uiMask. uiMask OR push_bit (unat ucShift + unat i) 1) 0)"

definition label_ok :: "u32 \<Rightarrow> bool" where
  "label_ok l \<longleftrightarrow> unat (REG_SHIFT l) + unat (REG_BITNUM l) \<le> 32"

definition RegRead :: "'f file_operations \<Rightarrow> 'f \<Rightarrow> u32 \<Rightarrow> u32 \<times> 'f" where
  "RegRead fops fd uiLabel =
     (let uiRead = 0;
          ucOffset = ucast (REG_OFFSET uiLabel) :: u8;
          ucShift = ucast (REG_SHIFT uiLabel) :: u8;
          uiMask = GetRegMask uiLabel;
          (_, fd) = fop_llseek fops fd (ucast ucOffset) 0;
          (iRet, buf, fd) = fop_read fops fd;
          uiRead = (case buf of None \<Rightarrow> uiRead | Some v \<Rightarrow> v);
          uiRegValue = drop_bit (unat ucShift) (uiRead AND uiMask)
      in (uiRegValue, fd))"

definition RegWrite :: "'f file_operations \<Rightarrow> 'f \<Rightarrow> u32 \<Rightarrow> u32 \<Rightarrow> int \<times> 'f" where
  "RegWrite fops fd uiLabel uiValue =
     (let uiRead = 0;
          ucOffset = ucast (REG_OFFSET uiLabel) :: u8;
          ucShift = ucast (REG_SHIFT uiLabel) :: u8;
          uiMask = GetRegMask uiLabel;
          (_, fd) = fop_llseek fops fd (ucast ucOffset) 0;
          (iRet, buf, fd) = fop_read fops fd;
          uiRead = (case buf of None \<Rightarrow> uiRead | Some v \<Rightarrow> v);
          uiWrite = (uiRead AND NOT uiMask) OR (push_bit (unat ucShift) uiValue AND uiMask);
          (iRet, fd) = fop_write fops fd uiWrite
      in (iRet, fd))"

section \<open>Masks and fields\<close>

lemma and_255_less: "w AND 255 < 256" for w :: u32
  by (rule le_less_trans [OF word_and_le1]) simp

lemma REG_fields_small: "REG_OFFSET l < 256" "REG_SHIFT l < 256" "REG_BITNUM l < 256"
proof -
  have "\<not> bit (REG_OFFSET l) j" if "8 \<le> j" for j
    using that by (auto simp: REG_OFFSET_def bit_drop_bit_eq dest: bit_imp_le_length)
  then show "REG_OFFSET l < 256" using below_exp_bits [of 8 "REG_OFFSET l"] by auto
  have "REG_SHIFT l = drop_bit 8 l AND 255" by (simp add: REG_SHIFT_def)
  then show "REG_SHIFT l < 256" by (simp add: and_255_less)
  show "REG_BITNUM l < 256" by (simp add: REG_BITNUM_def and_255_less)
qed

lemma u8_of_small: "w < 256 \<Longrightarrow> unat (ucast w :: u8) = unat w" for w :: u32
  by (simp add: word_less_nat_alt unsigned_ucast_eq take_bit_nat_eq_self)

lemma bit_fold_or:
  "bit (fold (\<lambda>i m. m OR push_bit (s + i) 1) [0..<n] (w :: u32)) k
     \<longleftrightarrow> bit w k \<or> (k < 32 \<and> s \<le> k \<and> k < s + n)"
  by (induction n) (auto simp: bit_or_iff bit_push_bit_iff bit_exp_iff)

lemma bit_GetRegMask:
  "bit (GetRegMask l) k \<longleftrightarrow>
     k < 32 \<and> unat (REG_SHIFT l) \<le> k \<and> k < unat (REG_SHIFT l) + unat (REG_BITNUM l)"
proof -
  have n: "unat (ucast (REG_BITNUM l) :: u8) = unat (REG_BITNUM l)"
    and s: "unat (ucast (REG_SHIFT l) :: u8) = unat (REG_SHIFT l)"
    by (simp_all add: u8_of_small REG_fields_small)
  have "GetRegMask l = fold (\<lambda>i m. m OR push_bit (unat (REG_SHIFT l) + i) 1) [0..<unat (REG_BITNUM l)] 0"
    unfolding GetRegMask_def Let_def for_word_0 n s
    by (rule fold_cong) (auto simp: unat_of_nat_below [of _ "ucast (REG_BITNUM l) :: u8"] n)
  then show ?thesis by (simp only: bit_fold_or) simp
qed

lemma shift_u8: "unat (ucast (REG_SHIFT l) :: u8) = unat (REG_SHIFT l)"
  by (simp add: u8_of_small REG_fields_small)

lemma offset_u8: "ucast (ucast (REG_OFFSET l) :: u8) = (ucast (REG_OFFSET l) :: u64)"
proof (rule bit_word_eqI)
  fix k
  have "bit (REG_OFFSET l) k \<longrightarrow> k < 8"
    using REG_fields_small(1) [of l] below_exp_bits [of 8 "REG_OFFSET l"] by (cases "k < 8") auto
  then show "bit (ucast (ucast (REG_OFFSET l) :: u8) :: u64) k = bit (ucast (REG_OFFSET l) :: u64) k"
    by (auto simp: bit_ucast_iff not_less)
qed

text \<open>What a label selects of a register, and a register with a field replaced.\<close>

definition reg_field :: "u32 \<Rightarrow> u32 \<Rightarrow> u32" where
  "reg_field l w = drop_bit (unat (REG_SHIFT l)) (w AND GetRegMask l)"

definition reg_put :: "u32 \<Rightarrow> u32 \<Rightarrow> u32 \<Rightarrow> u32" where
  "reg_put l v w = (w AND NOT (GetRegMask l)) OR (push_bit (unat (REG_SHIFT l)) v AND GetRegMask l)"

lemma reg_field_put: "label_ok l \<Longrightarrow> reg_field l (reg_put l v w) = take_bit (unat (REG_BITNUM l)) v"
  unfolding label_ok_def
  by (rule bit_word_eqI)
     (auto simp: reg_field_def reg_put_def bit_drop_bit_eq bit_and_iff bit_or_iff bit_not_iff
       bit_push_bit_iff bit_GetRegMask bit_take_bit_iff dest: bit_imp_le_length)

lemma reg_field_put_other:
  assumes "GetRegMask l AND GetRegMask l' = 0"
  shows "reg_field l (reg_put l' v w) = reg_field l w"
proof -
  have "bit (GetRegMask l) k \<Longrightarrow> \<not> bit (GetRegMask l') k" for k
    using assms by (metis bit_0_eq bit_and_iff bot_apply bot_bool_def)
  then have "reg_put l' v w AND GetRegMask l = w AND GetRegMask l"
    by (intro bit_word_eqI) (auto simp: reg_put_def bit_and_iff bit_or_iff bit_not_iff)
  then show ?thesis by (simp add: reg_field_def)
qed

section \<open>Register access through a device\<close>

context word_device
begin

lemma RegRead_inside:
  assumes "ready f" "REG_OFFSET l < nregs" "RegRead fops f l = (v, f')"
  shows "v = reg_field l (peek f (REG_OFFSET l)) \<and> ready f'"
proof -
  obtain p f1 where s: "fop_llseek fops f (ucast (REG_OFFSET l)) 0 = (p, f1)" by fastforce
  obtain n b f2 where r: "fop_read fops f1 = (n, b, f2)" by (metis prod_cases3)
  note s' = seek_set [OF assms(1) s]
  note r' = read_inside [of f1 "REG_OFFSET l" n b f2] 
  show ?thesis
    using assms(2,3) s r s' r'
    by (auto simp: RegRead_def Let_def offset_u8 shift_u8 reg_field_def)
qed

lemma RegRead_outside:
  assumes "ready f" "\<not> REG_OFFSET l < nregs" "RegRead fops f l = (v, f')"
  shows "v = 0 \<and> ready f'"
proof -
  obtain p f1 where s: "fop_llseek fops f (ucast (REG_OFFSET l)) 0 = (p, f1)" by fastforce
  note s' = seek_set [OF assms(1) s]
  show ?thesis
    using assms(2,3) s s' read_outside [of f1 "REG_OFFSET l"]
    by (auto simp: RegRead_def Let_def offset_u8 shift_u8)
qed

text \<open>
  \<^verbatim>\<open>RegWrite\<close> seeks once: the write lands on the register that was read because reading does not
  move the position.
\<close>

lemma RegWrite_steps:
  assumes "ready f" "REG_OFFSET l < nregs" "RegWrite fops f l v = (n, f')"
  obtains p f1 f2 where
    "fop_llseek fops f (ucast (REG_OFFSET l)) 0 = (p, f1)" "ready f1" "pos f1 = ucast (REG_OFFSET l)"
    "peek f1 = peek f" "fop_read fops f1 = (4, Some (peek f (REG_OFFSET l)), f2)" "ready f2"
    "pos f2 = ucast (REG_OFFSET l)"
    "fop_write fops f2 (reg_put l v (peek f (REG_OFFSET l))) = (n, f')" "n = 4" "ready f'"
proof -
  obtain p f1 where s: "fop_llseek fops f (ucast (REG_OFFSET l)) 0 = (p, f1)" by fastforce
  note s' = seek_set [OF assms(1) s]
  obtain m b f2 where r: "fop_read fops f1 = (m, b, f2)" by (metis prod_cases3)
  with s' have r': "m = 4" "b = Some (peek f (REG_OFFSET l))" "ready f2" "pos f2 = ucast (REG_OFFSET l)"
    using read_inside [of f1 "REG_OFFSET l" m b f2] assms(2) by auto
  have w: "fop_write fops f2 (reg_put l v (peek f (REG_OFFSET l))) = (n, f')"
    using assms(3) s r r' by (auto simp: RegWrite_def Let_def offset_u8 shift_u8 reg_put_def split: prod.splits)
  show thesis
    by (rule that [OF s _ _ _ _ r'(3,4) w]) (use s' r r' write_inside [OF r'(3,4) assms(2) w] in auto)
qed

lemma RegWrite_outside:
  assumes "ready f" "\<not> REG_OFFSET l < nregs" "RegWrite fops f l v = (n, f')"
  shows "n = 0 \<and> ready f' \<and> peek f' = peek f"
proof -
  obtain p f1 where s: "fop_llseek fops f (ucast (REG_OFFSET l)) 0 = (p, f1)" by fastforce
  note s' = seek_set [OF assms(1) s]
  show ?thesis
    using assms(2,3) s s' read_outside [of f1 "REG_OFFSET l"] write_outside [of f1 "REG_OFFSET l"]
    by (auto simp: RegWrite_def Let_def offset_u8 shift_u8)
qed

end

context register_store
begin

lemma RegWrite_store:
  assumes "ready f" "REG_OFFSET l < nregs" "stable f (REG_OFFSET l)" "RegWrite fops f l v = (n, f')"
  shows "n = 4 \<and> ready f' \<and> peek f' (REG_OFFSET l) = reg_put l v (peek f (REG_OFFSET l))
    \<and> (\<forall>s. stable f' s = stable f s)
    \<and> (\<forall>s. s < nregs \<longrightarrow> s \<noteq> REG_OFFSET l \<longrightarrow> stable f s \<longrightarrow> peek f' s = peek f s)"
proof -
  obtain p f1 f2 where st:
    "fop_llseek fops f (ucast (REG_OFFSET l)) 0 = (p, f1)" "ready f1" "pos f1 = ucast (REG_OFFSET l)"
    "peek f1 = peek f" "fop_read fops f1 = (4, Some (peek f (REG_OFFSET l)), f2)" "ready f2"
    "pos f2 = ucast (REG_OFFSET l)"
    "fop_write fops f2 (reg_put l v (peek f (REG_OFFSET l))) = (n, f')" "n = 4" "ready f'"
    by (rule RegWrite_steps [OF assms(1,2,4)])
  have stable: "stable f1 s = stable f s" "stable f2 s = stable f s" "stable f' s = stable f s" for s
    using stable_seek [OF st(1)] stable_read [OF st(5)] stable_write [OF st(8)] by auto
  have kept: "peek f2 s = peek f s" if "stable f s" for s
    using read_keeps [OF st(5)] stable that st(4) by simp
  show ?thesis
    using st(9,10) stable kept write_stores [OF st(6,7) assms(2) st(8)] assms(3)
      write_keeps [OF st(6,7) assms(2) st(8)] by auto
qed

lemma RegRead_after_RegWrite:
  assumes "ready f" "REG_OFFSET l < nregs" "stable f (REG_OFFSET l)" "label_ok l"
    "RegWrite fops f l v = (n, f')"
  shows "fst (RegRead fops f' l) = take_bit (unat (REG_BITNUM l)) v"
proof -
  obtain x f'' where r: "RegRead fops f' l = (x, f'')" by fastforce
  from RegWrite_store [OF assms(1-3,5)] RegRead_inside [OF _ assms(2) r] r
  show ?thesis by (simp add: reg_field_put [OF assms(4)])
qed

lemma RegRead_other_after_RegWrite:
  assumes "ready f" "REG_OFFSET l < nregs" "REG_OFFSET l' < nregs" "stable f (REG_OFFSET l)"
    "stable f (REG_OFFSET l')" "REG_OFFSET l = REG_OFFSET l' \<Longrightarrow> GetRegMask l AND GetRegMask l' = 0"
    "RegWrite fops f l' v = (n, f')"
  shows "fst (RegRead fops f' l) = fst (RegRead fops f l)"
proof -
  obtain x g where r: "RegRead fops f l = (x, g)" by fastforce
  obtain y h where r': "RegRead fops f' l = (y, h)" by fastforce
  note w = RegWrite_store [OF assms(1,3,5,7)]
  have "reg_field l (peek f' (REG_OFFSET l)) = reg_field l (peek f (REG_OFFSET l))"
  proof (cases "REG_OFFSET l = REG_OFFSET l'")
    case True
    with w assms(6) show ?thesis by (simp add: reg_field_put_other)
  next
    case False
    with w assms(2,4) show ?thesis by simp
  qed
  with RegRead_inside [OF assms(1,2) r] RegRead_inside [OF _ assms(2) r'] w r r'
  show ?thesis by simp
qed

end

section \<open>The labels of \<^verbatim>\<open>csr.h\<close>\<close>

definition fields_apart :: "u32 \<Rightarrow> u32 \<Rightarrow> bool" where
  "fields_apart l l' \<longleftrightarrow> REG_OFFSET l \<noteq> REG_OFFSET l'
     \<or> unat (REG_SHIFT l) + unat (REG_BITNUM l) \<le> unat (REG_SHIFT l')
     \<or> unat (REG_SHIFT l') + unat (REG_BITNUM l') \<le> unat (REG_SHIFT l)"

lemma fields_apart_masks:
  "fields_apart l l' \<Longrightarrow> REG_OFFSET l = REG_OFFSET l' \<Longrightarrow> GetRegMask l AND GetRegMask l' = 0"
  by (rule bit_word_eqI) (auto simp: fields_apart_def bit_and_iff bit_GetRegMask)

lemma fields_apart_sym: "fields_apart l l' \<Longrightarrow> fields_apart l' l"
  by (auto simp: fields_apart_def)

lemma csr_labels_apart: "sorted_wrt fields_apart csr_labels"
  by (simp add: csr_labels_def csr_label_defs fields_apart_def REG_OFFSET_def REG_SHIFT_def REG_BITNUM_def)

lemma csr_labels_fit: "\<forall>l \<in> set csr_labels. label_ok l \<and> REG_OFFSET l < AXI_CSR_PHY_SIZE"
  by (simp add: csr_labels_def csr_label_defs label_ok_def REG_OFFSET_def REG_SHIFT_def
      REG_BITNUM_def AXI_CSR_PHY_SIZE_def)

lemma csr_labels_pairwise:
  "\<lbrakk>l \<in> set csr_labels; l' \<in> set csr_labels; l \<noteq> l'\<rbrakk> \<Longrightarrow> fields_apart l l'"
  using csr_labels_apart unfolding sorted_wrt_iff_nth_less
  by (metis fields_apart_sym in_set_conv_nth linorder_neqE_nat)

section \<open>Properties\<close>

text \<open>A freshly opened device with storage registers, for the witnesses.\<close>

definition sample_csr :: axi_csr_file where
  "sample_csr = \<lparr>c_dev = \<lparr>c_dev_physaddr = 0x67200000, c_dev_virtaddr = 0xF0000000,
     c_dev_addrsize = 14, c_writers = 0, c_bytes_written = 0, c_writes = 0, c_opens = 1,
     c_closes = 0, c_errors = 0\<rparr>, c_f_pos = 0, c_log = []\<rparr>"

lemma sample_csr_ready: "axi_csr_ready sample_csr"
  by (simp add: sample_csr_def axi_csr_ready_def AXI_CSR_PHY_SIZE_def)

text \<open>
  The labels of \<^verbatim>\<open>csr.h\<close> are well formed: every field lies inside a 32-bit register of the
  device window, and two different labels never select a common bit.
\<close>

theorem csr_labels_disjoint:
  assumes "l \<in> set csr_labels" "l' \<in> set csr_labels" "l \<noteq> l'"
  shows "label_ok l \<and> REG_OFFSET l < AXI_CSR_PHY_SIZE
    \<and> (REG_OFFSET l \<noteq> REG_OFFSET l' \<or> GetRegMask l AND GetRegMask l' = 0)"
  using csr_labels_fit csr_labels_pairwise [OF assms] assms(1) fields_apart_masks by blast

theorem csr_labels_disjoint_witness:
  "CSR_T_DELTA \<in> set csr_labels \<and> CSR_T_ACQ \<in> set csr_labels \<and> CSR_T_DELTA \<noteq> CSR_T_ACQ
    \<and> label_ok CSR_T_DELTA"
proof -
  have m: "CSR_T_DELTA \<in> set csr_labels" "CSR_T_ACQ \<in> set csr_labels"
    by (simp_all add: csr_labels_def)
  have d: "CSR_T_DELTA \<noteq> CSR_T_ACQ" by (simp add: csr_label_defs)
  from m d csr_labels_disjoint [OF m d] show ?thesis by blast
qed

text \<open>
  C18. A field written with \<^verbatim>\<open>RegWrite\<close> to a register that is storage reads back with \<^verbatim>\<open>RegRead\<close>
  as the written value cut to the width of the field.
\<close>

theorem RegWrite_reads_back:
  assumes "l \<in> set csr_labels" "axi_csr_ready f" "storage_at hw (axi_csr_addr f (REG_OFFSET l))"
  shows "fst (RegWrite (axi_csr_fops hw) f l v) = 4
    \<and> fst (RegRead (axi_csr_fops hw) (snd (RegWrite (axi_csr_fops hw) f l v)) l)
        = take_bit (unat (REG_BITNUM l)) v"
proof -
  obtain n f' where w: "RegWrite (axi_csr_fops hw) f l v = (n, f')" by fastforce
  have l: "label_ok l" "REG_OFFSET l < AXI_CSR_PHY_SIZE" using csr_labels_fit assms(1) by auto
  have s: "axi_csr_stable hw f (REG_OFFSET l)" using assms(3) by (simp add: axi_csr_stable_def)
  from axi.RegWrite_store [OF assms(2) l(2) s w] axi.RegRead_after_RegWrite [OF assms(2) l(2) s l(1) w]
  show ?thesis by (simp add: w)
qed

theorem RegWrite_reads_back_witness:
  "fst (RegRead (axi_csr_fops (bank_hw (\<lambda>_. 0)))
     (snd (RegWrite (axi_csr_fops (bank_hw (\<lambda>_. 0))) sample_csr CSR_T_DELTA 0x18003)) CSR_T_DELTA) = 3"
proof -
  have m: "CSR_T_DELTA \<in> set csr_labels" by (simp add: csr_labels_def)
  have b: "unat (REG_BITNUM CSR_T_DELTA) = 15" by (simp add: csr_label_defs REG_BITNUM_def)
  show ?thesis
    using RegWrite_reads_back [OF m sample_csr_ready storage_at_bank_hw, of "\<lambda>_. 0" "0x18003"]
    by (simp add: b)
qed

text \<open>
  C19. Writing one field leaves what every other label reads unchanged, whether it lives in the same
  register or another one.
\<close>

theorem RegWrite_keeps_other_fields:
  assumes "l \<in> set csr_labels" "l' \<in> set csr_labels" "l \<noteq> l'" "axi_csr_ready f"
    "storage_at hw (axi_csr_addr f (REG_OFFSET l))" "storage_at hw (axi_csr_addr f (REG_OFFSET l'))"
  shows "fst (RegRead (axi_csr_fops hw) (snd (RegWrite (axi_csr_fops hw) f l' v)) l)
    = fst (RegRead (axi_csr_fops hw) f l)"
proof -
  obtain n f' where w: "RegWrite (axi_csr_fops hw) f l' v = (n, f')" by fastforce
  have "REG_OFFSET l < AXI_CSR_PHY_SIZE" "REG_OFFSET l' < AXI_CSR_PHY_SIZE"
    using csr_labels_fit assms(1,2) by auto
  from axi.RegRead_other_after_RegWrite [OF assms(4) this _ _ _ w] assms(5,6)
    fields_apart_masks [OF csr_labels_pairwise [OF assms(1-3)]]
  show ?thesis by (simp add: w axi_csr_stable_def)
qed

theorem RegWrite_keeps_other_fields_witness:
  "fst (RegRead (axi_csr_fops (bank_hw (\<lambda>_. 0x80050007)))
     (snd (RegWrite (axi_csr_fops (bank_hw (\<lambda>_. 0x80050007))) sample_csr CSR_T_DELTA 9)) CSR_T_ACQ)
   = fst (RegRead (axi_csr_fops (bank_hw (\<lambda>_. 0x80050007))) sample_csr CSR_T_ACQ)"
  by (rule RegWrite_keeps_other_fields)
     (simp_all add: sample_csr_ready storage_at_bank_hw csr_labels_def csr_label_defs)

text \<open>
  On any hardware, \<^verbatim>\<open>RegWrite\<close> through an opened device makes exactly one bus read and one bus
  write, both at the register the label names, and the written word is the word read with the
  field replaced; for a register outside the window it touches nothing and returns 0.
\<close>

theorem RegWrite_bus_traffic:
  assumes "axi_csr_ready f"
  shows "let a = axi_csr_addr f (REG_OFFSET l); r = RegWrite (axi_csr_fops hw) f l v in
    if REG_OFFSET l < AXI_CSR_PHY_SIZE
    then fst r = 4 \<and> c_log (snd r) = c_log f @
      [IoRead a, IoWrite a ((hw (c_log f) a AND NOT (GetRegMask l))
                            OR (push_bit (unat (REG_SHIFT l)) v AND GetRegMask l))]
    else fst r = 0 \<and> c_log (snd r) = c_log f"
proof (cases "REG_OFFSET l < AXI_CSR_PHY_SIZE")
  case True
  obtain n f' where w: "RegWrite (axi_csr_fops hw) f l v = (n, f')" by fastforce
  then show ?thesis
    using assms True
    by (auto simp: RegWrite_def Let_def offset_u8 shift_u8 axi_csr_fops_def axi_csr_io_defs
        loff_of_u32 split: if_splits)
next
  case False
  then show ?thesis
    using assms
    by (auto simp: RegWrite_def Let_def offset_u8 shift_u8 axi_csr_fops_def axi_csr_io_defs
        loff_of_u32 split: if_splits)
qed

theorem RegWrite_bus_traffic_witness:
  "c_log (snd (RegWrite (axi_csr_fops (\<lambda>_ _. 0xFFFFFFFF)) sample_csr CSR_REC_EN 0)) =
    [IoRead 0xF0000008, IoWrite 0xF0000008 0xFFFFEFFF]"
proof -
  have m: "GetRegMask 0x02000C01 = 0x1000"
    by (simp add: GetRegMask_def REG_BITNUM_def REG_SHIFT_def for_word_0)
  show ?thesis
    using RegWrite_bus_traffic [OF sample_csr_ready, of CSR_REC_EN "\<lambda>_ _. 0xFFFFFFFF" 0]
    by (simp add: m sample_csr_def axi_csr_addr_def AXI_CSR_PHY_SIZE_def REG_OFFSET_def csr_label_defs Let_def)
qed
text \<open>
  The driver never leaves its window: whatever the file position, a read or write of an open
  file touches no register and returns 0, or touches exactly one of the 14 registers and
  returns 4.
\<close>

theorem axi_csr_stays_in_window:
  assumes "axi_csr_ready f"
  shows "(\<exists>r < AXI_CSR_PHY_SIZE. axi_csr_read hw f =
      (4, Some (axi_csr_peek hw f r), f\<lparr>c_log := c_log f @ [IoRead (axi_csr_addr f r)]\<rparr>)
      \<and> axi_csr_write f v = (4, f\<lparr>c_log := c_log f @ [IoWrite (axi_csr_addr f r) v]\<rparr>))
    \<or> (axi_csr_read hw f = (0, None, f) \<and> axi_csr_write f v = (0, f))"
proof (cases "ucast (c_f_pos f) < AXI_CSR_PHY_SIZE")
  case True
  with assms show ?thesis
    by (intro disjI1 exI [of _ "ucast (c_f_pos f)"]) (auto simp: axi_csr_io_defs Let_def)
next
  case False
  with assms show ?thesis by (auto simp: axi_csr_io_defs Let_def not_less)
qed

theorem axi_csr_stays_in_window_witness:
  "axi_csr_read (\<lambda>_ _. 7) (sample_csr\<lparr>c_f_pos := 14\<rparr>) = (0, None, sample_csr\<lparr>c_f_pos := 14\<rparr>)"
proof -
  have r: "axi_csr_ready (sample_csr\<lparr>c_f_pos := 14\<rparr>)"
    by (simp add: axi_csr_ready_def sample_csr_def AXI_CSR_PHY_SIZE_def)
  show ?thesis
    using axi_csr_stays_in_window [OF r, of "\<lambda>_ _. 7" 0]
    by (auto simp: axi_csr_read_def sample_csr_def)
qed

text \<open>
  The driver cuts the 64-bit file position to 32 bits before its bounds check: after seeking
  \<open>2 ^ 32\<close> beyond register \<open>r\<close>, a read that should be past the end returns register \<open>r\<close>.
\<close>

theorem axi_csr_position_wraps:
  assumes "axi_csr_ready f" "r < AXI_CSR_PHY_SIZE"
  shows "let (p, f') = axi_csr_lseek f (2 ^ 32 + ucast r) 0 in
    p = 2 ^ 32 + ucast r \<and> fst (snd (axi_csr_read hw f')) = Some (axi_csr_peek hw f r)"
proof -
  have r: "unat r < 14" using assms(2) by (simp add: AXI_CSR_PHY_SIZE_def word_less_nat_alt)
  have "(2 ^ 32 + ucast r :: u64) < 2 ^ 33"
    using r by (simp add: word_less_nat_alt unat_word_ariths unsigned_ucast_eq take_bit_nat_eq_self)
  then have "\<not> bit (2 ^ 32 + ucast r :: u64) 63"
    using below_exp_bits [of 33 "2 ^ 32 + ucast r :: u64"] by simp
  then have s: "\<not> sint (2 ^ 32 + ucast r :: u64) < 0"
    using bit_last_iff [of "2 ^ 32 + ucast r :: u64"] by simp
  have "unat (ucast (2 ^ 32 + ucast r :: u64) :: u32) = unat r"
    using r by (simp add: unsigned_ucast_eq unat_word_ariths take_bit_nat_eq_self take_bit_nat_def)
  then have c: "ucast (2 ^ 32 + ucast r :: u64) = r" by (simp add: word_unat_eq_iff)
  from s c assms show ?thesis
    by (auto simp: axi_csr_io_defs Let_def not_le)
qed

theorem axi_csr_position_wraps_witness:
  "fst (snd (axi_csr_read (\<lambda>_ a. a) (snd (axi_csr_lseek sample_csr 0x100000002 0)))) = Some 0xF0000008"
  using axi_csr_position_wraps [OF sample_csr_ready, of 2 "\<lambda>_ a. a"]
  by (simp add: AXI_CSR_PHY_SIZE_def axi_csr_peek_def axi_csr_addr_def sample_csr_def split_beta)

text \<open>
  All opens share one device structure: when the device is opened twice and both files are
  closed, the mapping of the second open is unmapped twice and the mapping of the first never.
\<close>

theorem axi_csr_second_open_leaks_mapping:
  assumes "v1 = ioremap_nocache k1 AXI_CSR_PHY_ADDR (AXI_CSR_PHY_SIZE * 4)"
    "v2 = ioremap_nocache k2 AXI_CSR_PHY_ADDR (AXI_CSR_PHY_SIZE * 4)" "v1 \<noteq> v2"
    "Iounmap v1 \<notin> set (c_log f)" "Iounmap v2 \<notin> set (c_log f)"
  shows "let f4 = snd (axi_csr_release (snd (axi_csr_release (snd (axi_csr_open k2 (snd (axi_csr_open k1 f)))))))
    in count_list (c_log f4) (Iounmap v1) = 0 \<and> count_list (c_log f4) (Iounmap v2) = 2"
proof -
  have none: "count_list (c_log f) (Iounmap v1) = 0" "count_list (c_log f) (Iounmap v2) = 0"
    using assms(4,5) by (simp_all add: count_list_0_iff)
  show ?thesis
    using assms(1-3) none by (simp add: axi_csr_open_def axi_csr_release_def Let_def)
qed

theorem axi_csr_second_open_leaks_mapping_witness:
  "let k = (\<lambda>v. \<lparr>request_mem_region = (\<lambda>_ _. True), ioremap_nocache = (\<lambda>_ _. v)\<rparr>);
       f4 = snd (axi_csr_release (snd (axi_csr_release (snd (axi_csr_open (k 2) (snd (axi_csr_open (k 1) sample_csr)))))))
   in count_list (c_log f4) (Iounmap 1) = 0 \<and> count_list (c_log f4) (Iounmap 2) = 2"
  using axi_csr_second_open_leaks_mapping
    [of 1 "\<lparr>request_mem_region = (\<lambda>_ _. True), ioremap_nocache = (\<lambda>_ _. 1)\<rparr>"
        2 "\<lparr>request_mem_region = (\<lambda>_ _. True), ioremap_nocache = (\<lambda>_ _. 2)\<rparr>" sample_csr]
  by (simp add: sample_csr_def)

end
