(* ===== verification/CString.thy ===== *)
theory CString
  imports ZynqPrelude
begin

text \<open>
  Character arrays and the part of the C library the parsers use. A buffer is a list of \<open>char\<close>
  (one byte each); a read outside it is a fault. A C string is the part of a buffer before the
  first NUL.
\<close>

section \<open>Buffers\<close>

definition rd :: "char list \<Rightarrow> nat \<Rightarrow> char res" where
  "rd buf i = (if i < length buf then Inr (buf ! i) else Inl OutOfBounds)"

abbreviation NUL :: char where "NUL \<equiv> CHR 0x00"

definition cstr :: "char list \<Rightarrow> char list" where
  "cstr buf = takeWhile (\<lambda>c. c \<noteq> NUL) buf"

lemma rd_Inr_iff: "rd buf i = Inr c \<longleftrightarrow> i < length buf \<and> buf ! i = c"
  by (auto simp: rd_def)

lemma rd_append1: "i < length xs \<Longrightarrow> rd (xs @ ys) i = Inr (xs ! i)"
  by (simp add: rd_def nth_append)

lemma rd_append2: "rd (xs @ ys) (length xs + i) = rd ys i"
  by (simp add: rd_def nth_append)

lemma rd_Cons_0 [simp]: "rd (c # cs) 0 = Inr c"
  by (simp add: rd_def)

lemma rd_Cons_Suc [simp]: "rd (c # cs) (Suc i) = rd cs i"
  by (simp add: rd_def)

lemma rd_drop: "rd (drop n xs) i = rd xs (n + i)"
  by (auto simp: rd_def)

lemma rd_extend: "rd p i = Inr c \<Longrightarrow> rd (p @ q) i = Inr c"
  by (simp add: rd_Inr_iff nth_append)

section \<open>Character classes and strings\<close>

definition isspace :: "char \<Rightarrow> bool" where
  "isspace c \<longleftrightarrow> c = CHR '' '' \<or> (9 \<le> (of_char c :: nat) \<and> (of_char c :: nat) \<le> 13)"

definition isdigit :: "char \<Rightarrow> bool" where
  "isdigit c \<longleftrightarrow> 48 \<le> (of_char c :: nat) \<and> (of_char c :: nat) \<le> 57"

definition digit_val :: "char \<Rightarrow> nat" where
  "digit_val c = of_char c - 48"

text \<open>\<^verbatim>\<open>strncmp(a, b, n) == 0\<close> on two strings.\<close>

fun strncmp_eq :: "char list \<Rightarrow> char list \<Rightarrow> nat \<Rightarrow> bool" where
  "strncmp_eq xs ys 0 = True"
| "strncmp_eq [] [] (Suc n) = True"
| "strncmp_eq [] (y # ys) (Suc n) = False"
| "strncmp_eq (x # xs) [] (Suc n) = False"
| "strncmp_eq (x # xs) (y # ys) (Suc n) = (x = y \<and> strncmp_eq xs ys n)"

lemma strncmp_eq_take: "strncmp_eq xs ys n \<longleftrightarrow> take n xs = take n ys"
  by (induction xs ys n rule: strncmp_eq.induct) auto

text \<open>\<^verbatim>\<open>strncpy(dst, s, n)\<close> into a buffer of \<open>n\<close> bytes: padded with NULs, cut at \<open>n\<close>.\<close>

definition strncpy :: "char list \<Rightarrow> nat \<Rightarrow> char list" where
  "strncpy s n = take n (s @ replicate n NUL)"

text \<open>
  Decimal integers: optional sign, digits. \<^verbatim>\<open>strtol\<close> saturates at the 32-bit limits, and \<^verbatim>\<open>atoi\<close>
  is \<^verbatim>\<open>strtol\<close> after white space, 0 when there is no digit.
\<close>

definition digits_val :: "char list \<Rightarrow> nat" where
  "digits_val ds = foldl (\<lambda>n c. 10 * n + digit_val c) 0 ds"

definition saturate32 :: "int \<Rightarrow> int" where
  "saturate32 n = max (- (2 ^ 31)) (min (2 ^ 31 - 1) n)"

definition atoi :: "char list \<Rightarrow> int" where
  "atoi s = (let t = dropWhile isspace s in
     case t of
       [] \<Rightarrow> 0
     | c # cs \<Rightarrow>
         if c = CHR ''-'' then saturate32 (- int (digits_val (takeWhile isdigit cs)))
         else if c = CHR ''+'' then saturate32 (int (digits_val (takeWhile isdigit cs)))
         else saturate32 (int (digits_val (takeWhile isdigit t))))"

lemma atoi_bounds: "- (2 ^ 31) \<le> atoi s \<and> atoi s < 2 ^ 31"
  by (auto simp: atoi_def saturate32_def Let_def split: list.splits)

end
