(* ===== verification/IniFile.thy ===== *)
theory IniFile
  imports CString
begin

text \<open>
  \<^verbatim>\<open>application/inifile.c\<close>: loading a configuration file into a buffer, locating
  \<^verbatim>\<open>[section]\<close> and \<^verbatim>\<open>key=value\<close> in it, reading a value and writing one back. Positions are
  indices into the buffer, and each loop of \<^verbatim>\<open>parse_file\<close> is a function that takes the index
  the loop starts from. A loop that would run off the buffer yields \<open>Inl OutOfBounds\<close>.
\<close>

section \<open>Loading\<close>

definition MAX_FILE_SIZE :: nat where "MAX_FILE_SIZE = 1024 * 16"

text \<open>
  \<^verbatim>\<open>fgetc\<close> returns the next byte or \<^verbatim>\<open>EOF\<close>, which as a \<^verbatim>\<open>char\<close> is the byte 255: the loop also
  stops at a byte 255 of the file.
\<close>

fun load_loop :: "char list \<Rightarrow> nat \<Rightarrow> char list \<Rightarrow> (char list \<times> nat) res" where
  "load_loop [] i buf = Inr (buf[i := NUL], i)"
| "load_loop (c # cs) i buf =
     (if c = CHR 0xFF then Inr (buf[i := NUL], i)
      else need (i + 1 < MAX_FILE_SIZE) AssertFailed (load_loop cs (i + 1) (buf[i := c])))"

text \<open>
  \<open>files\<close> is the file system: the contents of the files that can be opened. \<open>None\<close> is the
  return value 0. The file size is 0 then.
\<close>

type_synonym files = "char list \<Rightarrow> char list option"

definition load_ini_file :: "files \<Rightarrow> char list \<Rightarrow> char list \<Rightarrow> (char list \<times> nat) option res" where
  "load_ini_file files file buf =
     (case files file of
        None \<Rightarrow> Inr None
      | Some inp \<Rightarrow> andThen (load_loop inp 0 buf) (\<lambda>r. Inr (Some r)))"

section \<open>Character tests\<close>

definition newline :: "char \<Rightarrow> bool" where
  "newline c \<longleftrightarrow> CHR 0x0A = c \<or> CHR 0x0D = c"

definition end_of_string :: "char \<Rightarrow> bool" where
  "end_of_string c \<longleftrightarrow> NUL = c"

definition left_barce :: "char \<Rightarrow> bool" where
  "left_barce c \<longleftrightarrow> CHR ''['' = c"

definition isright_brace :: "char \<Rightarrow> bool" where
  "isright_brace c \<longleftrightarrow> CHR '']'' = c"

lemmas ini_char_defs = newline_def end_of_string_def left_barce_def isright_brace_def

section \<open>The loops of \<^verbatim>\<open>parse_file\<close>\<close>

text \<open>\<^verbatim>\<open>do { i++; } while (!isright_brace(p[i]) && !end_of_string(p[i]));\<close>\<close>

function scan_close :: "char list \<Rightarrow> nat \<Rightarrow> nat res" where
  "scan_close p i =
     andThen (rd p (i + 1)) (\<lambda>c.
       if \<not> isright_brace c \<and> \<not> end_of_string c then scan_close p (i + 1) else Inr (i + 1))"
  by pat_completeness auto
termination
  by (relation "measure (\<lambda>(p, i). length p - i)") (auto simp: rd_Inr_iff)

text \<open>\<^verbatim>\<open>while (isspace(p[i])) i++;\<close>\<close>

function skip_space :: "char list \<Rightarrow> nat \<Rightarrow> nat res" where
  "skip_space p i =
     andThen (rd p i) (\<lambda>c. if isspace c then skip_space p (i + 1) else Inr i)"
  by pat_completeness auto
termination
  by (relation "measure (\<lambda>(p, i). length p - i)") (auto simp: rd_Inr_iff)

text \<open>\<^verbatim>\<open>while (!newline(p[i]) && !end_of_string(p[i])) i++;\<close>\<close>

function line_end :: "char list \<Rightarrow> nat \<Rightarrow> nat res" where
  "line_end p i =
     andThen (rd p i) (\<lambda>c.
       if \<not> newline c \<and> \<not> end_of_string c then line_end p (i + 1) else Inr i)"
  by pat_completeness auto
termination
  by (relation "measure (\<lambda>(p, i). length p - i)") (auto simp: rd_Inr_iff)

text \<open>
  The search for \<^verbatim>\<open>=\<close> in the line from \<open>ns\<close> to \<open>i\<close>: it ends at the first \<^verbatim>\<open>=\<close> after the first
  character, with the key position if the text before it is a prefix of the key.
\<close>

function key_scan :: "char list \<Rightarrow> char list \<Rightarrow> nat \<Rightarrow> nat \<Rightarrow> nat \<Rightarrow> nat option res" where
  "key_scan p key ns i j =
     (if j < i then
        andThen (rd p j) (\<lambda>c.
          if c \<noteq> CHR ''='' then
            andThen (rd p (j + 1)) (\<lambda>d.
              if d = CHR ''='' \<and> strncmp_eq key (cstr (drop ns p)) (j + 1 - ns)
              then Inr (Some (j + 1))
              else key_scan p key ns i (j + 1))
          else Inr None)
      else Inr None)"
  by pat_completeness auto
termination
  by (relation "measure (\<lambda>(p, key, ns, i, j). i - j)") auto

declare scan_close.simps [simp del] skip_space.simps [simp del] line_end.simps [simp del]
  key_scan.simps [simp del]

lemma scan_close_mono: "scan_close p i = Inr k \<Longrightarrow> i < k \<and> k < length p"
proof (induction p i rule: scan_close.induct)
  case (1 p i)
  then show ?case
    by (subst (asm) (2) scan_close.simps) (fastforce simp: andThen_Inr_iff rd_Inr_iff split: if_splits)
qed

lemma skip_space_mono: "skip_space p i = Inr k \<Longrightarrow> i \<le> k \<and> k < length p"
proof (induction p i rule: skip_space.induct)
  case (1 p i)
  then show ?case
    by (subst (asm) (2) skip_space.simps) (fastforce simp: andThen_Inr_iff rd_Inr_iff split: if_splits)
qed

lemma line_end_mono: "line_end p i = Inr k \<Longrightarrow> i \<le> k \<and> k < length p"
proof (induction p i rule: line_end.induct)
  case (1 p i)
  then show ?case
    by (subst (asm) (2) line_end.simps) (fastforce simp: andThen_Inr_iff rd_Inr_iff split: if_splits)
qed

text \<open>
  The loop over the lines of a section: \<open>KeyAt key_s key_e value_s value_e\<close> when the key is found,
  else where the section ends.
\<close>

datatype line_result = KeyAt nat nat nat nat | SectionEnd nat

function lines_loop :: "char list \<Rightarrow> char list \<Rightarrow> nat \<Rightarrow> line_result res" where
  "lines_loop p key i =
     andThen (rd p (i - 1)) (\<lambda>a. andThen (rd p i) (\<lambda>b.
       if \<not> (newline a \<and> left_barce b) \<and> \<not> end_of_string b then
         andThen (line_end p i) (\<lambda>e.
           andThen (if CHR '';'' \<noteq> b then key_scan p key i e i else Inr None) (\<lambda>r.
             case r of
               Some j \<Rightarrow> Inr (KeyAt i (j - 1) (j + 1) e)
             | None \<Rightarrow> lines_loop p key (e + 1)))
       else Inr (SectionEnd i)))"
  by pat_completeness auto
termination
  by (relation "measure (\<lambda>(p, key, i). length p - i)") (auto dest: line_end_mono)

declare lines_loop.simps [simp del]

text \<open>One round of the loop over the lines.\<close>

lemma lines_loop_Inr_iff:
  "lines_loop p key i = Inr r \<longleftrightarrow>
     (\<exists>a b. rd p (i - 1) = Inr a \<and> rd p i = Inr b \<and>
        (if (newline a \<and> left_barce b) \<or> end_of_string b then r = SectionEnd i
         else (\<exists>e. line_end p i = Inr e \<and>
           ((CHR '';'' \<noteq> b \<and> (\<exists>j. key_scan p key i e i = Inr (Some j) \<and> r = KeyAt i (j - 1) (j + 1) e))
            \<or> ((CHR '';'' = b \<or> key_scan p key i e i = Inr None)
               \<and> lines_loop p key (e + 1) = Inr r)))))"
  by (subst lines_loop.simps) (auto simp: andThen_Inr_iff split: option.splits)

lemma lines_loop_mono: "lines_loop p key i = Inr (SectionEnd k) \<Longrightarrow> i \<le> k \<and> k < length p"
proof (induction p key i rule: lines_loop.induct)
  case (1 p key i)
  from "1.prems" obtain a b where ab: "rd p (i - 1) = Inr a" "rd p i = Inr b"
    and r: "if (newline a \<and> left_barce b) \<or> end_of_string b then k = i
         else (\<exists>e. line_end p i = Inr e \<and> (CHR '';'' = b \<or> key_scan p key i e i = Inr None)
               \<and> lines_loop p key (e + 1) = Inr (SectionEnd k))"
    by (subst (asm) lines_loop_Inr_iff) (auto split: if_splits)
  show ?case
  proof (cases "(newline a \<and> left_barce b) \<or> end_of_string b")
    case True
    with r ab show ?thesis by (simp add: rd_Inr_iff)
  next
    case False
    with r obtain e where e: "line_end p i = Inr e" "lines_loop p key (e + 1) = Inr (SectionEnd k)"
      and n: "(if CHR '';'' \<noteq> b then key_scan p key i e i else Inr None) = Inr None"
      by auto
    from "1.IH" [OF ab _ e(1) n _ e(2)] False line_end_mono [OF e(1)] show ?thesis by auto
  qed
qed

text \<open>
  The result of the search: the section position and the key and value positions, each \<open>None\<close>
  where the C code leaves \<open>-1\<close>.
\<close>

record ini_pos =
  sec_pos :: "(nat \<times> nat) option"                     \<comment> \<open>\<^verbatim>\<open>sec_s\<close>, \<^verbatim>\<open>sec_e\<close>\<close>
  key_pos :: "(nat \<times> nat \<times> nat \<times> nat) option"         \<comment> \<open>\<^verbatim>\<open>key_s\<close>, \<^verbatim>\<open>key_e\<close>, \<^verbatim>\<open>value_s\<close>, \<^verbatim>\<open>value_e\<close>\<close>

function parse_loop ::
  "char list \<Rightarrow> char list \<Rightarrow> char list \<Rightarrow> nat \<Rightarrow> (nat \<times> nat) option \<Rightarrow> ini_pos res" where
  "parse_loop p section key i sec =
     andThen (rd p i) (\<lambda>c.
       if \<not> end_of_string c then
         andThen (if i = 0 then Inr True else andThen (rd p (i - 1)) (\<lambda>a. Inr (newline a))) (\<lambda>start.
           if start \<and> left_barce c then
             let section_start = i + 1 in
             andThen (scan_close p i) (\<lambda>j.
               if strncmp_eq (cstr (drop section_start p)) section (j - section_start) then
                 andThen (skip_space p (j + 1)) (\<lambda>k.
                   let sec = Some (section_start, k) in
                   andThen (lines_loop p key k) (\<lambda>r.
                     case r of
                       KeyAt ks ke vs ve \<Rightarrow> Inr \<lparr>sec_pos = sec, key_pos = Some (ks, ke, vs, ve)\<rparr>
                     | SectionEnd m \<Rightarrow> parse_loop p section key m sec))
               else parse_loop p section key j sec)
           else parse_loop p section key (i + 1) sec)
       else Inr \<lparr>sec_pos = sec, key_pos = None\<rparr>)"
  by pat_completeness auto
termination
  by (relation "measure (\<lambda>(p, section, key, i, sec). length p - i)")
     (auto simp: rd_Inr_iff dest!: scan_close_mono skip_space_mono lines_loop_mono)

declare parse_loop.simps [simp del]

definition parse_file :: "char list \<Rightarrow> char list \<Rightarrow> char list \<Rightarrow> ini_pos res" where
  "parse_file section key buf =
     need (section \<noteq> []) AssertFailed
       (need (key \<noteq> []) AssertFailed (parse_loop buf section key 0 None))"

section \<open>Reading\<close>

text \<open>
  The result pairs the return value with the new contents of the caller's \<^verbatim>\<open>value\<close> buffer.
\<close>

definition read_profile_string ::
  "files \<Rightarrow> char list \<Rightarrow> char list \<Rightarrow> char list \<Rightarrow> int \<Rightarrow> char list option \<Rightarrow> char list
     \<Rightarrow> (int \<times> char list) res" where
  "read_profile_string files section key value n default_value file =
     (let fail = (case default_value of
                    None \<Rightarrow> Inr (0, value)
                  | Some d \<Rightarrow> need (nat n \<le> length value) OutOfBounds
                      (Inr (0, strncpy d (nat n) @ drop (nat n) value)))
      in
      need (section \<noteq> []) AssertFailed (need (key \<noteq> []) AssertFailed (need (0 < n) AssertFailed
        (andThen (load_ini_file files file (replicate MAX_FILE_SIZE NUL)) (\<lambda>l.
           case l of
             None \<Rightarrow> fail
           | Some (buf, file_size) \<Rightarrow>
               andThen (parse_file section key buf) (\<lambda>r.
                 case key_pos r of
                   None \<Rightarrow> fail
                 | Some (key_s, key_e, value_s, value_e) \<Rightarrow>
                     let cpcount = min (nat n - 1) (value_e - value_s) in
                     need (nat n \<le> length value) OutOfBounds
                       (Inr (1, take cpcount (drop value_s buf)
                                @ replicate (nat n - cpcount) NUL @ drop (nat n) value))))))))"

definition read_profile_int ::
  "files \<Rightarrow> char list \<Rightarrow> char list \<Rightarrow> int \<Rightarrow> char list \<Rightarrow> int res" where
  "read_profile_int files section key default_value file =
     andThen (read_profile_string files section key (replicate 32 NUL) 32 None file) (\<lambda>(ok, value).
       if ok = 0 then Inr default_value else Inr (atoi (cstr value)))"

section \<open>Writing\<close>

text \<open>
  The new contents \<^verbatim>\<open>w_buf\<close>, up to its first NUL. \<^verbatim>\<open>sprintf\<close> stores one NUL more than it prints.
  When only the section exists, the rest of the file is passed to \<^verbatim>\<open>sprintf\<close> as the format.
\<close>

definition section_text :: "char list \<Rightarrow> char list \<Rightarrow> char list \<Rightarrow> char list" where
  "section_text section key value =
     ''['' @ section @ '']'' @ [CHR 0x0A] @ key @ ''='' @ value @ [CHR 0x0A]"

definition new_contents ::
  "char list \<Rightarrow> nat \<Rightarrow> ini_pos \<Rightarrow> char list \<Rightarrow> char list \<Rightarrow> char list \<Rightarrow> char list res" where
  "new_contents buf file_size r section key value =
     (case sec_pos r of
        None \<Rightarrow>
          let w = (if file_size = 0 then section_text section key value
                   else take file_size buf @ [CHR 0x0A] @ section_text section key value)
          in need (length w < MAX_FILE_SIZE) OutOfBounds (Inr (cstr w))
      | Some (sec_s, sec_e) \<Rightarrow>
         (case key_pos r of
            None \<Rightarrow>
              let fmt = cstr (drop sec_e buf);
                  w = take sec_e buf @ key @ ''='' @ value @ [CHR 0x0A] @ fmt
              in need (CHR ''%'' \<notin> set fmt) FormatDirective
                   (need (length w < MAX_FILE_SIZE) OutOfBounds (Inr (cstr w)))
          | Some (key_s, key_e, value_s, value_e) \<Rightarrow>
              let w = take value_s buf @ value @ take (file_size - value_e) (drop value_e buf)
              in need (value_e \<le> file_size \<and> length w < MAX_FILE_SIZE) OutOfBounds
                   (Inr (cstr w))))"

text \<open>
  \<open>open_ok\<close> says whether the file can be opened for writing and \<open>fputs\<close> what the library call
  reports and leaves in the file.
\<close>

definition write_profile_string ::
  "bool \<Rightarrow> (char list \<Rightarrow> bool \<times> char list) \<Rightarrow> files \<Rightarrow> char list \<Rightarrow> char list \<Rightarrow> char list
     \<Rightarrow> char list \<Rightarrow> (int \<times> files) res" where
  "write_profile_string open_ok fputs files section key value file =
     need (section \<noteq> []) AssertFailed (need (key \<noteq> []) AssertFailed
       (andThen (load_ini_file files file (replicate MAX_FILE_SIZE NUL)) (\<lambda>l.
          andThen (case l of
                     None \<Rightarrow> new_contents (replicate MAX_FILE_SIZE NUL) 0
                               \<lparr>sec_pos = None, key_pos = None\<rparr> section key value
                   | Some (buf, file_size) \<Rightarrow>
                       andThen (parse_file section key buf)
                         (\<lambda>r. new_contents buf file_size r section key value))
            (\<lambda>w. if \<not> open_ok then Inr (0, files)
                 else case fputs w of
                   (ok, w') \<Rightarrow> Inr (if ok then 1 else 0, files(file \<mapsto> w'))))))"

end
