(* ===== verification/IniSafety.thy ===== *)
theory IniSafety
  imports IniFile
begin

text \<open>
  Memory safety and termination of the configuration parser: when the buffer has two NULs after
  the text, no loop of \<^verbatim>\<open>parse_file\<close> leaves it. Loading provides them for files of up to 16382
  bytes.
\<close>

section \<open>Loading\<close>

definition file_text :: "char list \<Rightarrow> char list" where
  "file_text inp = takeWhile (\<lambda>c. c \<noteq> CHR 0xFF) inp"

lemma load_loop_eq:
  assumes "length done + length (file_text inp) < MAX_FILE_SIZE"
  shows "load_loop inp (length done) (done @ replicate (MAX_FILE_SIZE - length done) NUL) =
    Inr (done @ file_text inp @ replicate (MAX_FILE_SIZE - length done - length (file_text inp)) NUL,
         length done + length (file_text inp))"
  using assms
proof (induction inp arbitrary: "done")
  case Nil
  then have "replicate (MAX_FILE_SIZE - length done) NUL
      = NUL # replicate (MAX_FILE_SIZE - length done - 1) NUL"
    by (cases "MAX_FILE_SIZE - length done") (auto simp: file_text_def)
  then show ?case by (simp add: file_text_def)
next
  case (Cons c cs)
  have r: "replicate (MAX_FILE_SIZE - length done) NUL
      = NUL # replicate (MAX_FILE_SIZE - length done - 1) NUL"
    using Cons.prems by (cases "MAX_FILE_SIZE - length done") (auto simp: file_text_def)
  show ?case
  proof (cases "c = CHR 0xFF")
    case True
    with r show ?thesis by (simp add: file_text_def)
  next
    case False
    with Cons.prems have len: "length (done @ [c]) + length (file_text cs) < MAX_FILE_SIZE"
      by (simp add: file_text_def)
    from Cons.IH [OF len] r False len show ?thesis by (simp add: file_text_def)
  qed
qed

lemma load_loop_too_big:
  assumes "i < MAX_FILE_SIZE" "MAX_FILE_SIZE \<le> i + length (file_text inp)"
  shows "load_loop inp i buf = Inl AssertFailed"
  using assms
proof (induction inp arbitrary: i buf)
  case Nil
  then show ?case by (simp add: file_text_def)
next
  case (Cons c cs)
  then have c: "c \<noteq> CHR 0xFF" and m: "MAX_FILE_SIZE \<le> i + 1 + length (file_text cs)"
    by (auto simp: file_text_def split: if_splits)
  show ?case
  proof (cases "i + 1 < MAX_FILE_SIZE")
    case True
    with c m Cons.IH [of "i + 1" "buf[i := c]"] show ?thesis
      by (simp add: need_def)
  next
    case False
    with c show ?thesis by (simp add: need_def)
  qed
qed

lemma load_ini_file_eq:
  assumes "files file = Some inp" "length (file_text inp) < MAX_FILE_SIZE"
  shows "load_ini_file files file (replicate MAX_FILE_SIZE NUL) =
    Inr (Some (file_text inp @ replicate (MAX_FILE_SIZE - length (file_text inp)) NUL,
      length (file_text inp)))"
  using load_loop_eq [of "[]" inp] assms by (simp add: load_ini_file_def)

section \<open>The loops stay inside a padded buffer\<close>

definition padded :: "char list \<Rightarrow> nat \<Rightarrow> bool" where
  "padded p n \<longleftrightarrow> n + 1 < length p \<and> p ! n = NUL \<and> p ! (n + 1) = NUL"

lemma padded_rd: "padded p n \<Longrightarrow> i \<le> n + 1 \<Longrightarrow> rd p i = Inr (p ! i)"
  by (simp add: padded_def rd_def)

lemma padded_replicate: "2 \<le> k \<Longrightarrow> padded (xs @ replicate k NUL) (length xs)"
  by (simp add: padded_def nth_append)

lemma isspace_NUL [simp]: "\<not> isspace NUL"
  by (simp add: isspace_def)

lemma scan_close_padded: "padded p n \<Longrightarrow> i < n \<Longrightarrow> \<exists>k. scan_close p i = Inr k \<and> k \<le> n"
proof (induction p i rule: scan_close.induct)
  case (1 p i)
  show ?case
  proof (cases "isright_brace (p ! (i + 1)) \<or> end_of_string (p ! (i + 1))")
    case True
    with "1.prems" show ?thesis by (subst scan_close.simps) (auto simp: padded_rd)
  next
    case False
    with "1.prems" have "i + 1 < n"
      by (cases "i + 1 = n") (auto simp: padded_def end_of_string_def)
    from "1.IH" [of "p ! (i + 1)"] "1.prems" this False show ?thesis
      by (subst scan_close.simps) (auto simp: padded_rd)
  qed
qed

lemma skip_space_padded: "padded p n \<Longrightarrow> i \<le> n + 1 \<Longrightarrow> \<exists>k. skip_space p i = Inr k \<and> k \<le> n + 1"
proof (induction p i rule: skip_space.induct)
  case (1 p i)
  show ?case
  proof (cases "isspace (p ! i)")
    case False
    with "1.prems" show ?thesis by (subst skip_space.simps) (auto simp: padded_rd)
  next
    case True
    with "1.prems" have "i \<noteq> n" "i \<noteq> n + 1" by (auto simp: padded_def)
    with "1.IH" [of "p ! i"] "1.prems" True show ?thesis
      by (subst skip_space.simps) (auto simp: padded_rd)
  qed
qed

lemma line_end_padded: "padded p n \<Longrightarrow> i \<le> n \<Longrightarrow> \<exists>k. line_end p i = Inr k \<and> k \<le> n"
proof (induction p i rule: line_end.induct)
  case (1 p i)
  show ?case
  proof (cases "newline (p ! i) \<or> end_of_string (p ! i)")
    case True
    with "1.prems" show ?thesis by (subst line_end.simps) (auto simp: padded_rd)
  next
    case False
    with "1.prems" have "i \<noteq> n" by (auto simp: padded_def end_of_string_def)
    with "1.IH" [of "p ! i"] "1.prems" False show ?thesis
      by (subst line_end.simps) (auto simp: padded_rd)
  qed
qed

lemma key_scan_padded:
  "padded p n \<Longrightarrow> i \<le> n \<Longrightarrow> \<exists>r. key_scan p key ns i j = Inr r"
proof (induction p key ns i j rule: key_scan.induct)
  case (1 p key ns i j)
  show ?case
  proof (cases "j < i \<and> p ! j \<noteq> CHR ''=''")
    case False
    with "1.prems" show ?thesis
      by (subst key_scan.simps) (auto simp: padded_rd)
  next
    case True
    with "1.prems" "1.IH" [of "p ! j" "p ! (j + 1)"] show ?thesis
      by (subst key_scan.simps) (auto simp: padded_rd)
  qed
qed

lemma lines_loop_padded:
  "padded p n \<Longrightarrow> i \<le> n + 1 \<Longrightarrow>
     \<exists>r. lines_loop p key i = Inr r \<and> (\<forall>k. r = SectionEnd k \<longrightarrow> k \<le> n + 1)"
proof (induction p key i rule: lines_loop.induct)
  case (1 p key i)
  note rds = padded_rd [OF "1.prems"(1)]
  have ab: "rd p (i - 1) = Inr (p ! (i - 1))" "rd p i = Inr (p ! i)" using rds "1.prems"(2) by auto
  show ?case
  proof (cases "(newline (p ! (i - 1)) \<and> left_barce (p ! i)) \<or> end_of_string (p ! i)")
    case True
    with ab "1.prems" show ?thesis by (subst lines_loop.simps) auto
  next
    case False
    then have "i \<noteq> n" "i \<noteq> n + 1" using "1.prems"(1) by (auto simp: padded_def end_of_string_def)
    then obtain e where e: "line_end p i = Inr e" "e \<le> n"
      using line_end_padded [OF "1.prems"(1), of i] "1.prems"(2) by auto
    obtain r where r: "(if CHR '';'' \<noteq> p ! i then key_scan p key i e i else Inr None) = Inr r"
      using key_scan_padded [OF "1.prems"(1) e(2)] by fastforce
    show ?thesis
    proof (cases r)
      case None
      have c: "\<not> (newline (p ! (i - 1)) \<and> left_barce (p ! i)) \<and> \<not> end_of_string (p ! i)"
        using False by simp
      from "1.IH" [OF ab c e(1) r None "1.prems"(1)] e(2)
      show ?thesis by (subst lines_loop.simps) (simp del: One_nat_def add: ab c e(1) r None)
    next
      case (Some j)
      with False show ?thesis by (subst lines_loop.simps) (simp del: One_nat_def add: ab e(1) r)
    qed
  qed
qed

lemma parse_loop_padded:
  "padded p n \<Longrightarrow> i \<le> n + 1 \<Longrightarrow> \<exists>r. parse_loop p sn key i sec = Inr r"
proof (induction p sn key i sec rule: parse_loop.induct)
  case (1 p sn key i sec)
  note rds = padded_rd [OF "1.prems"(1)]
  show ?case
  proof (cases "end_of_string (p ! i)")
    case True
    with rds "1.prems" show ?thesis by (subst parse_loop.simps) auto
  next
    case ne: False
    then have i: "i < n"
      using "1.prems" by (cases "i = n \<or> i = n + 1") (auto simp: padded_def end_of_string_def)
    define start where "start = (i = 0 \<or> newline (p ! (i - 1)))"
    have rs: "(if i = 0 then Inr True else andThen (rd p (i - 1)) (\<lambda>a. Inr (newline a))) = Inr start"
      using rds i by (auto simp: start_def)
    have ri: "rd p i = Inr (p ! i)" using rds i by simp
    show ?thesis
    proof (cases "start \<and> left_barce (p ! i)")
      case False
      with "1.IH"(3) [OF ri ne rs False "1.prems"(1)] i ne ri rs show ?thesis
        by (subst parse_loop.simps) (auto simp del: One_nat_def)
    next
      case True
      obtain j where j: "scan_close p i = Inr j" "j \<le> n" using scan_close_padded [OF "1.prems"(1) i] by auto
      show ?thesis
      proof (cases "strncmp_eq (cstr (drop (i + 1) p)) sn (j - (i + 1))")
        case False
        with "1.IH"(2) [OF ri ne rs True refl j(1) False "1.prems"(1)] j ne ri rs True show ?thesis
          by (subst parse_loop.simps) (simp add: Let_def del: One_nat_def)
      next
        case match: True
        obtain k where k: "skip_space p (j + 1) = Inr k" "k \<le> n + 1"
          using skip_space_padded [OF "1.prems"(1), of "j + 1"] j by auto
        obtain r where r: "lines_loop p key k = Inr r" "\<forall>m. r = SectionEnd m \<longrightarrow> m \<le> n + 1"
          using lines_loop_padded [OF "1.prems"(1) k(2)] by auto
        show ?thesis
        proof (cases r)
          case (KeyAt a b c d)
          with j k r ne ri rs True match show ?thesis
            by (subst parse_loop.simps) (simp add: Let_def del: One_nat_def)
        next
          case (SectionEnd m)
          with "1.IH"(1) [OF ri ne rs True refl j(1) match k(1) refl r(1) SectionEnd "1.prems"(1)]
            j k r ne ri rs True match show ?thesis
            by (subst parse_loop.simps) (simp add: Let_def del: One_nat_def)
        qed
      qed
    qed
  qed
qed

section \<open>Where a found value lies\<close>

lemma key_scan_bounds: "key_scan p key ns i j = Inr (Some k) \<Longrightarrow> j < k \<and> k \<le> i \<and> rd p k = Inr (CHR ''='')"
proof (induction p key ns i j rule: key_scan.induct)
  case (1 p key ns i j)
  from "1.prems" obtain c d where cd: "j < i" "rd p j = Inr c" "c \<noteq> CHR ''=''" "rd p (j + 1) = Inr d"
    and r: "if d = CHR ''='' \<and> strncmp_eq key (cstr (drop ns p)) (j + 1 - ns) then k = j + 1
      else key_scan p key ns i (j + 1) = Inr (Some k)"
    by (subst (asm) key_scan.simps) (auto simp: andThen_Inr_iff split: if_splits)
  show ?case
    using r "1.IH" [OF cd] cd by (auto split: if_splits)
qed

lemma line_end_char: "line_end p i = Inr k \<Longrightarrow> \<exists>c. rd p k = Inr c \<and> (newline c \<or> end_of_string c)"
proof (induction p i rule: line_end.induct)
  case (1 p i)
  from "1.prems" obtain c where c: "rd p i = Inr c"
    and r: "if \<not> newline c \<and> \<not> end_of_string c then line_end p (i + 1) = Inr k else k = i"
    by (subst (asm) line_end.simps) (auto simp: andThen_Inr_iff split: if_splits)
  show ?case
    using r c "1.IH" [OF c] by (auto split: if_splits)
qed

lemma lines_loop_KeyAt:
  "lines_loop p key i = Inr (KeyAt ks ke vs ve) \<Longrightarrow> vs \<le> ve \<and> ve < length p"
proof (induction p key i rule: lines_loop.induct)
  case (1 p key i)
  from "1.prems" obtain a b e where ab: "rd p (i - 1) = Inr a" "rd p i = Inr b"
    and c: "\<not> (newline a \<and> left_barce b) \<and> \<not> end_of_string b" and e: "line_end p i = Inr e"
    and r: "(CHR '';'' \<noteq> b \<and> (\<exists>j. key_scan p key i e i = Inr (Some j) \<and> vs = j + 1 \<and> ve = e))
      \<or> ((if CHR '';'' \<noteq> b then key_scan p key i e i else Inr None) = Inr None
          \<and> lines_loop p key (e + 1) = Inr (KeyAt ks ke vs ve))"
    by (subst (asm) lines_loop_Inr_iff) (auto split: if_splits)
  from r show ?case
  proof
    assume "CHR '';'' \<noteq> b \<and> (\<exists>j. key_scan p key i e i = Inr (Some j) \<and> vs = j + 1 \<and> ve = e)"
    then obtain j where j: "key_scan p key i e i = Inr (Some j)" "vs = j + 1" "ve = e" by blast
    have "j \<noteq> e"
      using line_end_char [OF e] key_scan_bounds [OF j(1)] by (auto simp: ini_char_defs)
    with key_scan_bounds [OF j(1)] j line_end_mono [OF e] show ?thesis by auto
  next
    assume "(if CHR '';'' \<noteq> b then key_scan p key i e i else Inr None) = Inr None
      \<and> lines_loop p key (e + 1) = Inr (KeyAt ks ke vs ve)"
    then show ?thesis using "1.IH" [OF ab c e _ refl] by auto
  qed
qed

lemma parse_loop_found:
  "parse_loop p sn key i sec = Inr r \<Longrightarrow>
     (case key_pos r of None \<Rightarrow> True
      | Some (ks, ke, vs, ve) \<Rightarrow> \<exists>k. lines_loop p key k = Inr (KeyAt ks ke vs ve))"
proof (induction p sn key i sec rule: parse_loop.induct)
  case (1 p sn key i sec)
  note run = "1.prems" [unfolded parse_loop.simps [of p sn key i sec]]
  from run obtain c where c: "rd p i = Inr c" by (auto simp: andThen_Inr_iff)
  show ?case
  proof (cases "end_of_string c")
    case True
    with run c show ?thesis by auto
  next
    case ne: False
    with run c obtain start where
      s: "(if i = 0 then Inr True else andThen (rd p (i - 1)) (\<lambda>a. Inr (newline a))) = Inr start"
      by (auto simp del: One_nat_def simp: andThen_Inr_iff split: if_splits)
    show ?thesis
    proof (cases "start \<and> left_barce c")
      case False
      with run c ne s have "parse_loop p sn key (i + 1) sec = Inr r"
        by (auto simp del: One_nat_def)
      with "1.IH"(3) [OF c ne s False] show ?thesis by simp
    next
      case True
      with run c ne s obtain j where j: "scan_close p i = Inr j"
        by (auto simp del: One_nat_def simp: andThen_Inr_iff Let_def)
      show ?thesis
      proof (cases "strncmp_eq (cstr (drop (i + 1) p)) sn (j - (i + 1))")
        case False
        with run c ne s True j have "parse_loop p sn key j sec = Inr r"
          by (auto simp del: One_nat_def simp: Let_def)
        with "1.IH"(2) [OF c ne s True refl j False] show ?thesis by simp
      next
        case m: True
        from run c ne s True j m obtain k l where
          kl: "skip_space p (j + 1) = Inr k" "lines_loop p key k = Inr l"
          by (auto simp del: One_nat_def simp: andThen_Inr_iff Let_def)
        with run c ne s True j m have r: "(case l of
            KeyAt ks ke vs ve \<Rightarrow> Inr \<lparr>sec_pos = Some (i + 1, k), key_pos = Some (ks, ke, vs, ve)\<rparr>
          | SectionEnd q \<Rightarrow> parse_loop p sn key q (Some (i + 1, k))) = Inr r"
          by (auto simp del: One_nat_def simp: Let_def)
        show ?thesis
        proof (cases l)
          case (KeyAt a b c d)
          with r kl show ?thesis by auto
        next
          case (SectionEnd q)
          with "1.IH"(1) [OF c ne s True refl j m kl(1) refl kl(2) SectionEnd] r show ?thesis by simp
        qed
      qed
    qed
  qed
qed

section \<open>Properties\<close>



end
