(* ===== verification/IniDoc.thy ===== *)
theory IniDoc
  imports IniSafety "HOL-Library.Sublist"
begin

text \<open>
  What \<^verbatim>\<open>inifile.c\<close> computes on well-formed files: a file is a list of lines, the parser's index
  arithmetic is related to that list, and reading and writing are shown to be lookup and update
  of the list. The lookup is by prefix: a header or key of the file matches when it is a prefix of
  the name asked for, which is what the \<^verbatim>\<open>strncmp\<close> calls of the code test.
\<close>

section \<open>Files as lists of lines\<close>

datatype ini_line = Header "char list" | Pair "char list" "char list" | Other "char list"

abbreviation NL :: char where "NL \<equiv> CHR 0x0A"

fun line_text :: "ini_line \<Rightarrow> char list" where
  "line_text (Header s) = ''['' @ s @ '']''"
| "line_text (Pair k v) = k @ ''='' @ v"
| "line_text (Other l) = l"

definition render :: "ini_line list \<Rightarrow> char list" where
  "render ls = concat (map (\<lambda>l. line_text l @ [NL]) ls)"

definition plain :: "char list \<Rightarrow> bool" where
  "plain s \<longleftrightarrow> (\<forall>c \<in> set s. \<not> newline c \<and> \<not> end_of_string c)"

text \<open>
  Section names are free of brackets, keys start with an ordinary character and have no \<^verbatim>\<open>=\<close>, and
  the lines that are neither are blank, comments, or text without \<^verbatim>\<open>=\<close>.
\<close>

fun line_ok :: "ini_line \<Rightarrow> bool" where
  "line_ok (Header s) \<longleftrightarrow> plain s \<and> CHR '']'' \<notin> set s"
| "line_ok (Pair k v) \<longleftrightarrow> plain k \<and> plain v \<and> k \<noteq> [] \<and> CHR ''='' \<notin> set k
     \<and> \<not> isspace (hd k) \<and> hd k \<notin> {CHR ''['', CHR '';''}"
| "line_ok (Other l) \<longleftrightarrow> plain l \<and>
     (l = [] \<or> hd l = CHR '';'' \<or> (\<not> isspace (hd l) \<and> hd l \<noteq> CHR ''['' \<and> CHR ''='' \<notin> set l))"

definition doc_ok :: "ini_line list \<Rightarrow> bool" where
  "doc_ok ls \<longleftrightarrow> (\<forall>l \<in> set ls. line_ok l)"

text \<open>The lookup: \<open>b\<close> says whether the current section matches.\<close>

fun look :: "char list \<Rightarrow> char list \<Rightarrow> bool \<Rightarrow> ini_line list \<Rightarrow> char list option" where
  "look sn key b [] = None"
| "look sn key b (Header s # ls) = look sn key (prefix s sn) ls"
| "look sn key b (Pair k v # ls) = (if b \<and> prefix k key then Some v else look sn key b ls)"
| "look sn key b (Other l # ls) = look sn key b ls"

section \<open>The inner loops on text\<close>

lemma render_simps [simp]:
  "render [] = []" "render (l # ls) = line_text l @ NL # render ls"
  "render (ls @ ls') = render ls @ render ls'"
  by (simp_all add: render_def)

lemma newline_NL [simp]: "newline NL" "\<not> end_of_string NL" "\<not> isright_brace NL" "isspace NL"
  "\<not> left_barce NL" "end_of_string NUL" "\<not> newline NUL" "\<not> left_barce NUL"
  by (simp_all add: ini_char_defs isspace_def)

lemma line_end_text:
  assumes "plain t" "newline c \<or> end_of_string c"
  shows "line_end (A @ t @ c # B) (length A) = Inr (length A + length t)"
  using assms(1)
proof (induction t arbitrary: A)
  case Nil
  then show ?case using assms(2) by (subst line_end.simps) (auto simp: rd_def nth_append)
next
  case (Cons x t)
  from Cons.IH [of "A @ [x]"] Cons.prems show ?case
    by (subst line_end.simps) (auto simp: rd_def nth_append plain_def)
qed

lemma scan_close_text:
  assumes "plain t" "CHR '']'' \<notin> set t"
  shows "scan_close (A @ x # t @ CHR '']'' # B) (length A) = Inr (length A + length t + 1)"
  using assms
proof (induction t arbitrary: A x)
  case Nil
  then show ?case by (subst scan_close.simps) (auto simp: rd_def nth_append ini_char_defs)
next
  case (Cons y t)
  from Cons.IH [of "A @ [x]" y] Cons.prems show ?case
    by (subst scan_close.simps)
       (auto simp: rd_def nth_append plain_def ini_char_defs nth_Cons split: nat.splits)
qed

lemma key_scan_absent:
  assumes "CHR ''='' \<notin> set t" "c \<noteq> CHR ''=''"
  shows "key_scan (A @ t @ c # B) key ns (length A + length t) (length A) = Inr None"
  using assms(1)
proof (induction t arbitrary: A)
  case Nil
  then show ?case by (subst key_scan.simps) auto
next
  case (Cons x t)
  from Cons.IH [of "A @ [x]"] Cons.prems assms(2) show ?case
    by (subst key_scan.simps) (cases t; auto simp: rd_def nth_append)
qed

section \<open>Where the parser stops\<close>

text \<open>
  \<open>locate\<close> is \<open>look\<close> with the lines before and after the one found; \<open>last_section\<close> splits the file
  behind the last matching header and the blank lines that follow it.
\<close>

fun locate :: "char list \<Rightarrow> char list \<Rightarrow> bool \<Rightarrow> ini_line list
    \<Rightarrow> (ini_line list \<times> char list \<times> char list \<times> ini_line list) option" where
  "locate sn key b [] = None"
| "locate sn key b (l # ls) =
     (case l of
        Pair k v \<Rightarrow>
          if b \<and> prefix k key then Some ([], k, v, ls)
          else map_option (\<lambda>(d, r). (l # d, r)) (locate sn key b ls)
      | Header s \<Rightarrow> map_option (\<lambda>(d, r). (l # d, r)) (locate sn key (prefix s sn) ls)
      | Other t \<Rightarrow> map_option (\<lambda>(d, r). (l # d, r)) (locate sn key b ls))"

abbreviation blank :: "ini_line \<Rightarrow> bool" where "blank l \<equiv> l = Other []"

fun is_header :: "ini_line \<Rightarrow> bool" where
  "is_header (Header s) = True"
| "is_header l = False"

fun last_section :: "char list \<Rightarrow> ini_line list \<Rightarrow> (ini_line list \<times> ini_line list) option" where
  "last_section sn [] = None"
| "last_section sn (l # ls) =
     (case last_section sn ls of
        Some (d, e) \<Rightarrow> Some (l # d, e)
      | None \<Rightarrow> (case l of
            Header s \<Rightarrow> if prefix s sn then Some (l # takeWhile blank ls, dropWhile blank ls) else None
          | _ \<Rightarrow> None))"

lemma look_locate: "look sn key b ls = map_option (\<lambda>(d, k, v, e). v) (locate sn key b ls)"
  by (induction sn key b ls rule: look.induct) (auto simp: option.map_comp comp_def case_prod_unfold)

lemma locate_split:
  "locate sn key b ls = Some (d, k, v, e) \<Longrightarrow> ls = d @ Pair k v # e \<and> prefix k key"
  by (induction sn key b ls arbitrary: d rule: locate.induct)
     (auto split: ini_line.splits if_splits)

lemma last_section_split: "last_section sn ls = Some (d, e) \<Longrightarrow> ls = d @ e"
  by (induction sn ls arbitrary: d rule: last_section.induct)
     (auto split: ini_line.splits if_splits option.splits)

lemma locate_append:
  "\<forall>l \<in> set xs. \<not> is_header l \<Longrightarrow> locate sn key b (xs @ ys) =
     (case locate sn key b xs of
        Some (d, k, v, e) \<Rightarrow> Some (d, k, v, e @ ys)
      | None \<Rightarrow> map_option (\<lambda>(d, r). (xs @ d, r)) (locate sn key b ys))"
proof (induction xs)
  case Nil
  then show ?case by (simp add: case_prod_unfold option.map_id0 [unfolded id_def] option.map_ident)
next
  case (Cons l xs)
  then show ?case
    by (cases l) (auto simp: option.map_comp comp_def case_prod_unfold split: option.splits)
qed

lemma last_section_append:
  "\<forall>l \<in> set xs. \<not> is_header l \<Longrightarrow> last_section sn (xs @ ys) =
     map_option (\<lambda>(d, e). (xs @ d, e)) (last_section sn ys)"
proof (induction xs)
  case Nil
  then show ?case by (simp add: case_prod_unfold option.map_ident)
next
  case (Cons l xs)
  then show ?case
    by (cases l) (auto simp: option.map_comp comp_def case_prod_unfold split: option.splits)
qed

section \<open>The loops on a well-formed file\<close>

lemma key_scan_found:
  assumes "CHR ''='' \<notin> set t" "t \<noteq> []" "length A + length t < i"
    "strncmp_eq key (cstr (drop ns (A @ t @ CHR ''='' # B))) (length A + length t - ns) = found"
  shows "key_scan (A @ t @ CHR ''='' # B) key ns i (length A)
    = Inr (if found then Some (length A + length t) else None)"
  using assms
proof (induction t arbitrary: A)
  case Nil
  then show ?case by simp
next
  case (Cons x t)
  show ?case
  proof (cases t)
    case Nil
    with Cons.prems show ?thesis
      by (subst key_scan.simps) (auto simp: rd_def nth_append key_scan.simps [of _ _ _ _ "Suc (length A)"])
  next
    case (Cons y t')
    with Cons.IH [of "A @ [x]"] Cons.prems show ?thesis
      by (subst key_scan.simps) (auto simp: rd_def nth_append)
  qed
qed

lemma cstr_append_plain: "plain s \<Longrightarrow> take (length s) (cstr (s @ r)) = s"
  by (induction s) (auto simp: cstr_def plain_def end_of_string_def)

lemma strncmp_plain:
  assumes "plain s"
  shows "strncmp_eq (cstr (s @ r)) t (length s) \<longleftrightarrow> prefix s t"
    "strncmp_eq t (cstr (s @ r)) (length s) \<longleftrightarrow> prefix s t"
  using cstr_append_plain [OF assms, of r]
  by (auto simp: strncmp_eq_take prefix_def) (metis append_take_drop_id)+

lemma key_scan_pair:
  assumes "line_ok (Pair k v)"
  shows "key_scan (A @ k @ CHR ''='' # B) key (length A) (length A + length k + 1 + length v) (length A)
    = Inr (if prefix k key then Some (length A + length k) else None)"
  using assms by (intro key_scan_found) (auto simp: strncmp_plain)

definition pair_pos :: "nat \<Rightarrow> char list \<Rightarrow> char list \<Rightarrow> nat \<times> nat \<times> nat \<times> nat" where
  "pair_pos i k v = (i, i + length k - 1, i + length k + 1, i + length k + 1 + length v)"

lemma plain_simps [simp]:
  "plain []" "plain (c # s) \<longleftrightarrow> \<not> newline c \<and> \<not> end_of_string c \<and> plain s"
  "plain (s @ t) \<longleftrightarrow> plain s \<and> plain t"
  by (auto simp: plain_def)

lemma line_text_plain: "line_ok l \<Longrightarrow> plain (line_text l)"
  by (cases l) (auto simp: ini_char_defs)

lemma plain_hd: "\<lbrakk>plain s; s \<noteq> []\<rbrakk> \<Longrightarrow> \<not> end_of_string (hd s) \<and> \<not> newline (hd s)"
  by (cases s) auto

lemma line_text_hd:
  assumes "line_ok l" "\<not> is_header l"
  shows "(if line_text l = [] then NL else hd (line_text l)) \<noteq> CHR ''['' \<and>
    \<not> end_of_string (if line_text l = [] then NL else hd (line_text l))"
  using assms plain_hd [OF line_text_plain [OF assms(1)]] by (cases l) (auto simp: hd_append)

lemma lines_loop_step:
  assumes "rd p (i - 1) = Inr a" "rd p i = Inr b" "\<not> left_barce b" "\<not> end_of_string b"
    "line_end p i = Inr e" "(if CHR '';'' \<noteq> b then key_scan p key i e i else Inr None) = Inr r"
  shows "lines_loop p key i = (case r of
     Some j \<Rightarrow> Inr (KeyAt i (j - 1) (j + 1) e) | None \<Rightarrow> lines_loop p key (e + 1))"
  using assms by (subst lines_loop.simps) (simp del: One_nat_def)

lemma lines_loop_render:
  assumes "doc_ok ls" "\<forall>l \<in> set ls. \<not> is_header l" "c = NUL \<or> c = CHR ''[''"
  shows "lines_loop (A @ NL # render ls @ c # B) key (length A + 1) =
    Inr (case locate sn key True ls of
           Some (d, k, v, e) \<Rightarrow>
             (case pair_pos (length A + 1 + length (render d)) k v of (ks, ke, vs, ve) \<Rightarrow> KeyAt ks ke vs ve)
         | None \<Rightarrow> SectionEnd (length A + 1 + length (render ls)))"
  using assms(1,2)
proof (induction ls arbitrary: A)
  case Nil
  then show ?case using assms(3)
    by (subst lines_loop.simps) (auto simp: rd_def nth_append ini_char_defs)
next
  case (Cons l ls)
  have ok: "line_ok l" "doc_ok ls" "\<not> is_header l" "\<forall>l \<in> set ls. \<not> is_header l"
    using Cons.prems by (auto simp: doc_ok_def)
  let ?t = "line_text l"
  let ?p = "A @ NL # render (l # ls) @ c # B"
  have pl: "plain ?t" using line_text_plain [OF ok(1)] .
  have e: "line_end ?p (length A + 1) = Inr (length A + 1 + length ?t)"
    using line_end_text [OF pl, of NL "A @ [NL]" "render ls @ c # B"] by simp
  define b where "b = ?p ! (length A + 1)"
  have b: "b = (if ?t = [] then NL else hd ?t)"
    by (cases ?t) (auto simp: b_def nth_append)
  have ab: "rd ?p (length A) = Inr NL" "rd ?p (length A + 1) = Inr b"
    by (auto simp: rd_def b_def nth_append)
  have nb: "b \<noteq> CHR ''[''" "\<not> end_of_string b"
    using line_text_hd [OF ok(1,3)] unfolding b by auto
  have lenA: "length (A @ NL # ?t) = length A + 1 + length ?t" by simp
  have IH: "lines_loop ?p key (length A + 1 + length ?t + 1) = Inr (case locate sn key True ls of
           Some (d, k, v, e) \<Rightarrow>
             (case pair_pos (length A + 1 + length ?t + 1 + length (render d)) k v of (ks, ke, vs, ve) \<Rightarrow> KeyAt ks ke vs ve)
         | None \<Rightarrow> SectionEnd (length A + 1 + length ?t + 1 + length (render ls)))"
    using Cons.IH [of "A @ NL # ?t", unfolded lenA] ok by simp
  have ks: "(if CHR '';'' \<noteq> b then key_scan ?p key (length A + 1) (length A + 1 + length ?t) (length A + 1)
      else Inr None) = Inr (case l of Pair k v \<Rightarrow> if prefix k key then Some (length A + 1 + length k) else None
        | _ \<Rightarrow> None)"
  proof (cases l)
    case (Header s)
    with ok show ?thesis by simp
  next
    case (Pair k v)
    with ok b have "b \<noteq> CHR '';''" by (auto simp: hd_append)
    with Pair ok key_scan_pair [of k v "A @ [NL]" "v @ NL # render ls @ c # B" key] show ?thesis
      by (simp add: ac_simps)
  next
    case (Other t)
    show ?thesis
    proof (cases "t = [] \<or> hd t = CHR '';''")
      case True
      with Other b show ?thesis by (auto simp: key_scan.simps)
    next
      case False
      with Other ok b key_scan_absent [of t NL "A @ [NL]" "render ls @ c # B" key "length A + 1"]
      show ?thesis by simp
    qed
  qed
  have step: "lines_loop ?p key (length A + 1) =
    (case (case l of Pair k v \<Rightarrow> if prefix k key then Some (length A + 1 + length k) else None | _ \<Rightarrow> None) of
       Some j \<Rightarrow> Inr (KeyAt (length A + 1) (j - 1) (j + 1) (length A + 1 + length ?t))
     | None \<Rightarrow> lines_loop ?p key (length A + 1 + length ?t + 1))"
    by (rule lines_loop_step [OF _ ab(2) _ nb(2) e ks]) (use ab(1) nb(1) in \<open>simp_all add: left_barce_def\<close>)
  show ?case
  proof (cases "locate sn key True ls")
    case None
    with step IH ok show ?thesis by (cases l) (simp_all add: pair_pos_def)
  next
    case (Some r)
    obtain d k v e where "r = (d, k, v, e)" by (cases r)
    with Some step IH ok show ?thesis by (cases l) (simp_all add: pair_pos_def)
  qed
qed

lemma parse_loop_walk:
  assumes "plain t" "A = [] \<or> newline (last A) \<Longrightarrow> t = [] \<or> hd t \<noteq> CHR ''[''"
  shows "parse_loop (A @ t @ NL # B) sn key (length A) sec =
    parse_loop (A @ t @ NL # B) sn key (length A + length t + 1) sec"
  using assms
proof (induction t arbitrary: A)
  case Nil
  then show ?case
    by (subst parse_loop.simps)
       (cases A rule: rev_cases; simp add: rd_def nth_append end_of_string_def left_barce_def)
next
  case (Cons x t)
  have w: "\<not> newline x" "\<not> end_of_string x" "plain t" using Cons.prems by auto
  have s: "A = [] \<or> newline (last A) \<Longrightarrow> \<not> left_barce x" using Cons.prems(2) by (auto simp: left_barce_def)
  have "parse_loop (A @ (x # t) @ NL # B) sn key (length A) sec =
      parse_loop (A @ (x # t) @ NL # B) sn key (length A + 1) sec"
    using w s by (subst parse_loop.simps)
      (cases A rule: rev_cases; auto simp: rd_def nth_append)
  with Cons.IH [of "A @ [x]"] w show ?case by simp
qed

lemma skip_space_run:
  assumes "\<not> isspace c"
  shows "skip_space (A @ replicate n NL @ c # B) (length A) = Inr (length A + n)"
proof (induction n arbitrary: A)
  case 0
  then show ?case using assms by (subst skip_space.simps) (auto simp: rd_def nth_append)
next
  case (Suc n)
  from Suc [of "A @ [NL]"] show ?case
    by (subst skip_space.simps) (auto simp: rd_def nth_append)
qed

lemma render_blanks: "\<forall>l \<in> set ls. blank l \<Longrightarrow> render ls = replicate (length ls) NL"
  by (induction ls) auto

lemma render_hd:
  assumes "doc_ok ls" "ls = [] \<or> \<not> blank (hd ls)"
  obtains c B' where "render ls @ NUL # B = c # B'" "\<not> isspace c"
proof (cases ls)
  case Nil
  with that show ?thesis by simp
next
  case (Cons l ls')
  with assms have l: "line_ok l" "\<not> blank l" by (auto simp: doc_ok_def)
  then have "line_text l \<noteq> []" "\<not> isspace (hd (line_text l))"
    by (cases l; auto simp: isspace_def)+
  with that Cons show ?thesis by (cases "line_text l") auto
qed

lemma doc_ok_append [simp]: "doc_ok (xs @ ys) \<longleftrightarrow> doc_ok xs \<and> doc_ok ys"
  "doc_ok (l # ls) \<longleftrightarrow> line_ok l \<and> doc_ok ls" "doc_ok []"
  by (auto simp: doc_ok_def)

lemma locate_at_header:
  "ls = [] \<or> is_header (hd ls) \<Longrightarrow> locate sn key b ls = locate sn key b' ls"
  by (cases ls; cases "hd ls") auto

lemma locate_inactive: "\<forall>l \<in> set ls. \<not> is_header l \<Longrightarrow> locate sn key False ls = None"
proof (induction ls)
  case (Cons l ls)
  then show ?case by (cases l) auto
qed simp

lemma parse_loop_bracket:
  assumes "rd p i = Inr (CHR ''['')" "i = 0 \<or> (\<exists>a. rd p (i - 1) = Inr a \<and> newline a)" "scan_close p i = Inr j"
  shows "parse_loop p sn key i sec =
    (if strncmp_eq (cstr (drop (i + 1) p)) sn (j - (i + 1)) then
       andThen (skip_space p (j + 1)) (\<lambda>k. andThen (lines_loop p key k) (\<lambda>r. case r of
           KeyAt ks ke vs ve \<Rightarrow> Inr \<lparr>sec_pos = Some (i + 1, k), key_pos = Some (ks, ke, vs, ve)\<rparr>
         | SectionEnd m \<Rightarrow> parse_loop p sn key m (Some (i + 1, k))))
     else parse_loop p sn key j sec)"
proof -
  have "(if i = 0 then Inr True else andThen (rd p (i - 1)) (\<lambda>a. Inr (newline a))) = Inr True"
    using assms(2) by auto
  with assms(1,3) show ?thesis
    by (subst parse_loop.simps) (simp add: Let_def left_barce_def end_of_string_def del: One_nat_def)
qed

lemma parse_loop_header:
  fixes A s B
  defines "p \<equiv> A @ ''['' @ s @ '']'' @ NL # B"
  assumes "line_ok (Header s)" "A = [] \<or> newline (last A)"
  shows "parse_loop p sn key (length A) sec =
    (if prefix s sn then
       andThen (skip_space p (length A + length s + 2)) (\<lambda>k. andThen (lines_loop p key k) (\<lambda>r. case r of
           KeyAt ks ke vs ve \<Rightarrow> Inr \<lparr>sec_pos = Some (length A + 1, k), key_pos = Some (ks, ke, vs, ve)\<rparr>
         | SectionEnd m \<Rightarrow> parse_loop p sn key m (Some (length A + 1, k))))
     else parse_loop p sn key (length A + length s + 3) sec)"
proof -
  have s: "plain s" "CHR '']'' \<notin> set s" using assms(2) by auto
  have c: "rd p (length A) = Inr (CHR ''['')" by (simp add: rd_def p_def)
  have a: "length A = 0 \<or> (\<exists>a. rd p (length A - 1) = Inr a \<and> newline a)"
    using assms(3) by (cases A rule: rev_cases) (auto simp: rd_def nth_append p_def)
  have j: "scan_close p (length A) = Inr (length A + length s + 1)"
    using scan_close_text [OF s, of A "CHR ''[''" "NL # B"] by (simp add: p_def)
  have m: "strncmp_eq (cstr (drop (length A + 1) p)) sn (length A + length s + 1 - (length A + 1)) \<longleftrightarrow> prefix s sn"
    using strncmp_plain(1) [OF s(1), of "CHR '']'' # NL # B" sn] by (simp add: p_def)
  have w: "parse_loop p sn key (length A + length s + 1) sec = parse_loop p sn key (length A + length s + 3) sec"
    using parse_loop_walk [of "'']''" "A @ CHR ''['' # s" B sn key sec] s
    by (cases s rule: rev_cases) (auto simp: ini_char_defs eval_nat_numeral p_def)
  have n: "length A + length s + 1 + 1 = length A + length s + 2" by simp
  show ?thesis unfolding parse_loop_bracket [OF c a j] m n w ..
qed

definition parse_matches :: "char list \<Rightarrow> char list \<Rightarrow> nat \<Rightarrow> ini_line list \<Rightarrow> nat option \<Rightarrow> ini_pos \<Rightarrow> bool" where
  "parse_matches sn key i ls sec r \<longleftrightarrow>
     key_pos r = map_option (\<lambda>(d, k, v, e). pair_pos (i + length (render d)) k v) (locate sn key False ls) \<and>
     (if locate sn key False ls = None
      then map_option snd (sec_pos r) =
        (case last_section sn ls of Some (d, e) \<Rightarrow> Some (i + length (render d)) | None \<Rightarrow> sec)
      else sec_pos r \<noteq> None)"

lemma locate_blanks: "\<forall>l \<in> set bs. blank l \<Longrightarrow> locate sn key b bs = None"
  by (induction bs) auto

lemma split_lines:
  obtains bs body rest where "ls = bs @ body @ rest" "bs = takeWhile blank ls"
    "\<forall>l \<in> set bs. blank l" "\<forall>l \<in> set body. \<not> is_header l" "rest = [] \<or> is_header (hd rest)"
    "body @ rest = [] \<or> \<not> blank (hd (body @ rest))"
proof -
  define r where "r = dropWhile blank ls"
  let ?body = "takeWhile (\<lambda>l. \<not> is_header l) r" and ?rest = "dropWhile (\<lambda>l. \<not> is_header l) r"
  have r: "?body @ ?rest = r" by (rule takeWhile_dropWhile_id)
  have "ls = takeWhile blank ls @ ?body @ ?rest" unfolding r unfolding r_def by (rule takeWhile_dropWhile_id [symmetric])
  moreover have "?body @ ?rest = [] \<or> \<not> blank (hd (?body @ ?rest))"
    unfolding r unfolding r_def using hd_dropWhile by blast
  moreover have "?rest = [] \<or> is_header (hd ?rest)" using hd_dropWhile by blast
  ultimately show ?thesis
    using that [of "takeWhile blank ls" ?body ?rest] by (auto dest: set_takeWhileD)
qed

lemma parse_matches_skip:
  assumes "parse_matches sn key (i + length (line_text l) + 1) ls sec r"
    "case l of Header s \<Rightarrow> \<not> prefix s sn | _ \<Rightarrow> True"
  shows "parse_matches sn key i (l # ls) sec r"
  using assms
  by (cases l) (auto simp: parse_matches_def option.map_comp comp_def case_prod_unfold
      ac_simps split: option.splits)

lemma no_header_blank: "\<forall>l \<in> set bs. blank l \<Longrightarrow> \<forall>l \<in> set bs. \<not> is_header l"
  by auto

lemma locate_parts:
  assumes "\<forall>l \<in> set bs. blank l" "\<forall>l \<in> set body. \<not> is_header l" "rest = [] \<or> is_header (hd rest)"
  shows "locate sn key True (bs @ body @ rest) =
    (case locate sn key True body of
       Some (d, k, v, e) \<Rightarrow> Some (bs @ d, k, v, e @ rest)
     | None \<Rightarrow> map_option (\<lambda>(d, r). (bs @ body @ d, r)) (locate sn key False rest))"
  unfolding locate_append [OF no_header_blank [OF assms(1)]] locate_append [OF assms(2)]
    locate_blanks [OF assms(1)] locate_at_header [OF assms(3), of sn key True False]
  by (cases "locate sn key True body"; cases "locate sn key False rest") auto

lemma last_section_parts:
  assumes "\<forall>l \<in> set bs. blank l" "\<forall>l \<in> set body. \<not> is_header l"
  shows "last_section sn (bs @ body @ rest) =
    map_option (\<lambda>(d, e). (bs @ body @ d, e)) (last_section sn rest)"
  unfolding last_section_append [OF no_header_blank [OF assms(1)]] last_section_append [OF assms(2)]
  by (cases "last_section sn rest") auto

lemma parse_matches_found:
  assumes "prefix s sn" "locate sn key True ls = Some (d, k, v, e)"
    "key_pos r = Some (pair_pos (i + length (render (Header s # d))) k v)" "sec_pos r \<noteq> None"
  shows "parse_matches sn key i (Header s # ls) sec r"
  using assms by (simp add: parse_matches_def)

lemma parse_matches_next:
  assumes "prefix s sn" and parts: "\<forall>l \<in> set bs. blank l" "\<forall>l \<in> set body. \<not> is_header l"
    "rest = [] \<or> is_header (hd rest)" and bs: "bs = takeWhile blank (bs @ body @ rest)"
    and none: "locate sn key True body = None"
    and m: "parse_matches sn key (i + length (render (Header s # bs @ body))) rest
       (Some (i + length (render (Header s # bs)))) r"
  shows "parse_matches sn key i (Header s # bs @ body @ rest) sec r"
proof -
  have l: "locate sn key False (Header s # bs @ body @ rest) =
      map_option (\<lambda>(d, r). (Header s # bs @ body @ d, r)) (locate sn key False rest)"
    using assms(1) by (simp add: locate_parts [OF parts] none option.map_comp comp_def case_prod_unfold)
  have t: "last_section sn (Header s # bs @ body @ rest) = Some (case last_section sn rest of
      Some (d, e) \<Rightarrow> (Header s # bs @ body @ d, e)
    | None \<Rightarrow> (Header s # bs, dropWhile blank (bs @ body @ rest)))"
    using assms(1) by (simp add: last_section_parts [OF parts(1,2)] bs [symmetric] split: option.splits)
  show ?thesis
    using m unfolding parse_matches_def l t
    by (cases "locate sn key False rest"; cases "last_section sn rest") (simp_all add: case_prod_unfold add.assoc)
qed

lemma at_line_start: "A = [] \<or> newline (last A) \<Longrightarrow> A @ t @ [NL] = [] \<or> newline (last (A @ t @ [NL]))"
  by simp

lemma lines_after_header:
  assumes "doc_ok (body @ rest)" "\<forall>l \<in> set body. \<not> is_header l" "rest = [] \<or> is_header (hd rest)"
  shows "lines_loop (A @ NL # render body @ render rest @ NUL # q) key (length A + 1) =
    Inr (case locate sn key True body of
           Some (d, k, v, e) \<Rightarrow>
             (case pair_pos (length A + 1 + length (render d)) k v of (ks, ke, vs, ve) \<Rightarrow> KeyAt ks ke vs ve)
         | None \<Rightarrow> SectionEnd (length A + 1 + length (render body)))"
proof -
  obtain c B where cB: "render rest @ NUL # q = c # B" "c = NUL \<or> c = CHR ''[''"
  proof (cases rest)
    case (Cons h t)
    with assms(3) obtain s where "h = Header s" by (cases h) auto
    with Cons that show ?thesis by simp
  qed simp
  from lines_loop_render [OF _ assms(2) cB(2), of A B key sn] assms(1) show ?thesis
    by (simp add: cB(1))
qed

lemma skip_blanks:
  assumes "doc_ok ls" "bs = takeWhile blank ls" "ls = bs @ later" "later = [] \<or> \<not> blank (hd later)"
  shows "skip_space (A @ NL # render ls @ NUL # q) (length A) = Inr (length A + 1 + length bs)"
proof -
  have "\<forall>l \<in> set bs. blank l" unfolding assms(2) by (auto dest: set_takeWhileD)
  then have r: "render bs = replicate (length bs) NL" by (rule render_blanks)
  have "doc_ok later" using assms(1) unfolding assms(3) by simp
  then obtain c B where c: "render later @ NUL # q = c # B" "\<not> isspace c"
    using assms(4) by (rule render_hd)
  have "A @ NL # render ls @ NUL # q = A @ replicate (Suc (length bs)) NL @ c # B"
    unfolding assms(3) by (simp add: r c(1))
  with skip_space_run [OF c(2), of A "Suc (length bs)" B] show ?thesis by simp
qed

lemma last_render: "render ls \<noteq> [] \<Longrightarrow> newline (last (render ls))"
  by (cases ls rule: rev_cases) auto

lemma parse_loop_render:
  assumes "doc_ok ls" "A = [] \<or> newline (last A)"
  shows "\<exists>r. parse_loop (A @ render ls @ NUL # q) sn key (length A) sec = Inr r \<and>
    parse_matches sn key (length A) ls (map_option snd sec) r"
  using assms
proof (induction "length ls" arbitrary: ls A sec rule: less_induct)
  case less
  show ?case
  proof (cases ls)
    case Nil
    then show ?thesis
      by (subst parse_loop.simps) (simp add: rd_def nth_append parse_matches_def)
  next
    case (Cons l ls')
    have ok: "line_ok l" "doc_ok ls'" using less.prems(1) Cons by auto
    let ?p = "A @ render ls @ NUL # q"
    have next_line: "\<exists>r. parse_loop ?p sn key (length A + length (line_text l) + 1) sec = Inr r \<and>
        parse_matches sn key (length A + length (line_text l) + 1) ls' (map_option snd sec) r"
      using less.hyps [of ls' "A @ line_text l @ [NL]" sec] ok Cons by simp
    consider (plain) "\<not> is_header l" | (other) s where "l = Header s" "\<not> prefix s sn"
      | (sec) s where "l = Header s" "prefix s sn"
      by (cases l) auto
    then show ?thesis
    proof cases
      case plain
      have "parse_loop ?p sn key (length A) sec = parse_loop ?p sn key (length A + length (line_text l) + 1) sec"
        using parse_loop_walk [of "line_text l" A "render ls' @ NUL # q" sn key sec]
          line_text_plain [OF ok(1)] line_text_hd [OF ok(1) plain] Cons by (auto split: if_splits)
      moreover have "case l of Header s \<Rightarrow> \<not> prefix s sn | _ \<Rightarrow> True" using plain by (cases l) auto
      ultimately show ?thesis unfolding Cons using next_line [unfolded Cons] parse_matches_skip by metis
    next
      case other
      have "parse_loop ?p sn key (length A) sec = parse_loop ?p sn key (length A + length (line_text l) + 1) sec"
        using parse_loop_header [of s A "render ls' @ NUL # q" sn key sec] other Cons ok less.prems(2)
        by (simp add: eval_nat_numeral)
      moreover have "case l of Header s \<Rightarrow> \<not> prefix s sn | _ \<Rightarrow> True" using other by simp
      ultimately show ?thesis unfolding Cons using next_line [unfolded Cons] parse_matches_skip by metis
    next
      case sec
      obtain bs body rest where ls': "ls' = bs @ body @ rest" and bs: "bs = takeWhile blank ls'"
        and parts: "\<forall>l \<in> set bs. blank l" "\<forall>l \<in> set body. \<not> is_header l" "rest = [] \<or> is_header (hd rest)"
        and later: "body @ rest = [] \<or> \<not> blank (hd (body @ rest))"
        by (rule split_lines)
      define A2 where "A2 = A @ ''['' @ s @ '']'' @ replicate (length bs) NL"
      define k where "k = length A + length (render (Header s # bs))"
      have rb: "render bs = replicate (length bs) NL" by (rule render_blanks) (fact parts(1))
      have lA2: "length A2 + 1 = k" by (simp add: A2_def k_def rb)
      have p2: "?p = A2 @ NL # render body @ render rest @ NUL # q"
        by (simp add: Cons sec ls' A2_def rb replicate_append_same)
      have p1: "?p = A @ ''['' @ s @ '']'' @ NL # render ls' @ NUL # q" by (simp add: Cons sec)
      have "skip_space ?p (length A + length s + 2) = Inr k"
        using skip_blanks [OF ok(2) bs ls' later, of "A @ ''['' @ s @ '']''" q] Cons sec
        by (simp add: k_def rb eval_nat_numeral)
      then have run: "parse_loop ?p sn key (length A) sec = andThen (lines_loop ?p key k) (\<lambda>r. case r of
           KeyAt ks ke vs ve \<Rightarrow> Inr \<lparr>sec_pos = Some (length A + 1, k), key_pos = Some (ks, ke, vs, ve)\<rparr>
         | SectionEnd m \<Rightarrow> parse_loop ?p sn key m (Some (length A + 1, k)))"
        using parse_loop_header [OF ok(1) [unfolded sec(1)] less.prems(2),
            of "render ls' @ NUL # q" sn key sec, folded p1] sec(2)
        by (simp only: if_True andThen.simps)
      have ok': "doc_ok (body @ rest)" using ok(2) by (simp add: ls')
      note ll = lines_after_header [OF ok' parts(2,3), of A2 q key sn, folded p2, unfolded lA2]
      show ?thesis
      proof (cases "locate sn key True body")
        case None
        define A3 where "A3 = A2 @ NL # render body"
        have A3: "length A3 = k + length (render body)" "A3 = [] \<or> newline (last A3)"
          by (simp_all add: A3_def lA2 [symmetric] last_render)
        have p3: "?p = A3 @ render rest @ NUL # q" by (simp add: p2 A3_def)
        from ok' have "doc_ok rest" by simp
        then obtain r where
          r: "parse_loop ?p sn key (k + length (render body)) (Some (length A + 1, k)) = Inr r"
            "parse_matches sn key (k + length (render body)) rest (Some k) r"
          using less.hyps [of rest A3 "Some (length A + 1, k)"] A3 unfolding p3
          by (auto simp: Cons ls')
        have "parse_matches sn key (length A) (Header s # bs @ body @ rest) (map_option snd sec) r"
        proof (rule parse_matches_next [OF sec(2) parts bs [unfolded ls'] None])
          have "length A + length (render (Header s # bs @ body)) = k + length (render body)"
            by (simp add: k_def)
          with r(2) show "parse_matches sn key (length A + length (render (Header s # bs @ body))) rest
              (Some (length A + length (render (Header s # bs)))) r"
            by (simp only: k_def)
        qed
        moreover have "parse_loop ?p sn key (length A) sec = Inr r"
          using run r(1) by (simp only: ll None option.case andThen.simps line_result.case)
        ultimately show ?thesis unfolding Cons sec(1) ls' by blast
      next
        case (Some f)
        obtain d k' v e where f: "f = (d, k', v, e)" by (cases f)
        have "locate sn key True ls' = Some (bs @ d, k', v, e @ rest)"
          unfolding ls' locate_parts [OF parts] by (simp add: Some f)
        then have "parse_matches sn key (length A) (Header s # ls') (map_option snd sec)
            \<lparr>sec_pos = Some (length A + 1, k), key_pos = Some (pair_pos (k + length (render d)) k' v)\<rparr>"
          by (rule parse_matches_found [OF sec(2)]) (simp_all add: k_def add.assoc)
        moreover have "parse_loop ?p sn key (length A) sec =
            Inr \<lparr>sec_pos = Some (length A + 1, k), key_pos = Some (pair_pos (k + length (render d)) k' v)\<rparr>"
          using run by (simp only: ll Some f option.case prod.case pair_pos_def andThen.simps line_result.case)
        ultimately show ?thesis unfolding Cons sec(1) by blast
      qed
    qed
  qed
qed

section \<open>Update of the list of lines\<close>

definition put :: "char list \<Rightarrow> char list \<Rightarrow> char list \<Rightarrow> ini_line list \<Rightarrow> ini_line list" where
  "put sn key v ls =
     (case locate sn key False ls of
        Some (d, k, v', e) \<Rightarrow> d @ Pair k v # e
      | None \<Rightarrow>
         (case last_section sn ls of
            Some (d, e) \<Rightarrow> d @ Pair key v # e
          | None \<Rightarrow> (if ls = [] then [] else ls @ [Other []]) @ [Header sn, Pair key v]))"

lemma locate_update:
  "locate sn key b ls = Some (d, k, v, e) \<Longrightarrow> locate sn key b (d @ Pair k v' # e) = Some (d, k, v', e)"
  by (induction sn key b ls arbitrary: d rule: locate.induct)
     (auto split: ini_line.splits if_splits)

lemma look_blanks: "look sn key b (takeWhile blank ls @ r) = look sn key b r"
  by (induction ls) auto

lemma look_insert:
  "\<lbrakk>last_section sn ls = Some (d, e); look sn key b ls = None\<rbrakk> \<Longrightarrow>
     look sn key b (d @ Pair key v # e) = Some v"
proof (induction sn key b ls arbitrary: d rule: look.induct)
  case (2 sn key b s ls)
  then show ?case
    by (auto split: option.splits if_splits simp: look_blanks)
qed (auto split: option.splits if_splits)

lemma look_append_section:
  "look sn key b ls = None \<Longrightarrow> look sn key b (ls @ Other [] # [Header sn, Pair key v]) = Some v"
  by (induction sn key b ls rule: look.induct) (auto split: if_splits)

lemma look_put: "look sn key False (put sn key v ls) = Some v"
proof (cases "locate sn key False ls")
  case None
  then have n: "look sn key False ls = None" by (simp add: look_locate)
  show ?thesis
    using look_insert [OF _ n] look_append_section [OF n] None
    by (auto simp: put_def split: option.splits)
next
  case (Some f)
  obtain d k v' e where "f = (d, k, v', e)" by (cases f)
  with Some locate_update [OF Some [unfolded this]] show ?thesis
    by (simp add: put_def look_locate)
qed

lemma look_replaced:
  "\<not> prefix k key' \<Longrightarrow> look sn' key' b (d @ Pair k v' # e) = look sn' key' b (d @ Pair k v # e)"
  by (induction sn' key' b d rule: look.induct) auto

lemma look_inserted: "\<not> prefix k key' \<Longrightarrow> look sn' key' b (d @ Pair k v # e) = look sn' key' b (d @ e)"
  by (induction sn' key' b d rule: look.induct) auto

lemma look_put_other:
  assumes "\<not> prefix key key'" "\<And>k v'. \<lbrakk>Pair k v' \<in> set ls; prefix k key\<rbrakk> \<Longrightarrow> \<not> prefix k key'"
  shows "look sn' key' False (put sn key v ls) = look sn' key' False ls"
proof (cases "locate sn key False ls")
  case None
  note k = assms(1)
  have a: "look sn' key' b (ls @ Other [] # [Header sn, Pair key v]) = look sn' key' b ls" for b
    using look_inserted [OF k, of sn' b "ls @ [Other [], Header sn]" v "[]"]
    by (induction sn' key' b ls rule: look.induct) (auto simp: k)
  show ?thesis
  proof (cases "last_section sn ls")
    case None
    with \<open>locate sn key False ls = None\<close> a [of False] k show ?thesis by (simp add: put_def)
  next
    case (Some de)
    obtain d e where de: "de = (d, e)" by (cases de)
    with last_section_split [of sn ls d e] Some have "ls = d @ e" by simp
    with \<open>locate sn key False ls = None\<close> Some de look_inserted [OF k] show ?thesis
      by (simp add: put_def)
  qed
next
  case (Some f)
  obtain d k v' e where f: "f = (d, k, v', e)" by (cases f)
  with Some locate_split [of sn key False ls d k v' e] have s: "ls = d @ Pair k v' # e" "prefix k key" by auto
  with assms(2) [of k v'] have "\<not> prefix k key'" by simp
  with look_replaced [OF this] Some f s show ?thesis by (simp add: put_def)
qed

lemma put_ok:
  assumes "doc_ok ls" "line_ok (Header sn)" "line_ok (Pair key v)"
  shows "doc_ok (put sn key v ls)"
proof (cases "locate sn key False ls")
  case None
  show ?thesis
  proof (cases "last_section sn ls")
    case None
    with \<open>locate sn key False ls = None\<close> assms show ?thesis by (auto simp: put_def)
  next
    case (Some de)
    obtain d e where de: "de = (d, e)" by (cases de)
    with last_section_split [of sn ls d e] Some have "ls = d @ e" by simp
    with \<open>locate sn key False ls = None\<close> Some de assms show ?thesis by (simp add: put_def)
  qed
next
  case (Some f)
  obtain d k v' e where f: "f = (d, k, v', e)" by (cases f)
  with Some locate_split [of sn key False ls d k v' e] have "ls = d @ Pair k v' # e" by auto
  with Some f assms show ?thesis by (auto simp: put_def)
qed

section \<open>The functions of the file on a well-formed file\<close>

lemma file_text_plain: "CHR 0xFF \<notin> set s \<Longrightarrow> file_text s = s"
  by (auto simp: file_text_def)

lemma render_no_NUL: "doc_ok ls \<Longrightarrow> NUL \<notin> set (render ls)"
proof (induction ls)
  case (Cons l ls)
  then have "plain (line_text l)" by (simp add: line_text_plain)
  with Cons show ?case by (auto simp: plain_def end_of_string_def)
qed simp

lemma cstr_NUL: "NUL \<notin> set s \<Longrightarrow> cstr (s @ NUL # r) = s" "NUL \<notin> set s \<Longrightarrow> cstr s = s"
  by (auto simp: cstr_def takeWhile_append)

lemma load_render:
  assumes "files file = Some (render ls)" "CHR 0xFF \<notin> set (render ls)" "length (render ls) < MAX_FILE_SIZE"
  obtains q where "load_ini_file files file (replicate MAX_FILE_SIZE NUL) =
      Inr (Some (render ls @ NUL # q, length (render ls)))" "\<forall>c \<in> set q. c = NUL"
proof -
  have t: "file_text (render ls) = render ls" using assms(2) by (rule file_text_plain)
  have "replicate (MAX_FILE_SIZE - length (render ls)) NUL =
      NUL # replicate (MAX_FILE_SIZE - length (render ls) - 1) NUL"
    using assms(3) by (cases "MAX_FILE_SIZE - length (render ls)") auto
  with load_ini_file_eq [of files "file" "render ls"] assms(1) t assms(3) that show ?thesis by simp
qed

lemma parse_render:
  assumes "doc_ok ls" "sn \<noteq> []" "key \<noteq> []"
  obtains r where "parse_file sn key (render ls @ NUL # q) = Inr r" "parse_matches sn key 0 ls None r"
  using parse_loop_render [OF assms(1), of "[]" q sn key None] assms(2,3) that
  by (auto simp: parse_file_def)

lemma read_profile_string_doc:
  assumes "doc_ok ls" "files file = Some (render ls)" "CHR 0xFF \<notin> set (render ls)"
    "length (render ls) < MAX_FILE_SIZE" "section \<noteq> []" "key \<noteq> []" "0 < n" "nat n \<le> length value"
  shows "read_profile_string files section key value n default_value file =
    Inr (case look section key False ls of
           Some v \<Rightarrow> (1, strncpy (take (nat n - 1) v) (nat n) @ drop (nat n) value)
         | None \<Rightarrow> (0, case default_value of None \<Rightarrow> value
                       | Some d \<Rightarrow> strncpy d (nat n) @ drop (nat n) value))"
proof -
  obtain q where l: "load_ini_file files file (replicate MAX_FILE_SIZE NUL) =
      Inr (Some (render ls @ NUL # q, length (render ls)))"
    using load_render [of files "file" ls] assms(2-4) by metis
  obtain r where p: "parse_file section key (render ls @ NUL # q) = Inr r"
    and m: "parse_matches section key 0 ls None r"
    using parse_render [OF assms(1,5,6)] by blast
  show ?thesis
  proof (cases "locate section key False ls")
    case None
    with m have "key_pos r = None" by (simp add: parse_matches_def)
    with None assms(5-8) l p show ?thesis
      by (simp add: read_profile_string_def Let_def look_locate split: option.splits)
  next
    case (Some f)
    obtain d k v e where f: "f = (d, k, v, e)" by (cases f)
    have ls: "ls = d @ Pair k v # e" using locate_split Some f by blast
    have kp: "key_pos r = Some (pair_pos (length (render d)) k v)"
      using m Some f by (simp add: parse_matches_def)
    have v: "take (min (nat n - 1) (length v)) (v @ u) = take (nat n - 1) v" for u
      by (cases "nat n - 1 \<le> length v") (auto simp: min_def)
    have "nat n - min (nat n - 1) (length v) + length (take (nat n - 1) v) = nat n"
      using assms(7) by simp
    then have "strncpy (take (nat n - 1) v) (nat n) =
        take (nat n - 1) v @ replicate (nat n - min (nat n - 1) (length v)) NUL"
      by (simp add: strncpy_def min.commute)
    with Some f kp assms(5-8) l p v show ?thesis
      by (simp add: read_profile_string_def Let_def look_locate pair_pos_def ls)
  qed
qed

text \<open>
  C9. Reading a well-formed file is looking the key up in its list of lines: on the bytes of any
  list of headers, pairs, comments and other lines, \<^verbatim>\<open>read_profile_string\<close> returns 1 and the value,
  cut to the buffer and padded with NULs, of the first pair whose key is a prefix of the key asked
  for in a section whose name is a prefix of the section asked for, and 0 and the default if there
  is none.
\<close>

theorem read_profile_string_lookup:
  assumes "doc_ok ls" "files file = Some (render ls)" "CHR 0xFF \<notin> set (render ls)"
    "length (render ls) < MAX_FILE_SIZE" "section \<noteq> []" "key \<noteq> []" "0 < n" "nat n \<le> length value"
  shows "read_profile_string files section key value n default_value file =
    Inr (case look section key False ls of
           Some v \<Rightarrow> (1, strncpy (take (nat n - 1) v) (nat n) @ drop (nat n) value)
         | None \<Rightarrow> (0, case default_value of None \<Rightarrow> value
                       | Some d \<Rightarrow> strncpy d (nat n) @ drop (nat n) value))"
  using assms by (rule read_profile_string_doc)

theorem read_profile_string_lookup_witness:
  "read_profile_string (\<lambda>_. Some (render [Header ''Coin'', Other '';x'', Pair ''Mode'' ''7'']))
     ''Coin'' ''Mode'' (replicate 8 (CHR ''u'')) 4 None ''f'' = Inr (1, [CHR ''7'', NUL, NUL, NUL] @ ''uuuu'')"
  using read_profile_string_lookup [of "[Header ''Coin'', Other '';x'', Pair ''Mode'' ''7'']"
      "\<lambda>_. Some (render [Header ''Coin'', Other '';x'', Pair ''Mode'' ''7''])" "''f''" "''Coin''" "''Mode''" 4
      "replicate 8 (CHR ''u'')" None]
  by (simp add: doc_ok_def ini_char_defs isspace_def MAX_FILE_SIZE_def strncpy_def eval_nat_numeral)

lemma new_contents_put:
  assumes "doc_ok ls" "parse_matches sn key 0 ls None r" "plain sn" "plain key" "plain v"
    "length (render (put sn key v ls)) < MAX_FILE_SIZE" "CHR ''%'' \<notin> set (render ls)" "\<forall>c \<in> set q. c = NUL"
  shows "new_contents (render ls @ NUL # q) (length (render ls)) r sn key v = Inr (render (put sn key v ls))"
proof (cases "locate sn key False ls")
  case loc: None
  then have kp: "key_pos r = None" and sp: "map_option snd (sec_pos r) =
      (case last_section sn ls of Some (d, e) \<Rightarrow> Some (length (render d)) | None \<Rightarrow> None)"
    using assms(2) by (simp_all add: parse_matches_def split: option.splits prod.splits)
  have nn: "NUL \<notin> set (section_text sn key v)" "NUL \<notin> set key" "NUL \<notin> set v"
    using assms(3-5) by (auto simp: section_text_def plain_def end_of_string_def)
  show ?thesis
  proof (cases "last_section sn ls")
    case None
    with sp have "sec_pos r = None" by simp
    moreover have "render ls = [] \<longleftrightarrow> ls = []" by (cases ls) auto
    moreover have "render (put sn key v ls) = (if ls = [] then [] else render ls @ [NL]) @ section_text sn key v"
      by (simp add: put_def loc None section_text_def)
    ultimately show ?thesis
      using assms(6) nn render_no_NUL [OF assms(1)] by (auto simp: new_contents_def Let_def cstr_NUL)
  next
    case (Some de)
    obtain d e where de: "de = (d, e)" by (cases de)
    with last_section_split Some have ls: "ls = d @ e" by blast
    from sp Some de obtain i where s: "sec_pos r = Some (i, length (render d))" by auto
    have ok: "doc_ok d" "doc_ok e" using assms(1) ls by auto
    have c: "cstr (render e @ NUL # q) = render e" by (rule cstr_NUL) (rule render_no_NUL [OF ok(2)])
    have w: "render (put sn key v ls) = render d @ key @ CHR ''='' # v @ NL # render e"
      by (simp add: put_def loc Some de)
    then have "NUL \<notin> set (render d @ key @ CHR ''='' # v @ NL # render e)"
      using nn render_no_NUL ok by auto
    with s kp w c assms(6,7) show ?thesis
      by (simp add: new_contents_def Let_def ls cstr_NUL)
  qed
next
  case (Some f)
  obtain d k v' e where f: "f = (d, k, v', e)" by (cases f)
  have ls: "ls = d @ Pair k v' # e" using locate_split Some f by blast
  have kp: "key_pos r = Some (pair_pos (length (render d)) k v')" "sec_pos r \<noteq> None"
    using assms(2) Some f by (auto simp: parse_matches_def)
  have w: "render (put sn key v ls) = render d @ k @ CHR ''='' # v @ NL # render e"
    by (simp add: put_def Some f)
  have "NUL \<notin> set (render d @ k @ CHR ''='' # v @ NL # render e)"
    using render_no_NUL [OF assms(1)] assms(5) by (auto simp: ls plain_def end_of_string_def)
  with kp w assms(6) show ?thesis
    by (auto simp: new_contents_def Let_def ls pair_pos_def cstr_NUL)
qed

lemma write_profile_string_doc:
  assumes "doc_ok ls" "files file = Some (render ls)" "CHR 0xFF \<notin> set (render ls)"
    "length (render ls) < MAX_FILE_SIZE" "CHR ''%'' \<notin> set (render ls)"
    "section \<noteq> []" "key \<noteq> []" "plain section" "plain key" "plain value"
    "length (render (put section key value ls)) < MAX_FILE_SIZE"
  shows "write_profile_string True (\<lambda>w. (True, w)) files section key value file =
    Inr (1, files(file \<mapsto> render (put section key value ls)))"
proof -
  obtain q where l: "load_ini_file files file (replicate MAX_FILE_SIZE NUL) =
      Inr (Some (render ls @ NUL # q, length (render ls)))" and q: "\<forall>c \<in> set q. c = NUL"
    using load_render [of files "file" ls] assms(2-4) by metis
  obtain r where p: "parse_file section key (render ls @ NUL # q) = Inr r"
    and m: "parse_matches section key 0 ls None r"
    using parse_render [OF assms(1,6,7)] by blast
  from new_contents_put [OF assms(1) m assms(8-11,5) q] l p assms(6,7) show ?thesis
    by (simp add: write_profile_string_def)
qed

text \<open>
  C10. Writing a value updates the list of lines: on the bytes of a well-formed file (or a missing
  one) without a percent sign, \<^verbatim>\<open>write_profile_string\<close> leaves the bytes of the same list with the
  value of the matching pair replaced, or else the pair added right after the last matching header,
  or else a new section at the end; and it returns 1.
\<close>

theorem write_profile_string_put:
  assumes "doc_ok ls" "files file = Some (render ls)" "CHR 0xFF \<notin> set (render ls)"
    "length (render ls) < MAX_FILE_SIZE" "CHR ''%'' \<notin> set (render ls)"
    "section \<noteq> []" "key \<noteq> []" "plain section" "plain key" "plain value"
    "length (render (put section key value ls)) < MAX_FILE_SIZE"
  shows "write_profile_string True (\<lambda>w. (True, w)) files section key value file =
    Inr (1, files(file \<mapsto> render (put section key value ls)))"
  using assms by (rule write_profile_string_doc)

theorem write_profile_string_put_witness:
  "write_profile_string True (\<lambda>w. (True, w)) (\<lambda>_. Some (render [Header ''S'', Pair ''a'' ''1'']))
     ''S'' ''a'' ''25'' ''f'' =
   Inr (1, (\<lambda>_. Some (render [Header ''S'', Pair ''a'' ''1'']))(''f'' \<mapsto> render [Header ''S'', Pair ''a'' ''25'']))"
  using write_profile_string_put [of "[Header ''S'', Pair ''a'' ''1'']"
      "\<lambda>_. Some (render [Header ''S'', Pair ''a'' ''1''])" "''f''" "''S''" "''a''" "''25''"]
  by (simp add: doc_ok_def ini_char_defs isspace_def MAX_FILE_SIZE_def put_def)

text \<open>
  C11. What is written can be read back, and nothing else changes: after a successful update of a
  well-formed file the value just written is found under its section and key, and every key that
  neither the written key nor a matching key of the file abbreviates keeps its value in every
  section.
\<close>

theorem write_then_read:
  assumes "doc_ok ls" "files file = Some (render ls)" "CHR 0xFF \<notin> set (render ls)"
    "length (render ls) < MAX_FILE_SIZE" "CHR ''%'' \<notin> set (render ls)" "section \<noteq> []"
    "line_ok (Header section)" "line_ok (Pair key value)"
    "length (render (put section key value ls)) < MAX_FILE_SIZE"
    "CHR 0xFF \<notin> set (render (put section key value ls))" "length value < 32" "0 < n" "nat n \<le> length b"
  shows "\<exists>files'. write_profile_string True (\<lambda>w. (True, w)) files section key value file = Inr (1, files')
    \<and> read_profile_string files' section key (replicate 32 NUL) 32 None file =
        Inr (1, value @ replicate (32 - length value) NUL)
    \<and> (\<forall>s k. s \<noteq> [] \<and> k \<noteq> [] \<and> \<not> prefix key k \<and>
         (\<forall>k' v'. Pair k' v' \<in> set ls \<and> prefix k' key \<longrightarrow> \<not> prefix k' k) \<longrightarrow>
         read_profile_string files' s k b n None file = read_profile_string files s k b n None file)"
proof -
  let ?ls = "put section key value ls"
  let ?files = "files(file \<mapsto> render ?ls)"
  have key: "key \<noteq> []" "plain key" "plain value" "plain section" using assms(7,8) by auto
  have w: "write_profile_string True (\<lambda>w. (True, w)) files section key value file = Inr (1, ?files)"
    by (rule write_profile_string_doc) (use assms key in auto)
  have f: "?files file = Some (render ?ls)" by simp
  note ok' = put_ok [OF assms(1,7,8)]
  have s: "strncpy (take 31 value) 32 = value @ replicate (32 - length value) NUL"
    using assms(11) by (simp add: strncpy_def)
  have r: "read_profile_string ?files section key (replicate 32 NUL) 32 None file =
      Inr (1, value @ replicate (32 - length value) NUL)"
    using read_profile_string_doc [of ?ls ?files "file", OF ok' f assms(10,9) assms(6) key(1), of 32 "replicate 32 NUL" None] s
    by (simp add: look_put)
  have k: "read_profile_string ?files s k b n None file = read_profile_string files s k b n None file"
    if "s \<noteq> []" "k \<noteq> []" "\<not> prefix key k" "\<And>k' v'. \<lbrakk>Pair k' v' \<in> set ls; prefix k' key\<rbrakk> \<Longrightarrow> \<not> prefix k' k" for s k
    using look_put_other [where sn = "section" and sn' = s and v = "value", OF that(3,4)]
      read_profile_string_doc [of ?ls ?files "file", OF ok' f assms(10,9) that(1,2) assms(12,13), of None]
      read_profile_string_doc [of ls files "file", OF assms(1-4) that(1,2) assms(12,13), of None]
    by simp
  from w r k show ?thesis by blast
qed

theorem write_then_read_witness:
  "\<exists>files'. write_profile_string True (\<lambda>w. (True, w)) (\<lambda>_. Some (render [Header ''S'', Pair ''a'' ''1'']))
       ''S'' ''b'' ''25'' ''f'' = Inr (1, files')
    \<and> read_profile_string files' ''S'' ''b'' (replicate 32 NUL) 32 None ''f'' =
        Inr (1, ''25'' @ replicate 30 NUL)"
  using write_then_read [of "[Header ''S'', Pair ''a'' ''1'']"
      "\<lambda>_. Some (render [Header ''S'', Pair ''a'' ''1''])" "''f''" "''S''" "''b''" "''25''" 1 "[NUL]"]
  by (auto simp: ini_char_defs isspace_def MAX_FILE_SIZE_def put_def)

section \<open>The longest file\<close>

lemma lines_loop_last_line:
  assumes "line_ok (Other t)" "t \<noteq> []"
  shows "lines_loop (A @ NL # t @ [NUL]) key (length A + 1) = Inl OutOfBounds"
proof -
  let ?p = "A @ NL # t @ [NUL]"
  have pl: "plain t" using line_text_plain [OF assms(1)] by simp
  have h: "CHR ''['' \<noteq> hd t \<and> \<not> end_of_string (hd t)" using line_text_hd [OF assms(1)] assms(2) by auto
  have r: "rd ?p (length A + 1 - 1) = Inr NL" "rd ?p (length A + 1) = Inr (hd t)"
    using assms(2) by (cases t; simp add: rd_def nth_append)+
  have e: "line_end ?p (length A + 1) = Inr (length A + 1 + length t)"
    using line_end_text [OF pl, of NUL "A @ [NL]" "[]"] by simp
  have k: "(if CHR '';'' \<noteq> hd t then key_scan ?p key (length A + 1) (length A + 1 + length t) (length A + 1)
      else Inr None) = Inr None"
    using key_scan_absent [of t NUL "A @ [NL]" "[]" key "length A + 1"] assms by auto
  have "lines_loop ?p key (length A + 1) = lines_loop ?p key (length A + 1 + length t + 1)"
    using lines_loop_step [OF r _ _ e k] h by (simp add: left_barce_def)
  also have "\<dots> = Inl OutOfBounds"
    by (subst lines_loop.simps) (simp add: rd_def nth_append)
  finally show ?thesis .
qed

text \<open>
  The largest file that can be loaded makes the parser read past its buffer: when a file of
  exactly 16383 bytes is a matching header and one last line without \<^verbatim>\<open>=\<close> and newline, the loop
  over the lines steps over the terminating NUL, the last byte of the buffer.
\<close>

theorem read_profile_string_overreads:
  assumes "line_ok (Header s)" "prefix s section" "line_ok (Other t)" "t \<noteq> []" "\<not> isspace (hd t)" "files file = Some (''['' @ s @ '']'' @ NL # t)"
    "length (''['' @ s @ '']'' @ NL # t) = 16383" "CHR 0xFF \<notin> set (''['' @ s @ '']'' @ NL # t)"
    "section \<noteq> []" "key \<noteq> []" "0 < n"
  shows "read_profile_string files section key value n default_value file = Inl OutOfBounds"
proof -
  let ?t = "''['' @ s @ '']'' @ NL # t"
  have f: "file_text ?t = ?t" using assms(8) by (rule file_text_plain)
  have p: "?t @ replicate (MAX_FILE_SIZE - length ?t) NUL = [] @ ''['' @ s @ '']'' @ NL # t @ [NUL]"
    unfolding assms(7) by (simp add: MAX_FILE_SIZE_def)
  have l: "load_ini_file files file (replicate MAX_FILE_SIZE NUL) =
      Inr (Some ([] @ ''['' @ s @ '']'' @ NL # t @ [NUL], 16383))"
    using load_ini_file_eq [of files "file" ?t] assms(6,7) unfolding f p by (simp add: MAX_FILE_SIZE_def)
  let ?p = "[] @ ''['' @ s @ '']'' @ NL # t @ [NUL]"
  have k: "skip_space ?p (length ([] :: char list) + length s + 2) = Inr (length s + 3)"
    using skip_space_run [OF assms(5), of "''['' @ s @ '']''" 1 "tl t @ [NUL]"] assms(4)
    by (cases t) (simp_all add: eval_nat_numeral)
  have "lines_loop ?p key (length s + 3) = Inl OutOfBounds"
    using lines_loop_last_line [OF assms(3,4), of "''['' @ s @ '']''" key] by (simp add: eval_nat_numeral)
  then have "parse_loop ?p section key 0 None = Inl OutOfBounds"
    using parse_loop_header [OF assms(1), of "[]" "t @ [NUL]" "section" key None] k assms(2)
    by (simp only: list.size if_True andThen.simps) simp
  with l assms(9-11) show ?thesis by (simp add: read_profile_string_def parse_file_def Let_def)
qed

theorem read_profile_string_overreads_witness:
  "read_profile_string (\<lambda>_. Some (''[a]'' @ NL # replicate 16379 (CHR ''x''))) ''a'' ''k''
     (replicate 4 NUL) 4 None ''f'' = Inl OutOfBounds"
  using read_profile_string_overreads [of "''a''" "''a''" "replicate 16379 (CHR ''x'')"
      "\<lambda>_. Some (''[a]'' @ NL # replicate 16379 (CHR ''x''))" "''f''" "''k''" 4 "replicate 4 NUL" None]
  by (simp add: ini_char_defs isspace_def plain_def)

end
