(* ===== verification/IrqDrivers.thy ===== *)
theory IrqDrivers
  imports ZynqPrelude
begin

text \<open>
  \<^verbatim>\<open>driver/interrupt/irq.c\<close> and \<^verbatim>\<open>driver/dataIrq/dataIrq.c\<close>: two drivers that let a thread of
  the application sleep until the programmable logic raises an interrupt (one per second, and one
  when a buffer of samples is ready). The contract of such a driver is a locale, and both files are
  instances of it.
\<close>

section \<open>The second-pulse driver\<close>

text \<open>
  \<open>lines_held\<close> are the interrupt lines the driver has requested. A kernel call that blocks is
  \<open>None\<close>: the thread stays in the read until the step is enabled. \<open>signalled\<close> says that a signal
  ends the wait, whose result the code does not look at.
\<close>

record irq_state =
  irqHappend :: u32
  lines_held :: "u32 list"

definition IRQ :: "irq_state \<Rightarrow> irq_state" where
  "IRQ s = s\<lparr>irqHappend := 1\<rparr>"

definition counter_irq_open :: "(u32 \<Rightarrow> int) \<Rightarrow> irq_state \<Rightarrow> int \<times> irq_state" where
  "counter_irq_open request_irq s =
     (let result = request_irq 91 in
      if result \<noteq> 0 then (-1, s) else (0, s\<lparr>lines_held := 91 # lines_held s\<rparr>))"

definition counter_irq_close :: "irq_state \<Rightarrow> int \<times> irq_state" where
  "counter_irq_close s = (0, s\<lparr>lines_held := remove1 91 (lines_held s)\<rparr>)"

definition counter_irq_read :: "bool \<Rightarrow> irq_state \<Rightarrow> (int \<times> irq_state) option" where
  "counter_irq_read signalled s =
     (if irqHappend s \<noteq> 0 \<or> signalled then Some (1, s\<lparr>irqHappend := 0\<rparr>) else None)"

text \<open>The result pairs the return value with the new \<^verbatim>\<open>counter_irq_major\<close>.\<close>

definition counter_irq_init :: "(int \<Rightarrow> int) \<Rightarrow> int \<Rightarrow> int \<times> int" where
  "counter_irq_init register_chrdev counter_irq_major =
     (let major = register_chrdev counter_irq_major in
      if major < 0 then (-1, major) else (0, major))"

section \<open>The data driver\<close>

record data_irq_state =
  dataIrqHappend :: u32
  data_lines_held :: "u32 list"

definition data_IRQ :: "data_irq_state \<Rightarrow> data_irq_state" where
  "data_IRQ s = s\<lparr>dataIrqHappend := 1\<rparr>"

definition data_irq_open :: "(u32 \<Rightarrow> int) \<Rightarrow> data_irq_state \<Rightarrow> int \<times> data_irq_state" where
  "data_irq_open request_irq s =
     (let result = request_irq 90 in
      if result \<noteq> 0 then (-1, s) else (0, s\<lparr>data_lines_held := 90 # data_lines_held s\<rparr>))"

definition data_irq_close :: "data_irq_state \<Rightarrow> int \<times> data_irq_state" where
  "data_irq_close s = (0, s\<lparr>data_lines_held := remove1 90 (data_lines_held s)\<rparr>)"

definition data_irq_read :: "bool \<Rightarrow> data_irq_state \<Rightarrow> (int \<times> data_irq_state) option" where
  "data_irq_read signalled s =
     (if dataIrqHappend s \<noteq> 0 \<or> signalled then Some (1, s\<lparr>dataIrqHappend := 0\<rparr>) else None)"

definition data_irq_int :: "(int \<Rightarrow> int) \<Rightarrow> int \<Rightarrow> int \<times> int" where
  "data_irq_int register_chrdev data_irq_major =
     (let major = register_chrdev data_irq_major in
      if major < 0 then (-1, major) else (0, major))"

section \<open>Runs of a driver\<close>

text \<open>
  What can happen to an open driver: an interrupt, a read that returns because of the flag, a read
  that returns because of a signal. \<open>irq_run\<close> is the system of one handler and one read.
\<close>

datatype irq_event = Interrupt | ReadReturns | SignalReturns

inductive irq_run :: "('s \<Rightarrow> 's) \<Rightarrow> (bool \<Rightarrow> 's \<Rightarrow> (int \<times> 's) option) \<Rightarrow> 's \<Rightarrow> irq_event list \<Rightarrow> 's \<Rightarrow> bool"
  for handler and reader and s0 where
  run_start: "irq_run handler reader s0 [] s0"
| run_interrupt: "irq_run handler reader s0 es s \<Longrightarrow> irq_run handler reader s0 (es @ [Interrupt]) (handler s)"
| run_read: "\<lbrakk>irq_run handler reader s0 es s; reader False s = Some (n, s')\<rbrakk> \<Longrightarrow>
    irq_run handler reader s0 (es @ [ReadReturns]) s'"
| run_signal: "\<lbrakk>irq_run handler reader s0 es s; reader True s = Some (n, s')\<rbrakk> \<Longrightarrow>
    irq_run handler reader s0 (es @ [SignalReturns]) s'"

inductive_simps irq_run_simps: "irq_run handler reader s0 es s"

definition occurs :: "irq_event \<Rightarrow> irq_event list \<Rightarrow> nat" where
  "occurs e es = length (filter (\<lambda>x. x = e) es)"

lemma occurs_simps [simp]: "occurs e [] = 0" "occurs e (es @ [x]) = occurs e es + (if x = e then 1 else 0)"
  by (simp_all add: occurs_def)

locale irq_line =
  fixes handler :: "'s \<Rightarrow> 's"
    and reader :: "bool \<Rightarrow> 's \<Rightarrow> (int \<times> 's) option"
    and pending :: "'s \<Rightarrow> bool"
  assumes handler_pending: "pending (handler s)"
    and reader_blocks: "reader False s = None \<longleftrightarrow> \<not> pending s"
    and reader_clears: "reader b s = Some (n, s') \<Longrightarrow> \<not> pending s' \<and> n = 1"
    and reader_signalled: "reader True s \<noteq> None"
begin

text \<open>Every read that returns without a signal has used up an interrupt of its own.\<close>

lemma reads_bounded:
  assumes "irq_run handler reader s0 es s" "\<not> pending s0"
  shows "occurs ReadReturns es + (if pending s then 1 else 0) \<le> occurs Interrupt es"
  using assms(1)
proof induction
  case run_start
  then show ?case using assms(2) by simp
next
  case (run_interrupt es s)
  then show ?case by (auto split: if_splits)
next
  case (run_read es s n s')
  then have "pending s" using reader_blocks [of s] by auto
  with run_read reader_clears [OF run_read(2)] show ?case by simp
next
  case (run_signal es s n s')
  with reader_clears [OF run_signal(2)] show ?case by (auto split: if_splits)
qed

text \<open>No wake-up is lost: after an interrupt, a read returns, wherever the run was.\<close>

lemma read_enabled_after_interrupt:
  "\<exists>s'. reader False (handler s) = Some (1, s')"
  using reader_blocks [of "handler s"] handler_pending [of s] reader_clears [of False "handler s"]
  by (cases "reader False (handler s)") auto

lemma pending_funpow: "0 < k \<Longrightarrow> pending ((handler ^^ k) s)"
  using handler_pending by (cases k) auto

text \<open>Interrupts that come before the read are one: the second read blocks.\<close>

lemma interrupts_coalesce:
  assumes "0 < k"
  shows "\<exists>s'. reader False ((handler ^^ k) s) = Some (1, s') \<and> reader False s' = None"
  using pending_funpow [OF assms, of s] reader_blocks reader_clears
  by (cases "reader False ((handler ^^ k) s)") (fastforce)+

lemma signal_returns: "\<exists>s'. reader True s = Some (1, s')"
  using reader_signalled [of s] reader_clears [of True s] by (cases "reader True s") auto

end

interpretation pps: irq_line IRQ counter_irq_read "\<lambda>s. irqHappend s \<noteq> 0"
  by unfold_locales (auto simp: IRQ_def counter_irq_read_def split: if_splits)

interpretation rdy: irq_line data_IRQ data_irq_read "\<lambda>s. dataIrqHappend s \<noteq> 0"
  by unfold_locales (auto simp: data_IRQ_def data_irq_read_def split: if_splits)

section \<open>Properties\<close>

text \<open>
  The second-pulse thread never runs ahead of the pulses: in every run of the driver from a
  cleared flag, the number of reads that returned without a signal, plus the pulse still pending,
  is at most the number of interrupts; and from any state of the run an interrupt enables the read.
\<close>

theorem counter_irq_reads_bounded:
  assumes "irq_run IRQ counter_irq_read s0 es s" "irqHappend s0 = 0"
  shows "occurs ReadReturns es + (if irqHappend s \<noteq> 0 then 1 else 0) \<le> occurs Interrupt es
    \<and> (\<exists>s'. counter_irq_read False (IRQ s) = Some (1, s'))"
  using pps.reads_bounded [OF assms(1)] assms(2) pps.read_enabled_after_interrupt by blast

theorem counter_irq_reads_bounded_witness:
  "occurs ReadReturns [Interrupt, ReadReturns] \<le> occurs Interrupt [Interrupt, ReadReturns]"
proof -
  let ?s = "\<lparr>irqHappend = 0, lines_held = [91]\<rparr>"
  have "irq_run IRQ counter_irq_read ?s ([] @ [Interrupt]) (IRQ ?s)"
    by (intro run_interrupt run_start)
  then have "irq_run IRQ counter_irq_read ?s (([] @ [Interrupt]) @ [ReadReturns]) ?s"
    by (rule run_read [where n = 1]) (simp add: counter_irq_read_def IRQ_def)
  from counter_irq_reads_bounded [OF this] show ?thesis by simp
qed

text \<open>
  Data interrupts coalesce: any number of interrupts before the read count as one, after which
  a further read blocks. Two buffers that become ready before the first is fetched are seen as one.
\<close>

theorem data_irq_interrupts_coalesce:
  "0 < k \<Longrightarrow> \<exists>s'. data_irq_read False ((data_IRQ ^^ k) s) = Some (1, s') \<and> data_irq_read False s' = None"
  by (rule rdy.interrupts_coalesce)

theorem data_irq_interrupts_coalesce_witness:
  "\<exists>s'. data_irq_read False ((data_IRQ ^^ 2) \<lparr>dataIrqHappend = 0, data_lines_held = [90]\<rparr>) = Some (1, s')
    \<and> data_irq_read False s' = None"
  by (rule data_irq_interrupts_coalesce) simp

text \<open>
  A signal is taken for an interrupt: the data driver answers a signalled wait with the same
  value 1 as a wait ended by an interrupt, whatever the flag is.
\<close>

theorem data_irq_signal_looks_like_data:
  "map_option fst (data_irq_read True s) = Some 1 \<and>
   data_irq_read True (s\<lparr>dataIrqHappend := 0\<rparr>) = data_irq_read True (s\<lparr>dataIrqHappend := 1\<rparr>)"
  by (simp add: data_irq_read_def)

end
