(* ===== verification/XfifoDma.thy ===== *)
theory XfifoDma
  imports ZynqPrelude
begin

text \<open>
  \<^verbatim>\<open>driver/xfifo_dma/xfifo_dma.c\<close>: the device through which the application fetches the samples.
  A read or write allocates a DMA buffer, starts the PL330 channel, sleeps until a callback clears
  \<^verbatim>\<open>busy\<close>, and frees the buffer. The part under the mutex is one step; the sleep lies between two
  steps, so callbacks and other files can act in between.
\<close>

section \<open>State\<close>

text \<open>Kernel services leave events; the device structure mirrors the C one.\<close>

datatype dma_mode = DMA_MODE_READ | DMA_MODE_WRITE

datatype dma_event =
    DmaAlloc u32 u32 u32             \<comment> \<open>size, virtual address, bus address\<close>
  | DmaFree u32 u32 u32
  | RequestDma u32                   \<comment> \<open>channel\<close>
  | FreeDma u32
  | EnableDma u32 dma_mode u32 u32 u32 bool
      \<comment> \<open>channel, mode, bus address, count, device address, device address increments\<close>
  | CopyToUser u32 u32               \<comment> \<open>virtual address, size\<close>
  | CopyFromUser u32 u32
  | FifoWrite u32 u32                \<comment> \<open>virtual address, value\<close>

record xfifo_dma_dev =
  dma_channel :: u32
  fifo_depth :: u32
  burst_length :: u32
  buffer_d_addr :: u32
  buffer_v_addr :: u32
  x_count :: u32
  busy :: u32
  x_physaddr :: u32
  x_virtaddr :: u32
  x_addrsize :: u32
  writers :: u32
  bytes_written :: u32
  x_writes :: u32
  x_opens :: u32
  x_closes :: u32
  x_errors :: u32
  x_client_data :: bool              \<comment> \<open>\<^verbatim>\<open>client_data\<close> is allocated\<close>
  client_dev_addr :: u32
  client_burst_len :: u32
  x_log :: "dma_event list"

text \<open>
  The kernel is a parameter: \<open>dma_alloc_coherent\<close> gives a virtual and a bus address or fails,
  \<open>request_dma\<close> answers 0 when the channel is granted. Both may depend on the history.
\<close>

record dma_kernel =
  dma_alloc_coherent :: "dma_event list \<Rightarrow> u32 \<Rightarrow> (u32 \<times> u32) option"
  request_dma :: "dma_event list \<Rightarrow> u32 \<Rightarrow> int"

definition EINTR :: int where "EINTR = 4"
definition ENOMEM :: int where "ENOMEM = 12"
definition EBUSY :: int where "EBUSY = 16"
definition ENODEV :: int where "ENODEV = 19"
definition ERESTARTSYS :: int where "ERESTARTSYS = 512"
definition O_ACCMODE :: u32 where "O_ACCMODE = 3"
definition O_RDONLY :: u32 where "O_RDONLY = 0"

definition AXI_TXFIFO_STS :: u32 where "AXI_TXFIFO_STS = 0x0"
definition AXI_TXFIFO_RST :: u32 where "AXI_TXFIFO_RST = 0x08"
definition TXFIFO_STS_CLR :: u32 where "TXFIFO_STS_CLR = 0xffffffff"
definition TXFIFO_RST :: u32 where "TXFIFO_RST = 0x000000a5"

definition emit :: "dma_event list \<Rightarrow> xfifo_dma_dev \<Rightarrow> xfifo_dma_dev" where
  "emit es dev = dev\<lparr>x_log := x_log dev @ es\<rparr>"

section \<open>File operations\<close>

definition xfifo_dma_reset_fifo :: "xfifo_dma_dev \<Rightarrow> xfifo_dma_dev" where
  "xfifo_dma_reset_fifo dev =
     emit [FifoWrite (x_virtaddr dev + AXI_TXFIFO_STS) TXFIFO_STS_CLR,
           FifoWrite (x_virtaddr dev + AXI_TXFIFO_RST) TXFIFO_RST] dev"

text \<open>\<open>intr\<close>: \<^verbatim>\<open>mutex_lock_interruptible\<close> was interrupted.\<close>

definition xfifo_dma_open :: "bool \<Rightarrow> u32 \<Rightarrow> xfifo_dma_dev \<Rightarrow> int \<times> xfifo_dma_dev" where
  "xfifo_dma_open intr f_flags dev =
     (if intr then (- ERESTARTSYS, dev)
      else if f_flags AND O_ACCMODE = O_RDONLY then (0, dev\<lparr>x_opens := x_opens dev + 1\<rparr>)
      else if writers dev \<noteq> 0 \<or> busy dev \<noteq> 0 then (- EBUSY, dev)
      else (0, dev\<lparr>writers := writers dev + 1, x_opens := x_opens dev + 1\<rparr>))"

definition xfifo_dma_release :: "bool \<Rightarrow> u32 \<Rightarrow> xfifo_dma_dev \<Rightarrow> int \<times> xfifo_dma_dev" where
  "xfifo_dma_release intr f_flags dev =
     (if intr then (- EINTR, dev)
      else
        let dev = (if f_flags AND O_ACCMODE = O_RDONLY then dev
                   else dev\<lparr>writers := writers dev - 1\<rparr>)
        in (0, dev\<lparr>x_closes := x_closes dev + 1\<rparr>))"

definition xfifo_dma_fault_callback :: "xfifo_dma_dev \<Rightarrow> xfifo_dma_dev" where
  "xfifo_dma_fault_callback dev = dev\<lparr>x_errors := x_errors dev + 1, busy := 0\<rparr>"

definition xfifo_dma_done_callback :: "xfifo_dma_dev \<Rightarrow> xfifo_dma_dev" where
  "xfifo_dma_done_callback dev =
     dev\<lparr>bytes_written := bytes_written dev + x_count dev, busy := 0\<rparr>"

text \<open>
  The common start of a transfer: \<open>Inl\<close> the error returned, or \<open>Inr\<close> the transfer size and the
  thread goes to sleep. \<^verbatim>\<open>int fpos = filp->f_pos\<close> keeps the low 32 bits.
\<close>

definition transfer_size_of :: "xfifo_dma_dev \<Rightarrow> u32 \<Rightarrow> u32" where
  "transfer_size_of dev count = (if fifo_depth dev < count then fifo_depth dev else count)"

definition xfifo_dma_read ::
  "dma_kernel \<Rightarrow> bool \<Rightarrow> u64 \<Rightarrow> u32 \<Rightarrow> xfifo_dma_dev \<Rightarrow> (int + u32) \<times> xfifo_dma_dev" where
  "xfifo_dma_read k intr f_pos count dev =
     (let fpos = ucast f_pos :: u32 in
      if intr then (Inl (- EINTR), dev)
      else
        let transfer_size = transfer_size_of dev count in
        case dma_alloc_coherent k (x_log dev) transfer_size of
          None \<Rightarrow> (Inl (- ENOMEM), dev\<lparr>buffer_v_addr := 0\<rparr>)
        | Some (v, d) \<Rightarrow>
            let dev = emit [DmaAlloc transfer_size v d] (dev\<lparr>buffer_v_addr := v, buffer_d_addr := d\<rparr>) in
            if request_dma k (x_log dev) (dma_channel dev) \<noteq> 0 then
              (Inl (- EBUSY), emit [DmaFree transfer_size v d] dev)
            else
              let dev = dev\<lparr>busy := 1, x_count := transfer_size,
                            client_dev_addr := x_physaddr dev + fpos\<rparr> in
              (Inr transfer_size,
               emit [RequestDma (dma_channel dev),
                     EnableDma (dma_channel dev) DMA_MODE_READ (buffer_d_addr dev) transfer_size
                       (client_dev_addr dev) True] dev))"

text \<open>After the sleep. The addresses are those the device structure holds by now.\<close>

definition xfifo_dma_read_wake :: "u32 \<Rightarrow> xfifo_dma_dev \<Rightarrow> int \<times> xfifo_dma_dev" where
  "xfifo_dma_read_wake transfer_size dev =
     (uint transfer_size,
      emit [CopyToUser (buffer_v_addr dev) transfer_size, FreeDma (dma_channel dev),
            DmaFree (x_count dev) (buffer_v_addr dev) (buffer_d_addr dev)] dev)"

definition xfifo_dma_lseek :: "u64 \<Rightarrow> u64 \<Rightarrow> int \<Rightarrow> int \<times> u64" where
  "xfifo_dma_lseek f_pos off whence =
     (if whence \<notin> {0, 1} then (-22, f_pos)
      else
        let newpos = (if whence = 0 then off else f_pos + off) in
        if sint newpos < 0 then (-22, f_pos) else (sint newpos, newpos))"

definition xfifo_dma_write ::
  "dma_kernel \<Rightarrow> bool \<Rightarrow> u64 \<Rightarrow> u32 \<Rightarrow> xfifo_dma_dev \<Rightarrow> (int + u32) \<times> xfifo_dma_dev" where
  "xfifo_dma_write k intr f_pos count dev =
     (let fpos = ucast f_pos :: u32 in
      if intr then (Inl (- EINTR), dev)
      else
        let dev = dev\<lparr>x_writes := x_writes dev + 1\<rparr>;
            transfer_size = transfer_size_of dev count in
        case dma_alloc_coherent k (x_log dev) transfer_size of
          None \<Rightarrow> (Inl (- ENOMEM), dev\<lparr>buffer_v_addr := 0\<rparr>)
        | Some (v, d) \<Rightarrow>
            let dev = emit [DmaAlloc transfer_size v d] (dev\<lparr>buffer_v_addr := v, buffer_d_addr := d\<rparr>) in
            if request_dma k (x_log dev) (dma_channel dev) \<noteq> 0 then
              (Inl (- EBUSY), emit [DmaFree transfer_size v d] dev)
            else
              let dev = dev\<lparr>busy := 1, x_count := transfer_size,
                            client_dev_addr := x_physaddr dev + fpos\<rparr>;
                  dev = emit [RequestDma (dma_channel dev), CopyFromUser (buffer_v_addr dev) transfer_size] dev;
                  dev = xfifo_dma_reset_fifo dev in
              (Inr transfer_size,
               emit [EnableDma (dma_channel dev) DMA_MODE_WRITE (buffer_d_addr dev) transfer_size
                       (client_dev_addr dev) False] dev))"

definition xfifo_dma_write_wake :: "u32 \<Rightarrow> xfifo_dma_dev \<Rightarrow> int \<times> xfifo_dma_dev" where
  "xfifo_dma_write_wake transfer_size dev =
     (uint transfer_size,
      emit [FreeDma (dma_channel dev),
            DmaFree (x_count dev) (buffer_v_addr dev) (buffer_d_addr dev)] dev)"

section \<open>Statistics\<close>

definition xfifo_dma_proc_seq_start :: "u64 \<Rightarrow> xfifo_dma_dev \<Rightarrow> xfifo_dma_dev option" where
  "xfifo_dma_proc_seq_start pos dev = (if pos = 0 then Some dev else None)"

definition xfifo_dma_proc_seq_next :: "u64 \<Rightarrow> xfifo_dma_dev option \<times> u64" where
  "xfifo_dma_proc_seq_next pos = (None, pos + 1)"

text \<open>The numbers shown, under their labels.\<close>

definition xfifo_dma_proc_seq_show :: "bool \<Rightarrow> xfifo_dma_dev \<Rightarrow> int + (string \<times> u32) list" where
  "xfifo_dma_proc_seq_show intr dev =
     (if intr then Inl (- EINTR)
      else Inr
        [(''Device Physical Address'', x_physaddr dev),
         (''Device Virtual Address'', x_virtaddr dev),
         (''Device Address Space'', x_addrsize dev),
         (''DMA Channel'', dma_channel dev),
         (''FIFO Depth'', fifo_depth dev),
         (''Burst Length'', burst_length dev),
         (''Opens'', x_opens dev),
         (''Writes'', x_writes dev),
         (''Bytes Written'', bytes_written dev),
         (''Closes'', x_closes dev),
         (''Errors'', x_errors dev),
         (''Busy'', busy dev)])"

section \<open>Probe and remove\<close>

text \<open>
  What the kernel answers during a probe, and the services that acquire or release something.
  \<open>client_dev_addr\<close> and \<open>client_burst_len\<close> stand for the client data structure.
\<close>

record probe_env =
  platform_get_resource :: "(u32 \<times> u32) option"     \<comment> \<open>start, end\<close>
  kmalloc_dev_ok :: bool
  of_node :: bool
  register_chrdev_region :: int
  request_region_ok :: bool
  ioremap :: u32
  kmalloc_client_ok :: bool
  create_proc_ok :: bool

datatype probe_event =
    KmallocDev | KfreeDev
  | RegisterChrdev | UnregisterChrdev
  | MemRegion u32 u32 | ReleaseMem u32 u32
  | MapIo u32 | UnmapIo u32
  | KmallocClient | KfreeClient
  | CdevAdd | CdevDel
  | CreateProc | RemoveProc

definition zeroed_dev :: xfifo_dma_dev where
  "zeroed_dev = \<lparr>dma_channel = 0, fifo_depth = 0, burst_length = 0, buffer_d_addr = 0,
     buffer_v_addr = 0, x_count = 0, busy = 0, x_physaddr = 0, x_virtaddr = 0, x_addrsize = 0,
     writers = 0, bytes_written = 0, x_writes = 0, x_opens = 0, x_closes = 0, x_errors = 0,
     x_client_data = False, client_dev_addr = 0, client_burst_len = 0, x_log = []\<rparr>"

definition xfifo_dma_remove :: "xfifo_dma_dev \<Rightarrow> probe_event list" where
  "xfifo_dma_remove dev =
     [CdevDel, RemoveProc, UnregisterChrdev]
     @ (if x_virtaddr dev \<noteq> 0 then [UnmapIo (x_virtaddr dev), ReleaseMem (x_physaddr dev) (x_addrsize dev)] else [])
     @ (if x_client_data dev then [KfreeClient] else [])
     @ [KfreeDev]"

text \<open>
  The device tree values are read and then overwritten with constants. The result is the status,
  the device (\<open>None\<close> once it has been freed or was never allocated) and the services called.
\<close>

definition xfifo_dma_probe :: "probe_env \<Rightarrow> int \<times> xfifo_dma_dev option \<times> probe_event list" where
  "xfifo_dma_probe env =
     (case platform_get_resource env of
        None \<Rightarrow> (- ENODEV, None, [])
      | Some (r_start, r_end) \<Rightarrow>
          if \<not> kmalloc_dev_ok env then (- ENOMEM, None, [])
          else
            let dev = zeroed_dev;
                dev = (if of_node env
                       then dev\<lparr>dma_channel := 0, fifo_depth := 65536, burst_length := 16\<rparr> else dev);
                status = register_chrdev_region env
            in if status < 0 then (status, None, [KmallocDev] @ xfifo_dma_remove dev)
               else
                 let dev = dev\<lparr>x_physaddr := r_start, x_addrsize := r_end - r_start + 1\<rparr> in
                 if \<not> request_region_ok env then
                   (- ENODEV, None, [KmallocDev, RegisterChrdev] @ xfifo_dma_remove dev)
                 else
                   let dev = dev\<lparr>x_virtaddr := ioremap env\<rparr>;
                       got = [KmallocDev, RegisterChrdev, MemRegion (x_physaddr dev) (x_addrsize dev)]
                             @ (if ioremap env \<noteq> 0 then [MapIo (ioremap env)] else [])
                   in if \<not> kmalloc_client_ok env then (status, None, got @ xfifo_dma_remove dev)
                      else
                        let dev = dev\<lparr>x_client_data := True, client_dev_addr := x_physaddr dev,
                                      client_burst_len := burst_length dev\<rparr>
                        in (0, Some (xfifo_dma_reset_fifo dev),
                            got @ [KmallocClient, CdevAdd] @ (if create_proc_ok env then [CreateProc] else [])))"

end
