(* ===== verification/XfifoSafety.thy ===== *)
theory XfifoSafety
  imports XfifoDma
begin

text \<open>
  The DMA driver as a system of files that open, transfer, sleep and close while callbacks arrive,
  its writer-exclusion invariant, what a transfer does when it runs alone, and the interleavings
  in which the driver fails: a release that is interrupted, a wait that is interrupted, a second
  reader during a transfer.
\<close>

section \<open>The system\<close>

text \<open>
  Files are numbered. \<open>Sleeping fl rd n\<close>: the file was opened with flags \<open>fl\<close> and a transfer of
  \<open>n\<close> bytes, a read if \<open>rd\<close>, waits for the callback.
\<close>

datatype xfile = Closed | Opened u32 | Sleeping u32 bool u32

record xsys =
  xdev :: xfifo_dma_dev
  xfiles :: "nat \<Rightarrow> xfile"

definition set_file :: "nat \<Rightarrow> xfile \<Rightarrow> xfifo_dma_dev \<Rightarrow> xsys \<Rightarrow> xsys" where
  "set_file t x dev s = \<lparr>xdev = dev, xfiles = (xfiles s)(t := x)\<rparr>"

inductive xstep :: "dma_kernel \<Rightarrow> xsys \<Rightarrow> xsys \<Rightarrow> bool" for k where
  step_open: "\<lbrakk>xfiles s t = Closed; xfifo_dma_open intr fl (xdev s) = (r, dev)\<rbrakk> \<Longrightarrow>
    xstep k s (set_file t (if r = 0 then Opened fl else Closed) dev s)"
| step_release: "\<lbrakk>xfiles s t = Opened fl; xfifo_dma_release intr fl (xdev s) = (r, dev)\<rbrakk> \<Longrightarrow>
    xstep k s (set_file t Closed dev s)"
| step_read: "\<lbrakk>xfiles s t = Opened fl; xfifo_dma_read k intr pos n (xdev s) = (r, dev)\<rbrakk> \<Longrightarrow>
    xstep k s (set_file t (case r of Inl _ \<Rightarrow> Opened fl | Inr m \<Rightarrow> Sleeping fl True m) dev s)"
| step_write: "\<lbrakk>xfiles s t = Opened fl; xfifo_dma_write k intr pos n (xdev s) = (r, dev)\<rbrakk> \<Longrightarrow>
    xstep k s (set_file t (case r of Inl _ \<Rightarrow> Opened fl | Inr m \<Rightarrow> Sleeping fl False m) dev s)"
| step_done: "xstep k s (s\<lparr>xdev := xfifo_dma_done_callback (xdev s)\<rparr>)"
| step_fault: "xstep k s (s\<lparr>xdev := xfifo_dma_fault_callback (xdev s)\<rparr>)"
| step_read_wake: "\<lbrakk>xfiles s t = Sleeping fl True m; busy (xdev s) = 0 \<or> signalled;
    xfifo_dma_read_wake m (xdev s) = (r, dev)\<rbrakk> \<Longrightarrow> xstep k s (set_file t (Opened fl) dev s)"
| step_write_wake: "\<lbrakk>xfiles s t = Sleeping fl False m; busy (xdev s) = 0 \<or> signalled;
    xfifo_dma_write_wake m (xdev s) = (r, dev)\<rbrakk> \<Longrightarrow> xstep k s (set_file t (Opened fl) dev s)"

definition xinit :: "xfifo_dma_dev \<Rightarrow> xsys" where
  "xinit dev = \<lparr>xdev = dev, xfiles = (\<lambda>_. Closed)\<rparr>"

abbreviation xreach :: "dma_kernel \<Rightarrow> xsys \<Rightarrow> xsys \<Rightarrow> bool" where
  "xreach k \<equiv> (xstep k)\<^sup>*\<^sup>*"

section \<open>Writer exclusion\<close>

fun writing :: "xfile \<Rightarrow> bool" where
  "writing Closed = False"
| "writing (Opened fl) = (fl AND O_ACCMODE \<noteq> O_RDONLY)"
| "writing (Sleeping fl rd n) = (fl AND O_ACCMODE \<noteq> O_RDONLY)"

text \<open>\<open>writers\<close> is 0 or 1, and no less than the number of files open for writing.\<close>

definition writers_ok :: "xsys \<Rightarrow> bool" where
  "writers_ok s \<longleftrightarrow> writers (xdev s) \<in> {0, 1} \<and>
     (\<forall>t. writing (xfiles s t) \<longrightarrow> writers (xdev s) = 1) \<and>
     (\<forall>t u. writing (xfiles s t) \<and> writing (xfiles s u) \<longrightarrow> t = u)"

lemma transfers_keep_writers:
  "xfifo_dma_read k intr pos n dev = (r, dev') \<Longrightarrow> writers dev' = writers dev"
  "xfifo_dma_write k intr pos n dev = (r, dev') \<Longrightarrow> writers dev' = writers dev"
  "xfifo_dma_read_wake m dev = (q, dev') \<Longrightarrow> writers dev' = writers dev"
  "xfifo_dma_write_wake m dev = (q, dev') \<Longrightarrow> writers dev' = writers dev"
  by (auto simp: xfifo_dma_read_def xfifo_dma_write_def xfifo_dma_read_wake_def xfifo_dma_write_wake_def
      xfifo_dma_reset_fifo_def emit_def Let_def split: if_splits option.splits)

lemma writers_ok_set_file:
  assumes "writers_ok s" "writing x = writing (xfiles s t)" "writers dev = writers (xdev s)"
  shows "writers_ok (set_file t x dev s)"
  using assms by (auto simp: writers_ok_def set_file_def)

lemma writers_ok_step: "\<lbrakk>xstep k s s'; writers_ok s\<rbrakk> \<Longrightarrow> writers_ok s'"
proof (induction rule: xstep.induct)
  case (step_open s t intr fl r dev)
  then show ?case
    by (auto simp: xfifo_dma_open_def writers_ok_def set_file_def EBUSY_def ERESTARTSYS_def split: if_splits)
next
  case (step_release s t fl intr r dev)
  then have w: "fl AND O_ACCMODE \<noteq> O_RDONLY \<Longrightarrow> writers (xdev s) = 1 \<and> (\<forall>u. writing (xfiles s u) \<longrightarrow> u = t)"
    unfolding writers_ok_def by (metis writing.simps(2))
  show ?case
  proof (cases "fl AND O_ACCMODE = O_RDONLY \<or> intr")
    case True
    with step_release show ?thesis
      by (auto simp: xfifo_dma_release_def writers_ok_def set_file_def Let_def split: if_splits)
  next
    case False
    with step_release w show ?thesis
      by (auto simp: xfifo_dma_release_def writers_ok_def set_file_def Let_def)
  qed
next
  case (step_read s t fl intr pos n r dev)
  then show ?case
    by (intro writers_ok_set_file) (auto dest: transfers_keep_writers split: sum.splits)
next
  case (step_write s t fl intr pos n r dev)
  then show ?case
    by (intro writers_ok_set_file) (auto dest: transfers_keep_writers split: sum.splits)
next
  case (step_done s)
  then show ?case by (simp add: writers_ok_def xfifo_dma_done_callback_def)
next
  case (step_fault s)
  then show ?case by (simp add: writers_ok_def xfifo_dma_fault_callback_def)
next
  case (step_read_wake s t fl m signalled r dev)
  then show ?case by (intro writers_ok_set_file) (auto dest: transfers_keep_writers)
next
  case (step_write_wake s t fl m signalled r dev)
  then show ?case by (intro writers_ok_set_file) (auto dest: transfers_keep_writers)
qed

lemma writers_ok_reach: "\<lbrakk>xreach k s s'; writers_ok s\<rbrakk> \<Longrightarrow> writers_ok s'"
  by (induction rule: rtranclp_induct) (auto intro: writers_ok_step)

lemma writers_ok_init: "writers dev = 0 \<Longrightarrow> writers_ok (xinit dev)"
  by (simp add: writers_ok_def xinit_def)



definition sample_dev :: xfifo_dma_dev where
  "sample_dev = zeroed_dev\<lparr>fifo_depth := 65536, burst_length := 16, x_physaddr := 0x80000000\<rparr>"

definition sample_kernel :: dma_kernel where
  "sample_kernel = \<lparr>dma_alloc_coherent = (\<lambda>log n. Some (of_nat (length log) * 0x100000 + 0x1000, of_nat (length log) * 0x100000)),
     request_dma = (\<lambda>log c. if RequestDma c \<in> set log then -16 else 0)\<rparr>"


section \<open>An interrupted release\<close>

text \<open>A writer is leaked: \<open>writers\<close> is 1 and no file is open for writing.\<close>

definition leaked :: "xsys \<Rightarrow> bool" where
  "leaked s \<longleftrightarrow> writers (xdev s) = 1 \<and> (\<forall>t. \<not> writing (xfiles s t))"

lemma leaked_step: "\<lbrakk>xstep k s s'; leaked s\<rbrakk> \<Longrightarrow> leaked s'"
proof (induction rule: xstep.induct)
  case (step_open s t intr fl r dev)
  then show ?case
    by (auto simp: xfifo_dma_open_def leaked_def set_file_def EBUSY_def ERESTARTSYS_def split: if_splits)
next
  case (step_release s t fl intr r dev)
  then have "fl AND O_ACCMODE = O_RDONLY" unfolding leaked_def by (metis writing.simps(2))
  with step_release show ?case
    by (auto simp: xfifo_dma_release_def leaked_def set_file_def Let_def split: if_splits)
next
  case (step_read s t fl intr pos n r dev)
  then have "\<not> writing (Opened fl)" unfolding leaked_def by metis
  with step_read show ?case
    by (auto simp: leaked_def set_file_def dest: transfers_keep_writers split: sum.splits)
next
  case (step_write s t fl intr pos n r dev)
  then have "\<not> writing (Opened fl)" unfolding leaked_def by metis
  with step_write show ?case
    by (auto simp: leaked_def set_file_def dest: transfers_keep_writers split: sum.splits)
next
  case (step_done s)
  then show ?case by (simp add: leaked_def xfifo_dma_done_callback_def)
next
  case (step_fault s)
  then show ?case by (simp add: leaked_def xfifo_dma_fault_callback_def)
next
  case (step_read_wake s t fl m signalled r dev)
  then have "\<not> writing (Sleeping fl True m)" unfolding leaked_def by metis
  with step_read_wake show ?case by (auto simp: leaked_def set_file_def dest: transfers_keep_writers)
next
  case (step_write_wake s t fl m signalled r dev)
  then have "\<not> writing (Sleeping fl False m)" unfolding leaked_def by metis
  with step_write_wake show ?case by (auto simp: leaked_def set_file_def dest: transfers_keep_writers)
qed

text \<open>
  C34. A release whose lock is interrupted shuts writers out for good: when the only writer closes
  and \<^verbatim>\<open>xfifo_dma_release\<close> returns \<^verbatim>\<open>-EINTR\<close>, then in every state reachable from there, no matter
  what is opened, closed or completed, no file is open for writing and opening one fails with
  \<^verbatim>\<open>-EBUSY\<close>.
\<close>

theorem xfifo_interrupted_release_locks_out:
  assumes "writers_ok s" "xfiles s t = Opened fl" "fl AND O_ACCMODE \<noteq> O_RDONLY"
    "xfifo_dma_release True fl (xdev s) = (r, dev)" "xreach k (set_file t Closed dev s) s'"
  shows "r = - EINTR \<and> \<not> writing (xfiles s' u) \<and>
    (fl' AND O_ACCMODE \<noteq> O_RDONLY \<longrightarrow> xfifo_dma_open False fl' (xdev s') = (- EBUSY, xdev s'))"
proof -
  have w: "writing (xfiles s t)" using assms(2,3) by simp
  have d: "dev = xdev s" "r = - EINTR" using assms(4) by (auto simp: xfifo_dma_release_def)
  have "leaked (set_file t Closed dev s)"
    using assms(1) w unfolding leaked_def writers_ok_def d set_file_def by auto
  with assms(5) have "leaked s'"
    by (induction rule: rtranclp_induct) (auto intro: leaked_step)
  with d show ?thesis by (auto simp: leaked_def xfifo_dma_open_def)
qed

theorem xfifo_interrupted_release_locks_out_witness:
  "xfifo_dma_open False 1 (sample_dev\<lparr>writers := 1\<rparr>) = (- EBUSY, sample_dev\<lparr>writers := 1\<rparr>)"
proof -
  let ?s = "set_file 0 (Opened 1) (sample_dev\<lparr>writers := 1\<rparr>) (xinit sample_dev)"
  have ok: "writers_ok ?s"
    by (auto simp: writers_ok_def set_file_def xinit_def)
  have "xreach sample_kernel (set_file 0 Closed (xdev ?s) ?s) (set_file 0 Closed (xdev ?s) ?s)" by blast
  from xfifo_interrupted_release_locks_out [OF ok _ _ _ this, of 1 "- EINTR" 0 1] show ?thesis
    by (simp add: set_file_def xfifo_dma_release_def O_ACCMODE_def O_RDONLY_def)
qed

section \<open>DMA buffers\<close>

text \<open>
  The buffers allocated and not yet freed (size, virtual and bus address), and whether every event
  uses only such buffers: a copy and an enabled channel must stay inside one, a free must name one.
\<close>

type_synonym dma_buffers = "(u32 \<times> u32 \<times> u32) list"

fun live_after :: "dma_buffers \<Rightarrow> dma_event list \<Rightarrow> dma_buffers" where
  "live_after L [] = L"
| "live_after L (DmaAlloc n v d # es) = live_after ((n, v, d) # L) es"
| "live_after L (DmaFree n v d # es) = live_after (remove1 (n, v, d) L) es"
| "live_after L (e # es) = live_after L es"

fun uses_ok :: "dma_buffers \<Rightarrow> dma_event list \<Rightarrow> bool" where
  "uses_ok L [] = True"
| "uses_ok L (DmaAlloc n v d # es) = uses_ok ((n, v, d) # L) es"
| "uses_ok L (DmaFree n v d # es) = ((n, v, d) \<in> set L \<and> uses_ok (remove1 (n, v, d) L) es)"
| "uses_ok L (CopyToUser v n # es) = ((\<exists>(m, w, d) \<in> set L. w = v \<and> n \<le> m) \<and> uses_ok L es)"
| "uses_ok L (CopyFromUser v n # es) = ((\<exists>(m, w, d) \<in> set L. w = v \<and> n \<le> m) \<and> uses_ok L es)"
| "uses_ok L (EnableDma c mode b n a i # es) = ((\<exists>(m, w, d) \<in> set L. d = b \<and> n \<le> m) \<and> uses_ok L es)"
| "uses_ok L (e # es) = uses_ok L es"

text \<open>A transfer that nothing disturbs: the locked part, one callback, the part after the sleep.\<close>

definition callback :: "bool \<Rightarrow> xfifo_dma_dev \<Rightarrow> xfifo_dma_dev" where
  "callback ok dev = (if ok then xfifo_dma_done_callback dev else xfifo_dma_fault_callback dev)"

definition read_alone ::
  "dma_kernel \<Rightarrow> bool \<Rightarrow> u64 \<Rightarrow> u32 \<Rightarrow> xfifo_dma_dev \<Rightarrow> int \<times> xfifo_dma_dev" where
  "read_alone k ok pos n dev =
     (case xfifo_dma_read k False pos n dev of
        (Inl e, dev) \<Rightarrow> (e, dev)
      | (Inr m, dev) \<Rightarrow> xfifo_dma_read_wake m (callback ok dev))"

definition write_alone ::
  "dma_kernel \<Rightarrow> bool \<Rightarrow> u64 \<Rightarrow> u32 \<Rightarrow> xfifo_dma_dev \<Rightarrow> int \<times> xfifo_dma_dev" where
  "write_alone k ok pos n dev =
     (case xfifo_dma_write k False pos n dev of
        (Inl e, dev) \<Rightarrow> (e, dev)
      | (Inr m, dev) \<Rightarrow> xfifo_dma_write_wake m (callback ok dev))"

lemmas xfifo_run_defs =
  read_alone_def write_alone_def callback_def xfifo_dma_read_def xfifo_dma_write_def
  xfifo_dma_read_wake_def xfifo_dma_write_wake_def xfifo_dma_done_callback_def
  xfifo_dma_fault_callback_def xfifo_dma_reset_fifo_def emit_def Let_def

text \<open>The three outcomes of an undisturbed transfer.\<close>

lemma read_alone_cases:
  assumes "read_alone k ok pos n dev = (r, dev1)"
  defines "m \<equiv> transfer_size_of dev n"
  obtains (no_memory) "r = - ENOMEM" "x_log dev1 = x_log dev" "busy dev1 = busy dev"
  | (no_channel) v d where "r = - EBUSY" "busy dev1 = busy dev"
      "x_log dev1 = x_log dev @ [DmaAlloc m v d, DmaFree m v d]"
  | (transferred) v d where "r = uint m" "busy dev1 = 0"
      "bytes_written dev1 = bytes_written dev + (if ok then m else 0)"
      "x_log dev1 = x_log dev @ [DmaAlloc m v d, RequestDma (dma_channel dev),
         EnableDma (dma_channel dev) DMA_MODE_READ d m (x_physaddr dev + ucast pos) True,
         CopyToUser v m, FreeDma (dma_channel dev), DmaFree m v d]"
proof (cases "dma_alloc_coherent k (x_log dev) m")
  case None
  with assms show ?thesis by (intro no_memory) (auto simp: xfifo_run_defs)
next
  case (Some vd)
  obtain v d where vd: "vd = (v, d)" by (cases vd)
  show ?thesis
  proof (cases "request_dma k (x_log dev @ [DmaAlloc m v d]) (dma_channel dev) = 0")
    case True
    with assms Some vd show ?thesis
      by (intro transferred [of v d]; cases ok) (auto simp: xfifo_run_defs)
  next
    case False
    with assms Some vd show ?thesis by (intro no_channel [of v d]) (auto simp: xfifo_run_defs)
  qed
qed

lemma write_alone_cases:
  assumes "write_alone k ok pos n dev = (r, dev1)"
  defines "m \<equiv> transfer_size_of dev n"
  obtains (no_memory) "r = - ENOMEM" "x_log dev1 = x_log dev" "busy dev1 = busy dev"
  | (no_channel) v d where "r = - EBUSY" "busy dev1 = busy dev"
      "x_log dev1 = x_log dev @ [DmaAlloc m v d, DmaFree m v d]"
  | (transferred) v d where "r = uint m" "busy dev1 = 0"
      "x_log dev1 = x_log dev @ [DmaAlloc m v d, RequestDma (dma_channel dev), CopyFromUser v m,
         FifoWrite (x_virtaddr dev + AXI_TXFIFO_STS) TXFIFO_STS_CLR,
         FifoWrite (x_virtaddr dev + AXI_TXFIFO_RST) TXFIFO_RST,
         EnableDma (dma_channel dev) DMA_MODE_WRITE d m (x_physaddr dev + ucast pos) False,
         FreeDma (dma_channel dev), DmaFree m v d]"
proof -
  have m': "transfer_size_of (dev\<lparr>x_writes := y\<rparr>) n = m" for y by (simp add: m_def transfer_size_of_def)
  show ?thesis
  proof (cases "dma_alloc_coherent k (x_log dev) m")
    case None
    with assms(1) show ?thesis by (intro no_memory) (auto simp: xfifo_run_defs m')
  next
    case (Some vd)
    obtain v d where vd: "vd = (v, d)" by (cases vd)
    show ?thesis
    proof (cases "request_dma k (x_log dev @ [DmaAlloc m v d]) (dma_channel dev) = 0")
      case True
      with assms(1) Some vd show ?thesis
        by (intro transferred [of v d]; cases ok) (auto simp: xfifo_run_defs m')
    next
      case False
      with assms(1) Some vd show ?thesis by (intro no_channel [of v d]) (auto simp: xfifo_run_defs m')
    qed
  qed
qed

text \<open>
  A transfer that runs alone accounts for its memory and its bytes: whatever the kernel answers
  and whether the channel completes or faults, a read or write uses only the buffer it allocated,
  frees it exactly once and leaves the set of live buffers as it was; it returns the requested
  size cut to the FIFO depth, or \<^verbatim>\<open>-ENOMEM\<close> or \<^verbatim>\<open>-EBUSY\<close> with the device not made busy; and a read
  programs the channel with the device address plus the file position.
\<close>

theorem xfifo_transfer_alone:
  assumes "read_alone k ok pos n dev = (r, dev1)" "write_alone k ok pos n dev = (w, dev2)"
  shows "(\<exists>es. x_log dev1 = x_log dev @ es \<and> uses_ok L es \<and> live_after L es = L \<and>
           (\<forall>c m b q a i. EnableDma c m b q a i \<in> set es \<longrightarrow>
              m = DMA_MODE_READ \<and> q = min n (fifo_depth dev) \<and> a = x_physaddr dev + ucast pos \<and> i))
    \<and> (r = uint (min n (fifo_depth dev)) \<and> busy dev1 = 0 \<and>
         bytes_written dev1 = bytes_written dev + (if ok then min n (fifo_depth dev) else 0)
       \<or> r \<in> {- ENOMEM, - EBUSY} \<and> busy dev1 = busy dev)
    \<and> (\<exists>es. x_log dev2 = x_log dev @ es \<and> uses_ok L es \<and> live_after L es = L)
    \<and> (w = uint (min n (fifo_depth dev)) \<and> busy dev2 = 0 \<or> w \<in> {- ENOMEM, - EBUSY} \<and> busy dev2 = busy dev)"
proof -
  have m: "transfer_size_of dev n = min n (fifo_depth dev)" by (auto simp: transfer_size_of_def min_def)
  note rd = read_alone_cases [OF assms(1), unfolded m] and wr = write_alone_cases [OF assms(2), unfolded m]
  have r: "\<exists>es. x_log dev1 = x_log dev @ es \<and> uses_ok L es \<and> live_after L es = L \<and>
      (\<forall>c m b q a i. EnableDma c m b q a i \<in> set es \<longrightarrow>
        m = DMA_MODE_READ \<and> q = min n (fifo_depth dev) \<and> a = x_physaddr dev + ucast pos \<and> i)"
    by (rule rd) auto
  moreover have "r = uint (min n (fifo_depth dev)) \<and> busy dev1 = 0 \<and>
         bytes_written dev1 = bytes_written dev + (if ok then min n (fifo_depth dev) else 0)
       \<or> r \<in> {- ENOMEM, - EBUSY} \<and> busy dev1 = busy dev"
    by (rule rd) auto
  moreover have "\<exists>es. x_log dev2 = x_log dev @ es \<and> uses_ok L es \<and> live_after L es = L"
    by (rule wr) auto
  moreover have "w = uint (min n (fifo_depth dev)) \<and> busy dev2 = 0 \<or> w \<in> {- ENOMEM, - EBUSY} \<and> busy dev2 = busy dev"
    by (rule wr) auto
  ultimately show ?thesis by (intro conjI)
qed

theorem xfifo_transfer_alone_witness:
  "\<exists>es. x_log (snd (read_alone sample_kernel True 8 100000 sample_dev)) = es \<and> uses_ok [] es \<and> live_after [] es = []"
proof -
  have e: "x_log sample_dev = []" by (simp add: sample_dev_def zeroed_dev_def)
  let ?x = "read_alone sample_kernel True 8 100000 sample_dev" and ?y = "write_alone sample_kernel True 8 100000 sample_dev"
  have "?x = (fst ?x, snd ?x)" "?y = (fst ?y, snd ?y)" by simp_all
  from xfifo_transfer_alone [OF this, of "[]"] show ?thesis unfolding e append_Nil by blast
qed

section \<open>Interleavings that fail\<close>

text \<open>
  C33. A second reader breaks the first: while one read sleeps, a read on another file fails with
  \<^verbatim>\<open>-EBUSY\<close> because the kernel grants the channel once, but it has replaced the buffer addresses in
  the shared device structure and freed its own buffer. When the first read wakes up it copies from
  the freed buffer and frees it again, and its own buffer stays allocated.
\<close>

theorem xfifo_second_reader_use_after_free:
  assumes "xfifo_dma_read k False pos n dev = (Inr m, dev1)"
    "buffer_v_addr dev1 = v" "buffer_d_addr dev1 = d"
    "dma_alloc_coherent k (x_log dev1) (transfer_size_of dev1 n') = Some (v', d')" "v' \<noteq> v"
    "request_dma k (x_log dev1 @ [DmaAlloc (transfer_size_of dev1 n') v' d']) (dma_channel dev1) \<noteq> 0"
    "\<forall>(q, w, b) \<in> set L. w \<noteq> v'"
    "xfifo_dma_read k False pos' n' dev1 = (r', dev2)"
    "xfifo_dma_read_wake m (callback ok dev2) = (r, dev3)"
  shows "r' = Inl (- EBUSY) \<and> r = uint m \<and>
    (\<exists>es. x_log dev3 = x_log dev @ es \<and> \<not> uses_ok L es \<and> (m, v, d) \<in> set (live_after L es))"
proof -
  have m: "m = transfer_size_of dev n" and log1: "x_log dev1 = x_log dev @ [DmaAlloc m v d, RequestDma (dma_channel dev),
      EnableDma (dma_channel dev) DMA_MODE_READ d m (x_physaddr dev + ucast pos) True]"
    using assms(1-3) by (auto simp: xfifo_dma_read_def Let_def emit_def split: option.splits if_splits)
  have r2: "r' = Inl (- EBUSY)" and dev2: "buffer_v_addr dev2 = v'" "buffer_d_addr dev2 = d'"
    "x_log dev2 = x_log dev1 @ [DmaAlloc (transfer_size_of dev1 n') v' d', DmaFree (transfer_size_of dev1 n') v' d']"
    using assms(4,6,8) by (auto simp: xfifo_dma_read_def Let_def emit_def)
  have "x_log dev3 = x_log dev2 @ [CopyToUser v' m, FreeDma (dma_channel dev2), DmaFree (x_count dev2) v' d']" "r = uint m"
    using assms(9) dev2 by (cases ok; auto simp: xfifo_run_defs)+
  with log1 dev2 r2 assms(5,7) show ?thesis by (auto simp: in_set_remove1)
qed

theorem xfifo_second_reader_use_after_free_witness:
  "\<exists>es. x_log (snd (xfifo_dma_read_wake 16 (callback True
      (snd (xfifo_dma_read sample_kernel False 0 16 (snd (xfifo_dma_read sample_kernel False 0 16 sample_dev)))))))
    = es \<and> \<not> uses_ok [] es"
proof -
  let ?k = sample_kernel
  let ?x1 = "xfifo_dma_read ?k False 0 16 sample_dev"
  let ?x2 = "xfifo_dma_read ?k False 0 16 (snd ?x1)"
  let ?x3 = "xfifo_dma_read_wake 16 (callback True (snd ?x2))"
  have x1: "?x1 = (Inr 16, snd ?x1)" "buffer_v_addr (snd ?x1) = 0x1000" "buffer_d_addr (snd ?x1) = 0"
    "transfer_size_of (snd ?x1) 16 = 16" "length (x_log (snd ?x1)) = 3" "RequestDma (dma_channel (snd ?x1)) \<in> set (x_log (snd ?x1))"
    by (simp_all add: sample_kernel_def sample_dev_def zeroed_dev_def xfifo_dma_read_def Let_def emit_def transfer_size_of_def)
  have "\<exists>es. x_log (snd ?x3) = x_log sample_dev @ es \<and> \<not> uses_ok [] es"
    using xfifo_second_reader_use_after_free [OF x1(1), where v = "0x1000" and d = 0 and n' = 16 and v' = "0x301000" and d' = "0x300000"
        and L = "[]" and pos' = 0 and r' = "fst ?x2" and ?dev2.0 = "snd ?x2" and ok = True and r = "fst ?x3" and ?dev3.0 = "snd ?x3"]
      x1 by (auto simp: sample_kernel_def)
  then show ?thesis by (simp add: sample_dev_def zeroed_dev_def)
qed

text \<open>
  A signal during a transfer frees the buffer under the running channel: the result of the
  wait is ignored, so the read goes on while \<^verbatim>\<open>busy\<close> is still 1, copies whatever the buffer holds,
  reports the full size, and releases the buffer the enabled channel is writing to.
\<close>

theorem xfifo_signal_frees_running_buffer:
  assumes "xfifo_dma_read k False pos n dev = (Inr m, dev1)" "xfifo_dma_read_wake m dev1 = (r, dev2)"
  shows "r = uint m \<and> busy dev2 = 1 \<and> (\<exists>v d. x_log dev2 = x_log dev @
      [DmaAlloc m v d, RequestDma (dma_channel dev),
       EnableDma (dma_channel dev) DMA_MODE_READ d m (x_physaddr dev + ucast pos) True,
       CopyToUser v m, FreeDma (dma_channel dev), DmaFree m v d])"
  using assms by (auto simp: xfifo_run_defs split: option.splits if_splits)

theorem xfifo_signal_frees_running_buffer_witness:
  "busy (snd (xfifo_dma_read_wake 16 (snd (xfifo_dma_read sample_kernel False 0 16 sample_dev)))) = 1"
proof -
  let ?x = "xfifo_dma_read sample_kernel False 0 16 sample_dev"
  have "?x = (Inr 16, snd ?x)"
    by (simp add: sample_kernel_def sample_dev_def zeroed_dev_def xfifo_dma_read_def Let_def emit_def transfer_size_of_def)
  from xfifo_signal_frees_running_buffer [OF this, of "fst (xfifo_dma_read_wake 16 (snd ?x))" "snd (xfifo_dma_read_wake 16 (snd ?x))"]
  show ?thesis by simp
qed

end
