(* ===== verification/Gps.thy ===== *)
theory Gps
  imports CString "HOL-Library.Char_ord"
begin

text \<open>
  \<^verbatim>\<open>application/gps.c\<close>, apart from the serial line and the stand-alone program: the framing
  of the NMEA byte stream, the checksum, the split into fields, and the decoding of the \<^verbatim>\<open>GPGGA\<close> and \<^verbatim>\<open>GPRMC\<close> sentences into
  \<^verbatim>\<open>gps_data\<close> and the system clock. The static variables of the file are one record. Pointers into
  \<^verbatim>\<open>sbuff\<close> are offsets; \<^verbatim>\<open>int\<close> and \<^verbatim>\<open>long\<close> variables are 32-bit words.
\<close>

section \<open>State\<close>

text \<open>The library's \<^verbatim>\<open>struct tm\<close> is modelled by the same record.\<close>

record MyTm =
  tm_sec :: u32
  tm_min :: u32
  tm_hour :: u32
  tm_mday :: u32
  tm_mon :: u32
  tm_year :: u32
  tm_zone :: u32

record gps_data_t =
  d_tm_time :: MyTm
  ns_d :: u32
  ns_m10000 :: u32
  ew_d :: u32
  ew_m10000 :: u32
  ns :: char
  ew :: char
  status :: char
  card :: char
  speed100 :: u32
  cog100 :: u32
  count :: u32
  height_d :: u32
  height_m :: u32

text \<open>
  \<open>s_index\<close> is \<open>None\<close> for -1. \<open>clock\<close> is the system time in seconds, which the environment may
  advance between calls, and \<open>clock_sets\<close> what \<^verbatim>\<open>settimeofday\<close> was called with.
\<close>

record gps_state =
  gps_data :: gps_data_t
  tm_time :: MyTm
  s_gpsOK_1 :: bool
  s_gpsOK_2 :: bool
  timesync :: bool
  gps_debug :: bool
  real :: bool
  wdt :: nat
  sbuff :: "char list"
  s_index :: "nat option"
  cmd_list :: "nat option list"
  cmd_count :: nat
  clock :: u32
  clock_sets :: "u32 list"

section \<open>Library functions\<close>

text \<open>
  One integer conversion of \<^verbatim>\<open>sscanf\<close>: white space is skipped, then at most \<open>width\<close> characters of
  an optionally signed number are used. \<open>None\<close>: the conversion fails and the call stops.
\<close>

definition scan_int :: "nat option \<Rightarrow> char list \<Rightarrow> (u32 \<times> char list) option" where
  "scan_int width s =
     (let s = dropWhile isspace s;
          t = (case width of None \<Rightarrow> s | Some w \<Rightarrow> take w s);
          signed = (t \<noteq> [] \<and> (hd t = CHR ''-'' \<or> hd t = CHR ''+''));
          ds = takeWhile isdigit (if signed then tl t else t);
          n = int (digits_val ds);
          v = saturate32 (if signed \<and> hd t = CHR ''-'' then - n else n)
      in if ds = [] then None
         else Some (word_of_int v, drop (length ds + (if signed then 1 else 0)) s))"

text \<open>
  \<^verbatim>\<open>sscanf\<close> with a format of integer conversions and literal characters: the values assigned before
  the first mismatch, in order. \<open>nth_or vs k old\<close> is variable \<open>k\<close> of the call afterwards.
\<close>

datatype scan_item = Conv "nat option" | Lit char

fun sscanf :: "scan_item list \<Rightarrow> char list \<Rightarrow> u32 list" where
  "sscanf [] s = []"
| "sscanf (Conv w # fmt) s = (case scan_int w s of None \<Rightarrow> [] | Some (v, r) \<Rightarrow> v # sscanf fmt r)"
| "sscanf (Lit c # fmt) s =
     (case s of [] \<Rightarrow> [] | d # ds \<Rightarrow> if d = c then sscanf fmt ds else [])"

definition nth_or :: "u32 list \<Rightarrow> nat \<Rightarrow> u32 \<Rightarrow> u32" where
  "nth_or vs k old = (if k < length vs then vs ! k else old)"

text \<open>
  \<^verbatim>\<open>mktime\<close> in the time zone UTC: the seconds since 1970 of a broken-down time, which it also
  normalises. Years count from 1900 and months from 0. Outside 32 bits it returns -1.
\<close>

definition days_from_civil :: "int \<Rightarrow> int \<Rightarrow> int \<Rightarrow> int" where
  "days_from_civil y m d =
     (let y = (if m \<le> 2 then y - 1 else y);
          doy = (153 * (if 2 < m then m - 3 else m + 9) + 2) div 5 + d - 1;
          doe = (y mod 400) * 365 + (y mod 400) div 4 - (y mod 400) div 100 + doy
      in (y div 400) * 146097 + doe - 719468)"

definition civil_from_days :: "int \<Rightarrow> int \<times> int \<times> int" where
  "civil_from_days n =
     (let z = n + 719468;
          doe = z mod 146097;
          yoe = (doe - doe div 1460 + doe div 36524 - doe div 146096) div 365;
          doy = doe - (365 * yoe + yoe div 4 - yoe div 100);
          mp = (5 * doy + 2) div 153;
          m = (if mp < 10 then mp + 3 else mp - 9)
      in (yoe + 400 * (z div 146097) + (if m \<le> 2 then 1 else 0), m, doy - (153 * mp + 2) div 5 + 1))"

definition mktime :: "MyTm \<Rightarrow> u32 \<times> MyTm" where
  "mktime t =
     (let mon = sint (tm_mon t);
          y = sint (tm_year t) + 1900 + mon div 12;
          days = days_from_civil y (mon mod 12 + 1) 1 + sint (tm_mday t) - 1;
          total = days * 86400 + sint (tm_hour t) * 3600 + sint (tm_min t) * 60 + sint (tm_sec t);
          (cy, cm, cd) = civil_from_days (total div 86400);
          r = total mod 86400
      in if total < - (2 ^ 31) \<or> 2 ^ 31 \<le> total then (-1, t)
         else (word_of_int total,
               \<lparr>tm_sec = word_of_int (r mod 60), tm_min = word_of_int (r div 60 mod 60),
                tm_hour = word_of_int (r div 3600), tm_mday = word_of_int cd,
                tm_mon = word_of_int (cm - 1), tm_year = word_of_int (cy - 1900), tm_zone = tm_zone t\<rparr>))"

section \<open>Sentences\<close>

text \<open>\<^verbatim>\<open>strchr\<close> from an offset of a buffer: the offset of the character, if it comes before the NUL.\<close>

definition strchr :: "char list \<Rightarrow> nat \<Rightarrow> char \<Rightarrow> nat option" where
  "strchr buf from c =
     (let s = cstr (drop from buf); t = takeWhile (\<lambda>x. x \<noteq> c) s in
      if length t < length s then Some (from + length t) else None)"

definition hex_digit :: "nat \<Rightarrow> char" where
  "hex_digit n = ''0123456789ABCDEF'' ! n"

text \<open>\<^verbatim>\<open>sprintf("%02X", cs)\<close>\<close>

definition hex2 :: "u8 \<Rightarrow> char list" where
  "hex2 cs = [hex_digit (unat cs div 16), hex_digit (unat cs mod 16)]"

definition xor_bytes :: "char list \<Rightarrow> u8" where
  "xor_bytes s = fold (\<lambda>c cs. cs XOR word_of_nat (of_char c)) s 0"

text \<open>
  True for a correct checksum. Without a \<^verbatim>\<open>*\<close> the code goes on with the null pointer.
\<close>

definition gps_checksum :: "gps_state \<Rightarrow> bool res" where
  "gps_checksum s =
     (case strchr (sbuff s) 0 (CHR ''*'') of
        None \<Rightarrow> Inl NullPointer
      | Some p \<Rightarrow>
          Inr (strncmp_eq (hex2 (xor_bytes (take (p - 1) (drop 1 (sbuff s)))))
                 (cstr (drop (p + 1) (sbuff s))) 2))"

text \<open>
  The loop of \<^verbatim>\<open>gps_proc_frame\<close>: it records where each field starts and cuts the text at the
  commas. The result also gives the last \<open>i\<close> and the start of the last field.
\<close>

function split_fields ::
  "char list \<Rightarrow> nat option list \<Rightarrow> nat \<Rightarrow> nat \<Rightarrow> (char list \<times> nat option list \<times> nat \<times> nat) res" where
  "split_fields buf cmds i p =
     need (i < length cmds) OutOfBounds
       (let cmds' = cmds[i := Some p] in
        case strchr buf p (CHR '','') of
          None \<Rightarrow> Inr (buf, cmds', i, p)
        | Some q \<Rightarrow> split_fields (buf[q := NUL]) cmds' (i + 1) (q + 1))"
  by pat_completeness auto
termination
  by (relation "measure (\<lambda>(buf, cmds, i, p). length cmds - i)") (auto simp: need_def)

declare split_fields.simps [simp del]

text \<open>A field as a string; the pointer may never have been set.\<close>

definition field_at :: "gps_state \<Rightarrow> nat \<Rightarrow> char list res" where
  "field_at s k =
     (case cmd_list s ! k of None \<Rightarrow> Inl NullPointer | Some p \<Rightarrow> Inr (cstr (drop p (sbuff s))))"

definition first_char :: "char list \<Rightarrow> char" where
  "first_char f = (case f of [] \<Rightarrow> NUL | c # cs \<Rightarrow> c)"

definition gps_gpgga :: "gps_state \<Rightarrow> gps_state res" where
  "gps_gpgga s =
     andThen (field_at s 0) (\<lambda>name.
       if name \<noteq> ''$GPGGA'' then Inr s
       else
         let s = s\<lparr>s_gpsOK_1 := True\<rparr> in
         andThen (field_at s 7) (\<lambda>f7.
           let d = gps_data s;
               d = (if isdigit (first_char f7)
                    then d\<lparr>count := nth_or (sscanf [Conv (Some 2)] f7) 0 (count d)\<rparr> else d)
           in andThen (field_at s 9) (\<lambda>f9.
                let vs = sscanf [Conv None, Lit (CHR ''.''), Conv None] f9;
                    d = d\<lparr>height_d := nth_or vs 0 (height_d d), height_m := nth_or vs 1 (height_m d)\<rparr>
                in Inr (s\<lparr>gps_data := d\<rparr>))))"

text \<open>
  \<open>junk\<close> gives the values the uninitialised locals \<^verbatim>\<open>year\<close> and \<^verbatim>\<open>tmp\<close> have on entry. The steps of
  \<^verbatim>\<open>gps_gprmc\<close>: the time of day, the date, the system clock, the position.
\<close>

definition six_digits :: "scan_item list" where
  "six_digits = [Conv (Some 2), Conv (Some 2), Conv (Some 2)]"

definition set_time :: "char list \<Rightarrow> MyTm \<Rightarrow> MyTm" where
  "set_time f t =
     (let vs = sscanf six_digits f in
      t\<lparr>tm_hour := nth_or vs 0 (tm_hour t), tm_min := nth_or vs 1 (tm_min t),
        tm_sec := nth_or vs 2 (tm_sec t)\<rparr>)"

definition set_date :: "char list \<Rightarrow> MyTm \<Rightarrow> MyTm" where
  "set_date f t =
     (let vs = sscanf six_digits f in
      t\<lparr>tm_mday := nth_or vs 0 (tm_mday t), tm_mon := nth_or vs 1 (tm_mon t)\<rparr>)"

definition sync_clock :: "u32 \<Rightarrow> gps_state \<Rightarrow> gps_state" where
  "sync_clock tmg s =
     (if clock s AND 0xffffffc0 \<noteq> tmg AND 0xffffffc0
      then s\<lparr>clock := tmg, clock_sets := clock_sets s @ [tmg]\<rparr> else s)"

definition zero_tm :: MyTm where
  "zero_tm = \<lparr>tm_sec = 0, tm_min = 0, tm_hour = 0, tm_mday = 0, tm_mon = 0, tm_year = 0, tm_zone = 0\<rparr>"

definition set_position :: "char list \<Rightarrow> char list \<Rightarrow> u32 \<Rightarrow> gps_data_t \<Rightarrow> gps_data_t" where
  "set_position f3 f5 tmp d =
     (let lat = (if isdigit (first_char f3)
                 then sscanf [Conv (Some 2), Conv (Some 2), Lit (CHR ''.''), Conv (Some 4)] f3 else []);
          d = d\<lparr>ns_d := nth_or lat 0 (ns_d d), ns_m10000 := nth_or lat 1 (ns_m10000 d)\<rparr>;
          tmp = nth_or lat 2 tmp;
          d = d\<lparr>ns_m10000 := ns_m10000 d * 10000 + tmp\<rparr>;
          lon = (if isdigit (first_char f5)
                 then sscanf [Conv (Some 3), Conv (Some 2), Lit (CHR ''.''), Conv (Some 4)] f5 else []);
          d = d\<lparr>ew_d := nth_or lon 0 (ew_d d), ew_m10000 := nth_or lon 1 (ew_m10000 d)\<rparr>;
          tmp = nth_or lon 2 tmp
      in d\<lparr>ew_m10000 := ew_m10000 d * 10000 + tmp\<rparr>)"

definition gps_gprmc :: "(gps_state \<Rightarrow> u32 \<times> u32) \<Rightarrow> gps_state \<Rightarrow> gps_state res" where
  "gps_gprmc junk s =
     andThen (field_at s 0) (\<lambda>name.
       if name \<noteq> ''$GPRMC'' then Inr s
       else
         let (year, tmp) = junk s;
             s = s\<lparr>s_gpsOK_2 := True, gps_data := (gps_data s)\<lparr>d_tm_time := zero_tm\<rparr>\<rparr> in
         andThen (field_at s 1) (\<lambda>f1.
         let s = (if isdigit (first_char f1)
                  then s\<lparr>gps_data := (gps_data s)\<lparr>d_tm_time := set_time f1 (d_tm_time (gps_data s))\<rparr>,
                         tm_time := set_time f1 (tm_time s)\<rparr> else s) in
         andThen (field_at s 7) (\<lambda>f7.
         andThen (if isdigit (first_char f7) then andThen (field_at s 9) (\<lambda>f9. Inr (Some f9)) else Inr None) (\<lambda>date.
         let (s, year) =
               (case date of
                  None \<Rightarrow> (s, year)
                | Some f9 \<Rightarrow>
                    (s\<lparr>gps_data := (gps_data s)\<lparr>d_tm_time := set_date f9 (d_tm_time (gps_data s))\<rparr>,
                       tm_time := set_date f9 (tm_time s)\<rparr>,
                     nth_or (sscanf six_digits f9) 2 year));
             year = year + 2000;
             d = gps_data s;
             d = d\<lparr>d_tm_time := (d_tm_time d)\<lparr>tm_year := year\<rparr>\<rparr>;
             (tmg, t) = mktime ((tm_time s)\<lparr>tm_year := year - 1900, tm_mon := tm_mon (tm_time s) - 1\<rparr>);
             s = sync_clock tmg (s\<lparr>gps_data := d, tm_time := t\<rparr>)
         in if timesync s then Inl ProcessExit
            else
              andThen (field_at s 3) (\<lambda>f3. andThen (field_at s 5) (\<lambda>f5.
              andThen (field_at s 4) (\<lambda>f4. andThen (field_at s 6) (\<lambda>f6.
              andThen (field_at s 2) (\<lambda>f2.
              Inr (s\<lparr>gps_data := (set_position f3 f5 tmp (gps_data s))
                       \<lparr>ns := first_char f4, ew := first_char f6, status := first_char f2\<rparr>\<rparr>))))))))))"

definition gps_proc_frame :: "(gps_state \<Rightarrow> u32 \<times> u32) \<Rightarrow> gps_state \<Rightarrow> gps_state res" where
  "gps_proc_frame junk s =
     andThen (split_fields (sbuff s) (cmd_list s) 0 0) (\<lambda>(buf, cmds, i, p).
       case strchr buf p (CHR ''*'') of
         None \<Rightarrow> Inl NullPointer
       | Some q \<Rightarrow>
           let s = s\<lparr>sbuff := buf[q := NUL], cmd_list := cmds\<rparr> in
           if i = 0 then Inr s
           else andThen (gps_gpgga (s\<lparr>cmd_count := i + 1\<rparr>)) (gps_gprmc junk))"

section \<open>The byte stream\<close>

abbreviation CR :: char where "CR \<equiv> CHR 0x0D"

definition proc_byte :: "(gps_state \<Rightarrow> u32 \<times> u32) \<Rightarrow> char \<Rightarrow> gps_state \<Rightarrow> gps_state res" where
  "proc_byte junk c s =
     (if c = CHR ''$'' then Inr (s\<lparr>s_index := Some 1, sbuff := (sbuff s)[0 := c, 1 := NUL]\<rparr>)
      else
        case s_index s of
          None \<Rightarrow> Inr s
        | Some i \<Rightarrow>
            if c = CR then
              andThen (gps_checksum s) (\<lambda>ok.
                andThen (if ok then gps_proc_frame junk s else Inr s) (\<lambda>s. Inr (s\<lparr>s_index := None\<rparr>)))
            else
              need (i + 1 < length (sbuff s)) OutOfBounds
                (Inr (s\<lparr>sbuff := (sbuff s)[i := c, i + 1 := NUL], s_index := Some (i + 1)\<rparr>)))"

fun proc_gps :: "(gps_state \<Rightarrow> u32 \<times> u32) \<Rightarrow> char list \<Rightarrow> gps_state \<Rightarrow> gps_state res" where
  "proc_gps junk [] s = Inr s"
| "proc_gps junk (c # cs) s = andThen (proc_byte junk c s) (proc_gps junk cs)"

text \<open>
  \<^verbatim>\<open>PraseGPS\<close> reads lines until both sentences have been seen; the lines to come are a parameter,
  and \<open>None\<close> means that it is still waiting for more. \<^verbatim>\<open>GpsThread\<close> goes on for ever: \<open>GpsThread_round\<close>
  is the body of its loop.
\<close>

fun PraseGPS_loop ::
  "(gps_state \<Rightarrow> u32 \<times> u32) \<Rightarrow> char list list \<Rightarrow> gps_state \<Rightarrow> (gps_state \<times> char list list) option res" where
  "PraseGPS_loop junk [] s = Inr None"
| "PraseGPS_loop junk (l # ls) s =
     andThen (proc_gps junk (cstr l) s) (\<lambda>s.
       if s_gpsOK_1 s \<and> s_gpsOK_2 s then Inr (Some (s, ls)) else PraseGPS_loop junk ls s)"

definition PraseGPS ::
  "(gps_state \<Rightarrow> u32 \<times> u32) \<Rightarrow> char list list \<Rightarrow> gps_state \<Rightarrow> (gps_data_t \<times> gps_state \<times> char list list) option res" where
  "PraseGPS junk lines s =
     andThen (PraseGPS_loop junk lines s) (\<lambda>r. Inr (map_option (\<lambda>(s, ls).
       (gps_data s, s\<lparr>s_gpsOK_1 := False, s_gpsOK_2 := False\<rparr>, ls)) r))"

definition GpsThread_round :: "(gps_state \<Rightarrow> u32 \<times> u32) \<Rightarrow> char list \<Rightarrow> gps_state \<Rightarrow> gps_state res" where
  "GpsThread_round junk line s =
     andThen (proc_gps junk (cstr line) s) (\<lambda>s.
       Inr (if s_gpsOK_1 s \<and> s_gpsOK_2 s then s\<lparr>s_gpsOK_1 := False, s_gpsOK_2 := False\<rparr> else s))"

definition GetGpsInfo :: "gps_state \<Rightarrow> gps_data_t" where
  "GetGpsInfo s = gps_data s"

section \<open>Arguments and watchdog\<close>

fun proc_args_loop :: "char list list \<Rightarrow> gps_state \<Rightarrow> gps_state" where
  "proc_args_loop [] s = s"
| "proc_args_loop (a # as) s =
     (if a = ''-timesync'' then proc_args_loop as (s\<lparr>timesync := True\<rparr>)
      else
        let s = (if a = ''-d'' then s\<lparr>gps_debug := True\<rparr> else s);
            s = (if a = ''-r'' then s\<lparr>real := True\<rparr> else s)
        in proc_args_loop as s)"

definition proc_args :: "char list list \<Rightarrow> gps_state \<Rightarrow> gps_state" where
  "proc_args argv s = (if length argv < 2 then s else proc_args_loop (tl argv) s)"

definition main_therad_alarm :: "gps_state \<Rightarrow> gps_state res" where
  "main_therad_alarm s =
     (let s = s\<lparr>wdt := wdt s + 1\<rparr> in if 10 < wdt s then Inl ProcessExit else Inr s)"

end
