(* ===== verification/Serial.thy ===== *)
theory Serial
  imports Gps
begin

text \<open>
  The set-up of the serial line in \<^verbatim>\<open>application/gps.c\<close>: \<^verbatim>\<open>set_opt\<close> builds a \<^verbatim>\<open>struct termios\<close> from
  speed, data bits, parity and stop bits, and \<^verbatim>\<open>InitGps\<close> opens the port with it. The flag values
  are those of the Linux headers for the target.
\<close>

section \<open>Line settings\<close>

record termios =
  c_iflag :: u32
  c_oflag :: u32
  c_cflag :: u32
  c_lflag :: u32
  c_VTIME :: u8
  c_VMIN :: u8

definition CSIZE :: u32 where "CSIZE = 0x30"
definition CS7 :: u32 where "CS7 = 0x20"
definition CS8 :: u32 where "CS8 = 0x30"
definition CSTOPB :: u32 where "CSTOPB = 0x40"
definition CREAD :: u32 where "CREAD = 0x80"
definition PARENB :: u32 where "PARENB = 0x100"
definition PARODD :: u32 where "PARODD = 0x200"
definition CLOCAL :: u32 where "CLOCAL = 0x800"
definition CBAUD :: u32 where "CBAUD = 0x100F"
definition CRTSCTS :: u32 where "CRTSCTS = 0x80000000"
definition INPCK :: u32 where "INPCK = 0x10"
definition ISTRIP :: u32 where "ISTRIP = 0x20"
definition B2400 :: u32 where "B2400 = 0xB"
definition B4800 :: u32 where "B4800 = 0xC"
definition B9600 :: u32 where "B9600 = 0xD"
definition B115200 :: u32 where "B115200 = 0x1002"

lemmas termios_flags = CSIZE_def CS7_def CS8_def CSTOPB_def CREAD_def PARENB_def PARODD_def CLOCAL_def
  CBAUD_def CRTSCTS_def INPCK_def ISTRIP_def B2400_def B4800_def B9600_def B115200_def

text \<open>\<^verbatim>\<open>cfsetispeed\<close> and \<^verbatim>\<open>cfsetospeed\<close> both store the speed in the control flags.\<close>

definition cfsetspeed :: "u32 \<Rightarrow> u32 \<Rightarrow> u32" where
  "cfsetspeed b cflag = (cflag AND NOT CBAUD) OR b"

text \<open>The steps of \<^verbatim>\<open>set_opt\<close> on the control and input flags.\<close>

definition set_bits :: "int \<Rightarrow> u32 \<Rightarrow> u32" where
  "set_bits nBits cflag = (if nBits = 7 then cflag OR CS7 else if nBits = 8 then cflag OR CS8 else cflag)"

definition set_parity :: "char \<Rightarrow> u32 \<times> u32 \<Rightarrow> u32 \<times> u32" where
  "set_parity nEvent = (\<lambda>(cflag, iflag).
     if nEvent = CHR ''O'' then ((cflag OR PARENB) OR PARODD, iflag OR (INPCK OR ISTRIP))
     else if nEvent = CHR ''E'' then ((cflag OR PARENB) AND NOT PARODD, iflag OR (INPCK OR ISTRIP))
     else if nEvent = CHR ''N'' then (cflag AND NOT PARENB, iflag)
     else (cflag, iflag))"

definition set_speed :: "int \<Rightarrow> u32 \<Rightarrow> u32" where
  "set_speed nSpeed cflag =
     cfsetspeed (if nSpeed = 2400 then B2400 else if nSpeed = 4800 then B4800
                 else if nSpeed = 9600 then B9600 else if nSpeed = 115200 then B115200 else B9600) cflag"

definition set_stop :: "int \<Rightarrow> u32 \<Rightarrow> u32" where
  "set_stop nStop cflag =
     (if nStop = 1 then cflag AND NOT CSTOPB else if nStop = 2 then cflag OR CSTOPB else cflag)"

text \<open>
  \<open>tcgetattr\<close> and \<open>tcsetattr\<close> are the return values of the two calls. The result pairs the return
  value with the settings handed to \<^verbatim>\<open>tcsetattr\<close>, if it is reached.
\<close>

definition set_opt :: "int \<Rightarrow> int \<Rightarrow> int \<Rightarrow> int \<Rightarrow> char \<Rightarrow> int \<Rightarrow> int \<times> termios option" where
  "set_opt tcgetattr tcsetattr nSpeed nBits nEvent nStop =
     (if tcgetattr \<noteq> 0 then (-1, None)
      else
        let cflag = (0 OR (CLOCAL OR CREAD)) AND NOT CSIZE;
            cflag = set_bits nBits cflag;
            (cflag, iflag) = set_parity nEvent (cflag, 0);
            cflag = set_speed nSpeed cflag;
            cflag = set_stop nStop cflag;
            cflag = cflag AND NOT CRTSCTS;
            newtio = \<lparr>c_iflag = 0, c_oflag = 0, c_cflag = cflag, c_lflag = 0, c_VTIME = 20, c_VMIN = 0\<rparr>
        in (if tcsetattr \<noteq> 0 then -1 else 0, Some newtio))"

section \<open>Opening the port\<close>

definition RET_OK :: int where "RET_OK = 0"
definition RET_FAIL :: int where "RET_FAIL = -1"

definition zero_data :: gps_data_t where
  "zero_data = \<lparr>d_tm_time = zero_tm, ns_d = 0, ns_m10000 = 0, ew_d = 0, ew_m10000 = 0, ns = NUL, ew = NUL,
     status = NUL, card = NUL, speed100 = 0, cog100 = 0, count = 0, height_d = 0, height_m = 0\<rparr>"

text \<open>
  \<open>fd\<close> is what \<^verbatim>\<open>open\<close> returned, \<open>fdopen_ok\<close> whether \<^verbatim>\<open>fdopen\<close> gave a stream; on failure the code
  passes the null pointer to \<^verbatim>\<open>fclose\<close>.
\<close>

definition InitGps :: "int \<Rightarrow> int \<Rightarrow> int \<Rightarrow> bool \<Rightarrow> gps_state \<Rightarrow> (int \<times> gps_state) res" where
  "InitGps fd tcgetattr tcsetattr fdopen_ok s =
     (if fd < 0 then Inr (RET_FAIL, s)
      else
        let (iRet, _) = set_opt tcgetattr tcsetattr 9600 8 (CHR ''N'') 1 in
        if iRet < 0 then Inr (RET_FAIL, s)
        else need fdopen_ok NullPointer (Inr (RET_OK, s\<lparr>gps_data := zero_data\<rparr>)))"

section \<open>Properties\<close>

text \<open>
  The line is programmed as asked: for the supported speeds, 7 or 8 data bits, the three
  parity letters and 1 or 2 stop bits, the settings have exactly the local, receive, size, parity,
  stop and speed flags of the request, no flow control, and a two-second read timeout; the input
  flags are always 0, so the parity that \<^verbatim>\<open>'O'\<close> and \<^verbatim>\<open>'E'\<close> turn on is never checked on input.
\<close>

theorem set_opt_programs_line:
  assumes "nSpeed \<in> {2400, 4800, 9600, 115200}" "nBits \<in> {7, 8}" "nEvent \<in> {CHR ''O'', CHR ''E'', CHR ''N''}"
    "nStop \<in> {1, 2}"
  shows "set_opt 0 0 nSpeed nBits nEvent nStop = (0, Some
    \<lparr>c_iflag = 0, c_oflag = 0,
     c_cflag = CLOCAL OR CREAD OR (if nBits = 7 then CS7 else CS8)
       OR (if nEvent = CHR ''N'' then 0 else PARENB) OR (if nEvent = CHR ''O'' then PARODD else 0)
       OR (if nStop = 2 then CSTOPB else 0)
       OR (if nSpeed = 2400 then B2400 else if nSpeed = 4800 then B4800 else if nSpeed = 9600 then B9600 else B115200),
     c_lflag = 0, c_VTIME = 20, c_VMIN = 0\<rparr>)"
  using assms
  by (auto simp: set_opt_def set_bits_def set_parity_def set_speed_def set_stop_def cfsetspeed_def termios_flags)

theorem set_opt_programs_line_witness:
  "map_option c_cflag (snd (set_opt 0 0 9600 8 (CHR ''N'') 1)) = Some 0x8BD"
  using set_opt_programs_line [of 9600 8 "CHR ''N''" 1] by (simp add: termios_flags)

end
