(* ===== verification/GpsMain.thy ===== *)
theory GpsMain
  imports Serial
begin

text \<open>
  The stand-alone receiver in \<^verbatim>\<open>application/gps.c\<close>: \<^verbatim>\<open>org_main\<close>, which the application does not call,
  with the watchdog it arms, the restart of a receiver that has no date, and \<^verbatim>\<open>writetofile\<close>.
\<close>

section \<open>State\<close>

text \<open>
  \<open>err_count\<close> is the static local of \<^verbatim>\<open>proc_error\<close>, \<open>line_sent\<close> what was written to the serial line,
  \<open>printed\<close> what went to the standard output.
\<close>

record org_state =
  rx :: gps_state
  err_count :: u32
  line_sent :: "char list list"
  printed :: "char list list"

definition PFST_START :: "char list" where
  "PFST_START = ''$PFST,START,1'' @ [CHR 0x0D, CHR 0x0A]"

text \<open>
  \<^verbatim>\<open>asctime\<close> prints \<^verbatim>\<open>???\<close> for a month outside 0 to 11. The day of the week is 0 at start and set by
  \<^verbatim>\<open>mktime\<close> only, so it is never out of range.
\<close>

definition asctime_unknown :: "MyTm \<Rightarrow> bool" where
  "asctime_unknown t \<longleftrightarrow> sint (tm_mon t) < 0 \<or> 11 < sint (tm_mon t)"

definition proc_error :: "org_state \<Rightarrow> org_state" where
  "proc_error s =
     (if asctime_unknown (tm_time (rx s)) then
        let s = s\<lparr>err_count := err_count s + 1\<rparr> in
        if 50 < sint (err_count s) then s\<lparr>err_count := 0, line_sent := line_sent s @ [PFST_START]\<rparr> else s
      else s\<lparr>err_count := 0\<rparr>)"

section \<open>The main loop\<close>

text \<open>
  The start: \<open>Inl\<close> the exit status, or the state in which the loop begins. A stream that \<^verbatim>\<open>fdopen\<close>
  did not give is closed all the same.
\<close>

definition org_main_start ::
  "char list list \<Rightarrow> int \<Rightarrow> int \<Rightarrow> int \<Rightarrow> bool \<Rightarrow> gps_state \<Rightarrow> (int + gps_state) res" where
  "org_main_start argv fd tcgetattr tcsetattr fdopen_ok s =
     (let s = proc_args argv (s\<lparr>timesync := False, real := False, wdt := 0\<rparr>) in
      if fd < 0 then Inr (Inl 1)
      else
        let (iRet, _) = set_opt tcgetattr tcsetattr 9600 8 (CHR ''N'') 1 in
        if iRet < 0 then Inr (Inl 1)
        else need fdopen_ok NullPointer (Inr (Inr (s\<lparr>gps_data := zero_data\<rparr>))))"

text \<open>
  One round of the loop, for a line of the port. In the raw mode the line is the format string of
  \<^verbatim>\<open>printf\<close>.
\<close>

definition org_main_round :: "(gps_state \<Rightarrow> u32 \<times> u32) \<Rightarrow> char list \<Rightarrow> org_state \<Rightarrow> org_state res" where
  "org_main_round junk line s =
     (let s = s\<lparr>rx := (rx s)\<lparr>wdt := 0\<rparr>\<rparr>; gps_buff = cstr line in
      andThen
        (if real (rx s) then need (CHR ''%'' \<notin> set gps_buff) FormatDirective
           (Inr (s\<lparr>printed := printed s @ [gps_buff]\<rparr>))
         else andThen (proc_gps junk gps_buff (rx s)) (\<lambda>g. Inr (s\<lparr>rx := g\<rparr>)))
        (\<lambda>s. Inr (proc_error s)))"

text \<open>
  \<^verbatim>\<open>writetofile\<close>: \<open>fi_update\<close> and \<open>fi_create\<close> say whether the file opens for update and for creation;
  the result is the structure that is written at its start.
\<close>

definition writetofile :: "bool \<Rightarrow> bool \<Rightarrow> gps_state \<Rightarrow> gps_data_t res" where
  "writetofile fi_update fi_create s = need (fi_update \<or> fi_create) NullPointer (Inr (gps_data s))"

section \<open>Watchdog and restart\<close>

text \<open>The alarm handler, \<open>n\<close> times.\<close>

fun alarms :: "nat \<Rightarrow> gps_state \<Rightarrow> gps_state res" where
  "alarms 0 s = Inr s"
| "alarms (Suc n) s = andThen (main_therad_alarm s) (alarms n)"

lemma alarms_wdt: "wdt s \<le> 10 \<Longrightarrow>
  alarms n s = (if wdt s + n \<le> 10 then Inr (s\<lparr>wdt := wdt s + n\<rparr>) else Inl ProcessExit)"
  by (induction n arbitrary: s) (auto simp: main_therad_alarm_def Let_def)

lemma sync_clock_wdt: "wdt (sync_clock tmg s) = wdt s"
  by (simp add: sync_clock_def)

lemma gps_gpgga_wdt: "holds_after (gps_gpgga s) (\<lambda>s'. wdt s' = wdt s)"
  unfolding gps_gpgga_def Let_def by (intro holds_after_intros) simp_all

lemma gps_gprmc_wdt: "holds_after (gps_gprmc junk s) (\<lambda>s'. wdt s' = wdt s)"
  unfolding gps_gprmc_def Let_def split_def
  by (intro holds_after_intros) (simp_all add: sync_clock_wdt del: sscanf.simps split: option.split)

lemma gps_proc_frame_wdt: "gps_proc_frame junk s = Inr s' \<Longrightarrow> wdt s' = wdt s"
  using gps_gpgga_wdt gps_gprmc_wdt
  by (fastforce simp: gps_proc_frame_def Let_def andThen_Inr_iff holds_after_def
      split: if_split_asm option.split_asm)

lemma proc_gps_wdt:
  "proc_gps junk cs s = Inr s' \<Longrightarrow> wdt s' = wdt s"
proof (induction cs arbitrary: s)
  case (Cons c cs)
  then obtain t where t: "proc_byte junk c s = Inr t" "proc_gps junk cs t = Inr s'"
    by (cases "proc_byte junk c s") auto
  have "wdt t = wdt s"
    using t(1) by (auto simp: proc_byte_def need_def andThen_Inr_iff dest!: gps_proc_frame_wdt
      split: if_split_asm option.split_asm)
  with Cons.IH [OF t(2)] show ?case by simp
qed simp

text \<open>
  The process survives exactly ten seconds of silence after a line, and a receiver without a date is
  sent the restart sentence once in 51 lines.
\<close>

theorem org_main_watchdog:
  assumes "org_main_round junk line s = Inr s'"
  shows "alarms n (rx s') = (if n \<le> 10 then Inr ((rx s')\<lparr>wdt := n\<rparr>) else Inl ProcessExit)"
proof -
  obtain s1 where "wdt (rx s1) = 0" "s' = proc_error s1"
  proof (cases "real (rx s)")
    case True
    with assms that [of "s\<lparr>rx := (rx s)\<lparr>wdt := 0\<rparr>, printed := printed s @ [cstr line]\<rparr>"] show thesis
      by (simp add: org_main_round_def need_def Let_def split: if_split_asm)
  next
    case False
    then obtain g where "proc_gps junk (cstr line) ((rx s)\<lparr>wdt := 0\<rparr>) = Inr g" "s' = proc_error (s\<lparr>rx := g\<rparr>)"
      using assms by (auto simp: org_main_round_def Let_def andThen_Inr_iff)
    with that [of "s\<lparr>rx := g\<rparr>"] show thesis by (auto dest: proc_gps_wdt)
  qed
  then have "wdt (rx s') = 0" by (simp add: proc_error_def Let_def)
  then show ?thesis using alarms_wdt [of "rx s'" n] by simp
qed

lemma proc_error_step:
  assumes "asctime_unknown (tm_time (rx s))" "unat (err_count s) = k" "k \<le> 50"
  shows "rx (proc_error s) = rx s" "unat (err_count (proc_error s)) = (if k = 50 then 0 else k + 1)"
    "line_sent (proc_error s) = line_sent s @ (if k = 50 then [PFST_START] else [])"
proof -
  have e: "err_count s = of_nat k" using assms(2) by auto
  have c: "err_count s + 1 = of_nat (Suc k)" by (simp add: e)
  have u: "unat (err_count s + 1) = Suc k" "sint (err_count s + 1) = int (Suc k)"
    using assms(3) unfolding c by (simp_all add: unat_of_nat take_bit_nat_eq_self_iff signed_of_nat signed_take_bit_int_eq_self_iff
      del: of_nat_Suc)
  show "rx (proc_error s) = rx s" "unat (err_count (proc_error s)) = (if k = 50 then 0 else k + 1)"
    "line_sent (proc_error s) = line_sent s @ (if k = 50 then [PFST_START] else [])"
    using assms(1,3) u by (simp_all add: proc_error_def Let_def)
qed

theorem proc_error_restarts:
  assumes "asctime_unknown (tm_time (rx s))" "err_count s = 0"
  shows "line_sent ((proc_error ^^ n) s) = line_sent s @ replicate (n div 51) PFST_START"
proof -
  have "rx ((proc_error ^^ n) s) = rx s \<and> unat (err_count ((proc_error ^^ n) s)) = n mod 51
    \<and> line_sent ((proc_error ^^ n) s) = line_sent s @ replicate (n div 51) PFST_START"
  proof (induction n)
    case (Suc n)
    define t where "t = (proc_error ^^ n) s"
    have t: "rx t = rx s" "unat (err_count t) = n mod 51" "line_sent t = line_sent s @ replicate (n div 51) PFST_START"
      using Suc by (simp_all add: t_def)
    have b: "n mod 51 \<le> 50" by (simp add: less_Suc_eq_le [symmetric])
    have d: "Suc n mod 51 = (if n mod 51 = 50 then 0 else n mod 51 + 1)"
      "Suc n div 51 = n div 51 + (if n mod 51 = 50 then 1 else 0)"
      by (auto simp: mod_Suc div_Suc)
    from proc_error_step [of t, OF _ t(2) b] t(1,3) assms(1)
    show ?case unfolding funpow.simps o_apply t_def [symmetric] d by (auto simp: replicate_append_same)
  qed (simp add: assms)
  then show ?thesis by blast
qed

end
