(* ===== verification/GpsFrames.thy ===== *)
theory GpsFrames
  imports Gps
begin

text \<open>
  Framing: what \<^verbatim>\<open>proc_gps\<close> does with a byte stream. Sentences are lists of fields; the lemmas
  relate the buffer and the field pointers after the split to that list.
\<close>

section \<open>The byte automaton\<close>

lemma proc_gps_append:
  "proc_gps junk (a @ b) s = andThen (proc_gps junk a s) (proc_gps junk b)"
proof (induction a arbitrary: s)
  case (Cons c a)
  then show ?case by (cases "proc_byte junk c s") auto
qed simp

definition body_char :: "char \<Rightarrow> bool" where
  "body_char c \<longleftrightarrow> c \<noteq> CHR ''$'' \<and> c \<noteq> CR \<and> c \<noteq> NUL"

lemma proc_gps_body:
  assumes "\<forall>c \<in> set body. body_char c" "s_index s = Some i" "sbuff s = A @ NUL # R" "length A = i"
    "length body \<le> length R"
  shows "proc_gps junk body s = Inr (s\<lparr>sbuff := A @ body @ NUL # drop (length body) R,
    s_index := Some (i + length body)\<rparr>)"
  using assms
proof (induction body arbitrary: s i A R)
  case Nil
  then show ?case by (cases s) auto
next
  case (Cons c body)
  then obtain r R' where R: "R = r # R'" by (cases R) auto
  let ?s = "s\<lparr>sbuff := (A @ [c]) @ NUL # R', s_index := Some (i + 1)\<rparr>"
  have "proc_byte junk c s = Inr ?s"
    using Cons.prems R by (auto simp: proc_byte_def body_char_def list_update_append)
  with Cons.IH [of ?s "i + 1" "A @ [c]" R'] Cons.prems R show ?case by simp
qed

definition started :: "char list \<Rightarrow> gps_state \<Rightarrow> gps_state" where
  "started body s = s\<lparr>sbuff := CHR ''$'' # body @ NUL # drop (length body + 2) (sbuff s),
     s_index := Some (length body + 1)\<rparr>"

lemma proc_gps_start:
  assumes "length (sbuff s) = 256" "\<forall>c \<in> set body. body_char c" "length body \<le> 254"
  shows "proc_gps junk (CHR ''$'' # body) s = Inr (started body s)"
proof -
  obtain x y R where R: "sbuff s = x # y # R" "length R = 254"
    using assms(1) by (cases "sbuff s"; cases "tl (sbuff s)") auto
  let ?s = "s\<lparr>s_index := Some 1, sbuff := [CHR ''$''] @ NUL # R\<rparr>"
  have "proc_byte junk (CHR ''$'') s = Inr ?s" by (simp add: proc_byte_def R)
  with proc_gps_body [OF assms(2), of ?s 1 "[CHR ''$'']" R junk] R assms(3) show ?thesis
    by (simp add: started_def)
qed

lemma proc_byte_CR:
  "s_index s = Some i \<Longrightarrow> proc_byte junk CR s = andThen (gps_checksum s) (\<lambda>ok.
     andThen (if ok then gps_proc_frame junk s else Inr s) (\<lambda>s. Inr (s\<lparr>s_index := None\<rparr>)))"
  by (simp add: proc_byte_def)

lemma proc_gps_frame:
  assumes "length (sbuff s) = 256" "\<forall>c \<in> set body. body_char c" "length body \<le> 254"
  shows "proc_gps junk (CHR ''$'' # body @ [CR]) s =
    andThen (gps_checksum (started body s)) (\<lambda>ok.
      andThen (if ok then gps_proc_frame junk (started body s) else Inr (started body s))
        (\<lambda>s. Inr (s\<lparr>s_index := None\<rparr>)))"
proof -
  have "proc_gps junk (CHR ''$'' # body @ [CR]) s = andThen (proc_gps junk (CHR ''$'' # body) s) (proc_gps junk [CR])"
    using proc_gps_append [of junk "CHR ''$'' # body" "[CR]" s] by simp
  also have "\<dots> = andThen (proc_byte junk CR (started body s)) (proc_gps junk [])"
    unfolding proc_gps_start [OF assms] by simp
  also have "\<dots> = proc_byte junk CR (started body s)"
    by (cases "proc_byte junk CR (started body s)") auto
  also have "\<dots> = andThen (gps_checksum (started body s)) (\<lambda>ok.
      andThen (if ok then gps_proc_frame junk (started body s) else Inr (started body s))
        (\<lambda>s. Inr (s\<lparr>s_index := None\<rparr>)))"
    by (rule proc_byte_CR) (simp add: started_def)
  finally show ?thesis .
qed

lemma cstr_take: "NUL \<notin> set a \<Longrightarrow> cstr (a @ NUL # r) = a"
  by (induction a) (auto simp: cstr_def)

lemma strchr_text:
  assumes "length A = i" "c \<notin> set a" "NUL \<notin> set a" "NUL \<noteq> c"
  shows "strchr (A @ a @ c # r) i c = Some (i + length a)"
proof -
  have "takeWhile (\<lambda>x. x \<noteq> c) (cstr (a @ c # r)) = a" "length a < length (cstr (a @ c # r))"
    using assms(2-4) by (induction a) (auto simp: cstr_def)
  with assms(1) show ?thesis by (simp add: strchr_def Let_def)
qed

lemma strchr_none:
  assumes "length A = i" "c \<notin> set a" "NUL \<notin> set a"
  shows "strchr (A @ a @ NUL # r) i c = None"
proof -
  have "takeWhile (\<lambda>x. x \<noteq> c) a = a" using assms(2) by (auto simp: takeWhile_eq_all_conv)
  then have "length (takeWhile (\<lambda>x. x \<noteq> c) a) = length a" by (simp only:)
  with assms(1,3) show ?thesis by (simp add: strchr_def Let_def cstr_take)
qed

lemma checksum_started:
  assumes "CHR ''*'' \<notin> set pay" "\<forall>c \<in> set pay. body_char c" "\<forall>c \<in> set tail. body_char c"
  shows "gps_checksum (started (pay @ CHR ''*'' # tail) s) =
    Inr (strncmp_eq (hex2 (xor_bytes pay)) tail 2)"
proof -
  have n: "NUL \<notin> set pay" "NUL \<notin> set tail" using assms by (auto simp: body_char_def)
  let ?R = "drop (length (pay @ CHR ''*'' # tail) + 2) (sbuff s)"
  have b: "sbuff (started (pay @ CHR ''*'' # tail) s) = CHR ''$'' # pay @ CHR ''*'' # tail @ NUL # ?R"
    by (simp add: started_def)
  have "strchr (CHR ''$'' # pay @ CHR ''*'' # tail @ NUL # ?R) 0 (CHR ''*'') = Some (length pay + 1)"
    using strchr_text [of "[]" 0 "CHR ''*''" "CHR ''$'' # pay" "tail @ NUL # ?R"] assms(1) n by simp
  then show ?thesis using n by (simp add: gps_checksum_def b cstr_take)
qed

lemma no_star_checksum:
  assumes "CHR ''*'' \<notin> set body" "\<forall>c \<in> set body. body_char c"
  shows "gps_checksum (started body s) = Inl NullPointer"
proof -
  have "NUL \<notin> set body" using assms(2) by (auto simp: body_char_def)
  with strchr_none [of "[]" 0 "CHR ''*''" "CHR ''$'' # body" "drop (length body + 2) (sbuff s)"] assms(1)
  show ?thesis by (simp add: gps_checksum_def started_def)
qed

section \<open>Fields\<close>

fun join :: "char \<Rightarrow> char list list \<Rightarrow> char list" where
  "join c [] = []"
| "join c [f] = f"
| "join c (f # g # fs) = f @ c # join c (g # fs)"

fun offsets :: "nat \<Rightarrow> char list list \<Rightarrow> nat list" where
  "offsets a [] = []"
| "offsets a (f # fs) = a # offsets (a + length f + 1) fs"

lemma length_offsets [simp]: "length (offsets a fs) = length fs"
  by (induction fs arbitrary: a) auto

definition field_ok :: "char list \<Rightarrow> bool" where
  "field_ok f \<longleftrightarrow> CHR '','' \<notin> set f \<and> CHR ''*'' \<notin> set f \<and> NUL \<notin> set f"

lemma length_join: "length (join c fs) = length (join d fs)"
proof (induction fs)
  case (Cons f fs)
  then show ?case by (cases fs) auto
qed simp

lemma join_star: "\<forall>f \<in> set fs. field_ok f \<Longrightarrow> CHR ''*'' \<notin> set (join (CHR '','') fs)"
  by (induction "CHR '',''" fs rule: join.induct) (auto simp: field_ok_def)

lemma join_NUL: "\<forall>f \<in> set fs. field_ok f \<Longrightarrow> NUL \<notin> set (join (CHR '','') fs)"
  by (induction "CHR '',''" fs rule: join.induct) (auto simp: field_ok_def)

lemma split_fields_join:
  assumes "fs \<noteq> []" "\<forall>f \<in> set fs. field_ok f" "CHR '','' \<notin> set tail" "NUL \<notin> set tail"
    "i + length fs \<le> length cmds" "length A = p"
  shows "split_fields (A @ join (CHR '','') fs @ CHR ''*'' # tail @ NUL # R) cmds i p =
    Inr (A @ join NUL fs @ CHR ''*'' # tail @ NUL # R,
      take i cmds @ map Some (offsets p fs) @ drop (i + length fs) cmds,
      i + length fs - 1, last (offsets p fs))"
  using assms
proof (induction fs arbitrary: A cmds i p)
  case (Cons f fs)
  have f: "field_ok f" and cm: "cmds[i := Some p] = take i cmds @ Some p # drop (i + 1) cmds"
    using Cons.prems by (auto simp: upd_conv_take_nth_drop)
  show ?case
  proof (cases fs)
    case Nil
    have "strchr (A @ (f @ CHR ''*'' # tail) @ NUL # R) p (CHR '','') = None"
      using f Cons.prems by (intro strchr_none) (auto simp: field_ok_def)
    with Nil Cons.prems cm show ?thesis by (subst split_fields.simps) simp
  next
    case (Cons g gs)
    let ?rest = "join (CHR '','') fs @ CHR ''*'' # tail @ NUL # R"
    have "strchr (A @ f @ CHR '','' # ?rest) p (CHR '','') = Some (p + length f)"
      using f Cons.prems by (intro strchr_text) (auto simp: field_ok_def)
    moreover have "(A @ f @ CHR '','' # ?rest)[p + length f := NUL] = (A @ f @ [NUL]) @ ?rest"
      using Cons.prems by (simp add: list_update_append)
    ultimately have "split_fields (A @ f @ CHR '','' # ?rest) cmds i p =
        split_fields ((A @ f @ [NUL]) @ ?rest) (cmds[i := Some p]) (i + 1) (p + length f + 1)"
      using Cons.prems(5) by (subst split_fields.simps) simp
    also have "\<dots> = Inr ((A @ f @ [NUL]) @ join NUL fs @ CHR ''*'' # tail @ NUL # R,
        take (i + 1) (cmds[i := Some p]) @ map Some (offsets (p + length f + 1) fs) @ drop (i + 1 + length fs) (cmds[i := Some p]),
        i + 1 + length fs - 1, last (offsets (p + length f + 1) fs))"
      using Cons.prems \<open>fs = g # gs\<close> by (intro Cons.IH) auto
    also have "take (i + 1) (cmds[i := Some p]) = take i cmds @ [Some p]"
      unfolding cm using Cons.prems(5) by simp
    finally show ?thesis using \<open>fs = g # gs\<close> by simp
  qed
qed simp

lemma field_text:
  assumes "\<forall>f \<in> set fs. field_ok f" "k < length fs" "length A = p"
  shows "cstr (drop (offsets p fs ! k) (A @ join NUL fs @ NUL # R)) = fs ! k"
  using assms
proof (induction fs arbitrary: A p k)
  case (Cons f fs)
  have f: "NUL \<notin> set f" using Cons.prems by (auto simp: field_ok_def)
  obtain R' where R': "join NUL (f # fs) @ NUL # R = f @ NUL # R'" and
    next_field: "fs \<noteq> [] \<Longrightarrow> R' = join NUL fs @ NUL # R"
    by (cases fs) auto
  show ?case
  proof (cases k)
    case 0
    then show ?thesis using Cons.prems(3) R' cstr_take [OF f] by simp
  next
    case (Suc j)
    then have "fs \<noteq> []" using Cons.prems(2) by auto
    with Cons.IH [of j "A @ f @ [NUL]" "p + length f + 1"] Cons.prems Suc R' next_field show ?thesis
      by simp
  qed
qed simp

lemma last_field:
  assumes "fs \<noteq> []"
  shows "\<exists>B. join c fs = B @ last fs \<and> last (offsets p fs) = p + length B"
  using assms
proof (induction fs arbitrary: p)
  case (Cons f fs)
  show ?case
  proof (cases fs)
    case Nil
    then show ?thesis by simp
  next
    case (Cons g gs)
    with Cons.IH [of "p + length f + 1"] obtain B where
      "join c fs = B @ last fs" "last (offsets (p + length f + 1) fs) = p + length f + 1 + length B" by auto
    with Cons show ?thesis by (intro exI [of _ "f @ c # B"]) auto
  qed
qed simp

text \<open>
  A frame made of fields: the name with its \<^verbatim>\<open>$\<close>, and the others. \<open>frame_state\<close> is the state in
  which the handlers see it.
\<close>

definition with_dollar :: "char list list \<Rightarrow> char list list" where
  "with_dollar fs = (CHR ''$'' # hd fs) # tl fs"

lemma join_dollar: "fs \<noteq> [] \<Longrightarrow> join c (with_dollar fs) = CHR ''$'' # join c fs"
  by (cases fs; cases "tl fs") (auto simp: with_dollar_def)

definition frame_state :: "char list list \<Rightarrow> char list \<Rightarrow> gps_state \<Rightarrow> gps_state" where
  "frame_state fs tail s = s\<lparr>
     sbuff := join NUL (with_dollar fs) @ NUL # tail @ NUL
       # drop (length (join NUL fs) + length tail + 3) (sbuff s),
     s_index := Some (length (join NUL fs) + length tail + 2),
     cmd_list := map Some (offsets 0 (with_dollar fs)) @ drop (length fs) (cmd_list s),
     cmd_count := length fs\<rparr>"

lemma field_ok_dollar: "\<forall>f \<in> set fs. field_ok f \<Longrightarrow> fs \<noteq> [] \<Longrightarrow> \<forall>f \<in> set (with_dollar fs). field_ok f"
  by (cases fs) (auto simp: with_dollar_def field_ok_def)

lemma frame_state_field:
  assumes "\<forall>f \<in> set fs. field_ok f" "k < length fs"
  shows "field_at (frame_state fs tail s) k = Inr (with_dollar fs ! k)"
proof -
  have fs: "fs \<noteq> []" using assms(2) by auto
  then have len: "length (with_dollar fs) = length fs" by (cases fs) (auto simp: with_dollar_def)
  let ?R = "tail @ NUL # drop (length (join NUL fs) + length tail + 3) (sbuff s)"
  have "cstr (drop (offsets 0 (with_dollar fs) ! k) ([] @ join NUL (with_dollar fs) @ NUL # ?R)) = with_dollar fs ! k"
    by (rule field_text) (use field_ok_dollar [OF assms(1) fs] len assms(2) in auto)
  with len assms(2) show ?thesis by (simp add: field_at_def frame_state_def nth_append)
qed

lemma proc_frame_fields:
  assumes "\<forall>f \<in> set fs. field_ok f" "2 \<le> length fs" "length fs \<le> length (cmd_list s)"
    "CHR '','' \<notin> set tail" "NUL \<notin> set tail"
  shows "gps_proc_frame junk (started (join (CHR '','') fs @ CHR ''*'' # tail) s) =
    andThen (gps_gpgga (frame_state fs tail s)) (gps_gprmc junk)"
proof -
  let ?s = "started (join (CHR '','') fs @ CHR ''*'' # tail) s"
  let ?R = "drop (length (join NUL fs) + length tail + 3) (sbuff s)"
  have fs: "fs \<noteq> []" using assms(2) by auto
  then have len: "length (with_dollar fs) = length fs" "with_dollar fs \<noteq> []"
    by (cases fs; auto simp: with_dollar_def)+
  have b: "sbuff ?s = [] @ join (CHR '','') (with_dollar fs) @ CHR ''*'' # tail @ NUL # ?R"
    using length_join [of "CHR '',''" fs NUL] by (simp add: started_def join_dollar [OF fs] eval_nat_numeral)
  have sp: "split_fields (sbuff ?s) (cmd_list ?s) 0 0 =
      Inr ([] @ join NUL (with_dollar fs) @ CHR ''*'' # tail @ NUL # ?R,
        take 0 (cmd_list ?s) @ map Some (offsets 0 (with_dollar fs)) @ drop (0 + length (with_dollar fs)) (cmd_list ?s),
        0 + length (with_dollar fs) - 1, last (offsets 0 (with_dollar fs)))"
    unfolding b by (rule split_fields_join)
      (use field_ok_dollar [OF assms(1) fs] len assms in \<open>auto simp: started_def\<close>)
  obtain B where B: "join NUL (with_dollar fs) = B @ last (with_dollar fs)"
    "last (offsets 0 (with_dollar fs)) = length B"
    using last_field [OF len(2), of NUL 0] by auto
  have l: "field_ok (last (with_dollar fs))"
    using field_ok_dollar [OF assms(1) fs] len(2) by (simp add: last_in_set)
  have st: "strchr (join NUL (with_dollar fs) @ CHR ''*'' # tail @ NUL # ?R) (length B) (CHR ''*'') =
      Some (length (join NUL (with_dollar fs)))"
    using strchr_text [of B "length B" "CHR ''*''" "last (with_dollar fs)" "tail @ NUL # ?R"] l
    by (simp add: B(1) field_ok_def)
  have i: "0 + length (with_dollar fs) - 1 \<noteq> 0" "length (with_dollar fs) - 1 + 1 = length fs"
    using len assms(2) by auto
  have e: "?s\<lparr>sbuff := (join NUL (with_dollar fs) @ CHR ''*'' # tail @ NUL # ?R)[length (join NUL (with_dollar fs)) := NUL],
        cmd_list := map Some (offsets 0 (with_dollar fs)) @ drop (length (with_dollar fs)) (cmd_list s), cmd_count := length fs\<rparr>
      = frame_state fs tail s"
    using length_join [of "CHR '',''" fs NUL] by (simp add: started_def frame_state_def len)
  show ?thesis
    unfolding gps_proc_frame_def sp
    using st i e by (simp add: B(2) started_def del: One_nat_def)
qed

section \<open>Sentences\<close>

definition sentence :: "char list list \<Rightarrow> char list" where
  "sentence fs = (let pay = join (CHR '','') fs in
     CHR ''$'' # pay @ CHR ''*'' # hex2 (xor_bytes pay) @ [CR])"

definition sentence_ok :: "char list list \<Rightarrow> bool" where
  "sentence_ok fs \<longleftrightarrow> 2 \<le> length fs \<and> length fs \<le> 64 \<and> length (join (CHR '','') fs) \<le> 251 \<and>
     (\<forall>f \<in> set fs. field_ok f \<and> (\<forall>c \<in> set f. body_char c))"

lemma hex_digit_char: "n < 16 \<Longrightarrow> body_char (hex_digit n) \<and> hex_digit n \<noteq> CHR '','' \<and> hex_digit n \<noteq> NUL"
proof -
  assume "n < 16"
  then have "n \<in> set [0..<16]" by simp
  also have "set [0..<16] = {0, 1, 2, 3, 4, 5, 6, 7, 8, 9, 10, 11, 12, 13, 14, 15 :: nat}"
    by (auto simp: upt_rec)
  finally have "n \<in> {0, 1, 2, 3, 4, 5, 6, 7, 8, 9, 10, 11, 12, 13, 14, 15}" .
  then show ?thesis by (elim insertE) (simp_all add: hex_digit_def body_char_def eval_nat_numeral)
qed

lemma hex2_chars: "\<forall>c \<in> set (hex2 b). body_char c \<and> c \<noteq> CHR '','' \<and> c \<noteq> NUL"
proof -
  have "unat b < 256" using unsigned_less [of b] by simp
  then have "unat b div 16 < 16" "unat b mod 16 < 16" by auto
  with hex_digit_char show ?thesis by (auto simp: hex2_def)
qed

lemma join_chars: "\<forall>f \<in> set fs. \<forall>c \<in> set f. body_char c \<Longrightarrow> \<forall>c \<in> set (join (CHR '','') fs). body_char c"
proof (induction fs)
  case (Cons f fs)
  have "body_char (CHR '','')" by (simp add: body_char_def)
  with Cons show ?case by (cases fs) auto
qed simp

lemma strncmp_eq_full: "\<lbrakk>length xs = n; length ys = n\<rbrakk> \<Longrightarrow> strncmp_eq xs ys n \<longleftrightarrow> xs = ys"
  by (simp add: strncmp_eq_take)

lemma length_hex2: "length (hex2 b) = 2"
  by (simp add: hex2_def)

definition gps_ready :: "gps_state \<Rightarrow> bool" where
  "gps_ready s \<longleftrightarrow> length (sbuff s) = 256 \<and> length (cmd_list s) = 64"

lemma proc_gps_text:
  assumes "gps_ready s" "sentence_ok fs" "\<forall>c \<in> set tail. body_char c \<and> c \<noteq> CHR '',''" "length tail = 2"
  shows "proc_gps junk (CHR ''$'' # (join (CHR '','') fs @ CHR ''*'' # tail) @ [CR]) s =
    (if tail = hex2 (xor_bytes (join (CHR '','') fs))
     then andThen (andThen (gps_gpgga (frame_state fs tail s)) (gps_gprmc junk)) (\<lambda>s. Inr (s\<lparr>s_index := None\<rparr>))
     else Inr ((started (join (CHR '','') fs @ CHR ''*'' # tail) s)\<lparr>s_index := None\<rparr>))"
proof -
  let ?pay = "join (CHR '','') fs"
  have ok: "\<forall>f \<in> set fs. field_ok f" "\<forall>c \<in> set ?pay. body_char c" "2 \<le> length fs" "length fs \<le> length (cmd_list s)"
    "length ?pay \<le> 251"
    using assms(1,2) join_chars [of fs] by (auto simp: sentence_ok_def gps_ready_def)
  have t: "\<forall>c \<in> set tail. body_char c" "CHR '','' \<notin> set tail" "NUL \<notin> set tail"
    using assms(3) by (auto simp: body_char_def)
  have cs: "gps_checksum (started (?pay @ CHR ''*'' # tail) s) = Inr (tail = hex2 (xor_bytes ?pay))"
    unfolding checksum_started [OF join_star [OF ok(1)] ok(2) t(1), of s]
      strncmp_eq_full [OF length_hex2 assms(4)] by auto
  have "proc_gps junk (CHR ''$'' # (?pay @ CHR ''*'' # tail) @ [CR]) s =
      andThen (gps_checksum (started (?pay @ CHR ''*'' # tail) s)) (\<lambda>b.
        andThen (if b then gps_proc_frame junk (started (?pay @ CHR ''*'' # tail) s)
                 else Inr (started (?pay @ CHR ''*'' # tail) s)) (\<lambda>s. Inr (s\<lparr>s_index := None\<rparr>)))"
  proof (rule proc_gps_frame)
    show "length (sbuff s) = 256" using assms(1) by (simp add: gps_ready_def)
    have "body_char (CHR ''*'')" by (simp add: body_char_def)
    with ok(2) t(1) show "\<forall>c \<in> set (?pay @ CHR ''*'' # tail). body_char c" by auto
    show "length (?pay @ CHR ''*'' # tail) \<le> 254" using ok(5) assms(4) by simp
  qed
  then show ?thesis
    unfolding cs andThen.simps proc_frame_fields [OF ok(1,3,4) t(2,3)]
    by (cases "tail = hex2 (xor_bytes ?pay)") (simp_all only: if_True if_False andThen.simps simp_thms)
qed

lemma proc_gps_sentence:
  assumes "gps_ready s" "sentence_ok fs"
  shows "proc_gps junk (sentence fs) s = andThen (andThen
    (gps_gpgga (frame_state fs (hex2 (xor_bytes (join (CHR '','') fs))) s)) (gps_gprmc junk))
    (\<lambda>s. Inr (s\<lparr>s_index := None\<rparr>))"
  using proc_gps_text [OF assms, of "hex2 (xor_bytes (join (CHR '','') fs))" junk]
    hex2_chars [of "xor_bytes (join (CHR '','') fs)"] by (simp add: sentence_def Let_def length_hex2)

section \<open>Properties of the framing\<close>


definition sample_gps :: gps_state where
  "sample_gps = \<lparr>gps_data = \<lparr>d_tm_time = zero_tm, ns_d = 0, ns_m10000 = 0, ew_d = 0, ew_m10000 = 0, ns = NUL,
       ew = NUL, status = NUL, card = NUL, speed100 = 0, cog100 = 0, count = 0, height_d = 0, height_m = 0\<rparr>,
     tm_time = zero_tm, s_gpsOK_1 = False, s_gpsOK_2 = False, timesync = False, gps_debug = False,
     real = False, wdt = 0, sbuff = replicate 256 NUL, s_index = None, cmd_list = replicate 64 None,
     cmd_count = 0, clock = 0, clock_sets = []\<rparr>"

lemma sample_gps_ready: "gps_ready sample_gps"
  by (simp add: gps_ready_def sample_gps_def)


lemma xor_cancel: "a XOR b = a XOR c \<longleftrightarrow> b = c" for a b c :: u8
  by (metis xor.assoc xor.left_neutral xor_self_eq)

lemma xor_fold: "fold (\<lambda>c cs. cs XOR word_of_nat (of_char c)) s (a :: u8) = a XOR xor_bytes s"
proof (induction s arbitrary: a)
  case Nil
  then show ?case by (simp add: xor_bytes_def)
next
  case (Cons c s)
  have "xor_bytes (c # s) = (0 XOR word_of_nat (of_char c)) XOR xor_bytes s"
    unfolding Cons [symmetric] by (simp add: xor_bytes_def)
  then show ?case using Cons [of "a XOR word_of_nat (of_char c)"] by (simp add: xor.assoc)
qed

lemma xor_bytes_Cons: "xor_bytes (c # s) = word_of_nat (of_char c) XOR xor_bytes s"
  unfolding xor_bytes_def [of "c # s"] by (simp add: xor_fold)

lemma xor_bytes_append: "xor_bytes (s @ t) = xor_bytes s XOR xor_bytes t"
  unfolding xor_bytes_def [of "s @ t"] by (simp add: xor_fold xor_bytes_def [symmetric])

lemma char_word_inj: "(word_of_nat (of_char c) :: u8) = word_of_nat (of_char d) \<Longrightarrow> c = d"
proof -
  have "unat (word_of_nat (of_char c) :: u8) = (of_char c :: nat)" for c :: char
    by (simp add: unat_of_nat)
  then show "(word_of_nat (of_char c) :: u8) = word_of_nat (of_char d) \<Longrightarrow> c = d"
    by (metis of_char_eq_iff)
qed

lemma xor_bytes_one_change:
  assumes "c \<noteq> d"
  shows "xor_bytes (a @ c # b) \<noteq> xor_bytes (a @ d # b)"
proof
  assume "xor_bytes (a @ c # b) = xor_bytes (a @ d # b)"
  then have "(word_of_nat (of_char c) :: u8) = word_of_nat (of_char d)"
    unfolding xor_bytes_append xor_bytes_Cons xor_cancel by (simp only: xor.commute [of _ "xor_bytes b"] xor_cancel)
  with char_word_inj assms show False by blast
qed

lemma hex_digit_inj: "\<lbrakk>m < 16; n < 16; hex_digit m = hex_digit n\<rbrakk> \<Longrightarrow> m = n"
proof -
  assume "m < 16" "n < 16" "hex_digit m = hex_digit n"
  moreover have "distinct ''0123456789ABCDEF''" by simp
  ultimately show "m = n" by (simp add: hex_digit_def nth_eq_iff_index_eq)
qed

lemma hex2_inj: "hex2 a = hex2 b \<Longrightarrow> a = b"
proof -
  assume h: "hex2 a = hex2 b"
  have lt: "unat a < 256" "unat b < 256" using unsigned_less [of a] unsigned_less [of b] by simp_all
  then have "unat a div 16 < 16" "unat b div 16 < 16" by auto
  with h lt have "unat a div 16 = unat b div 16" "unat a mod 16 = unat b mod 16"
    by (auto simp: hex2_def intro: hex_digit_inj)
  then have "unat a = unat b" by (metis div_mult_mod_eq)
  then show "a = b" by (simp add: word_unat_eq_iff)
qed



text \<open>
  A frame that is too long overruns the sentence buffer: \<^verbatim>\<open>sbuff\<close> has 256 bytes and the index
  is never compared with its size, so 255 bytes after a \<^verbatim>\<open>$\<close> without another \<^verbatim>\<open>$\<close> or carriage return
  write past the end. A frame without \<^verbatim>\<open>*\<close> makes the checksum use a null pointer.
\<close>

theorem proc_gps_long_frame_overruns:
  assumes "length (sbuff s) = 256" "\<forall>c \<in> set body. body_char c"
  shows "(255 \<le> length body \<longrightarrow> proc_gps junk (CHR ''$'' # body) s = Inl OutOfBounds) \<and>
    (length body \<le> 254 \<and> CHR ''*'' \<notin> set body \<longrightarrow> proc_gps junk (CHR ''$'' # body @ [CR]) s = Inl NullPointer)"
proof (intro conjI impI)
  assume len: "255 \<le> length body"
  define A where "A = take 254 body"
  obtain c B where cB: "drop 254 body = c # B" using len by (cases "drop 254 body") auto
  have body: "body = A @ c # B" unfolding A_def by (metis append_take_drop_id cB)
  have A: "length A = 254" using len by (simp add: A_def)
  have c: "body_char c" "\<forall>c \<in> set A. body_char c" using assms(2) by (auto simp: body)
  have "proc_gps junk (CHR ''$'' # A) s = Inr (started A s)"
    using proc_gps_start [OF assms(1) c(2)] A by simp
  moreover have "proc_byte junk c (started A s) = Inl OutOfBounds"
    using c(1) A assms(1) by (simp add: proc_byte_def started_def body_char_def need_def)
  ultimately show "proc_gps junk (CHR ''$'' # body) s = Inl OutOfBounds"
    using proc_gps_append [of junk "CHR ''$'' # A" "c # B" s] by (simp add: body)
next
  assume "length body \<le> 254 \<and> CHR ''*'' \<notin> set body"
  with proc_gps_frame [OF assms, of junk] no_star_checksum [OF _ assms(2)]
  show "proc_gps junk (CHR ''$'' # body @ [CR]) s = Inl NullPointer" by simp
qed

theorem proc_gps_long_frame_overruns_witness:
  "proc_gps (\<lambda>_. (0, 0)) (CHR ''$'' # replicate 255 (CHR ''x'')) sample_gps = Inl OutOfBounds \<and>
   proc_gps (\<lambda>_. (0, 0)) (''$GP'' @ [CR]) sample_gps = Inl NullPointer"
  using proc_gps_long_frame_overruns [of sample_gps "replicate 255 (CHR ''x'')" "\<lambda>_. (0, 0)"]
    proc_gps_long_frame_overruns [of sample_gps "''GP''" "\<lambda>_. (0, 0)"]
  by (simp add: sample_gps_def body_char_def)

end
