(* ===== verification/GpsDecode.thy ===== *)
theory GpsDecode
  imports GpsFrames
begin

text \<open>
  Decoding: what the \<^verbatim>\<open>GPGGA\<close> and \<^verbatim>\<open>GPRMC\<close> handlers extract from a sentence that prints given values,
  and what they do when fields are empty or missing.
\<close>

section \<open>Decimal fields\<close>

definition digit :: "nat \<Rightarrow> char" where
  "digit n = ''0123456789'' ! n"

text \<open>\<open>dec w n\<close>: \<open>n\<close> in \<open>w\<close> digits.\<close>

fun dec :: "nat \<Rightarrow> nat \<Rightarrow> char list" where
  "dec 0 n = []"
| "dec (Suc w) n = dec w (n div 10) @ [digit (n mod 10)]"

lemma digit_props: "n < 10 \<Longrightarrow> isdigit (digit n) \<and> digit_val (digit n) = n \<and> field_ok [digit n] \<and> body_char (digit n)
    \<and> \<not> isspace (digit n) \<and> digit n \<noteq> CHR ''-'' \<and> digit n \<noteq> CHR ''+''"
proof -
  assume "n < 10"
  then have "n \<in> set [0..<10]" by simp
  also have "set [0..<10] = {0, 1, 2, 3, 4, 5, 6, 7, 8, 9 :: nat}" by (auto simp: upt_rec)
  finally have "n \<in> {0, 1, 2, 3, 4, 5, 6, 7, 8, 9}" .
  then show ?thesis
    by (elim insertE) (simp_all add: digit_def isdigit_def digit_val_def field_ok_def body_char_def isspace_def eval_nat_numeral)
qed

lemma length_dec [simp]: "length (dec w n) = w"
  by (induction w arbitrary: n) auto

lemma dec_chars: "c \<in> set (dec w n) \<Longrightarrow> \<exists>k < 10. c = digit k"
  by (induction w arbitrary: n) (auto intro: exI [of _ "_ mod 10"])

lemma dec_digits: "c \<in> set (dec w n) \<Longrightarrow> isdigit c"
  using dec_chars digit_props by blast

lemma digits_val_append: "digits_val (s @ [c]) = 10 * digits_val s + digit_val c"
  by (simp add: digits_val_def)

lemma digits_val_dec: "n < 10 ^ w \<Longrightarrow> digits_val (dec w n) = n"
proof (induction w arbitrary: n)
  case 0
  then show ?case by (simp add: digits_val_def)
next
  case (Suc w)
  then have "n div 10 < 10 ^ w" by (simp add: less_mult_imp_div_less)
  with Suc.IH show ?case by (simp add: digits_val_append digit_props)
qed

lemma dec_hd: "0 < w \<Longrightarrow> \<exists>k < 10. hd (dec w n) = digit k"
  using dec_chars [of "hd (dec w n)" w n] by (cases "dec w n") (auto dest: arg_cong [of _ _ length])

lemma scan_int_dec:
  assumes "0 < w" "w \<le> 9" "n < 10 ^ w"
  shows "scan_int (Some w) (dec w n @ r) = Some (of_nat n, r)"
proof -
  obtain k where k: "k < 10" "hd (dec w n) = digit k" using dec_hd assms(1) by blast
  have ne: "dec w n \<noteq> []" using assms(1) by (metis length_dec length_0_conv not_less_zero)
  have hd: "hd (dec w n @ r) = digit k" using ne k by simp
  have sp: "dropWhile isspace (dec w n @ r) = dec w n @ r"
    using digit_props [OF k(1)] hd ne by (cases "dec w n") auto
  have tk: "takeWhile isdigit (dec w n) = dec w n" using dec_digits by (auto simp: takeWhile_eq_all_conv)
  have "10 ^ w \<le> (10 :: nat) ^ 9" using assms(2) by (intro power_increasing) auto
  with assms(3) have "saturate32 (int n) = int n" by (simp add: saturate32_def)
  moreover have "take w (dec w n @ r) = dec w n" by simp
  ultimately show ?thesis
    using digit_props [OF k(1)] k ne digits_val_dec [OF assms(3)]
    by (simp add: scan_int_def Let_def sp tk)
qed

section \<open>Position sentences\<close>

text \<open>
  A \<^verbatim>\<open>GPRMC\<close> sentence as the receiver prints it: time, status, latitude, longitude, speed, course,
  date, and two more fields.
\<close>

record rmc =
  r_hour :: nat
  r_min :: nat
  r_sec :: nat
  r_status :: char
  r_lat_d :: nat
  r_lat_m :: nat
  r_lat_f :: nat
  r_ns :: char
  r_lon_d :: nat
  r_lon_m :: nat
  r_lon_f :: nat
  r_ew :: char
  r_speed :: "char list"
  r_course :: "char list"
  r_day :: nat
  r_month :: nat
  r_year :: nat

definition rmc_ok :: "rmc \<Rightarrow> bool" where
  "rmc_ok r \<longleftrightarrow>
     r_hour r < 100 \<and> r_min r < 100 \<and> r_sec r < 100 \<and> r_day r < 100 \<and> r_month r < 100 \<and> r_year r < 100 \<and>
     r_lat_d r < 100 \<and> r_lat_m r < 100 \<and> r_lat_f r < 10000 \<and>
     r_lon_d r < 1000 \<and> r_lon_m r < 100 \<and> r_lon_f r < 10000 \<and>
     r_speed r \<noteq> [] \<and> isdigit (hd (r_speed r)) \<and> length (r_speed r) \<le> 40 \<and> length (r_course r) \<le> 40 \<and>
     (\<forall>c \<in> set (r_speed r) \<union> set (r_course r) \<union> {r_status r, r_ns r, r_ew r}.
        body_char c \<and> field_ok [c])"

definition rmc_fields :: "rmc \<Rightarrow> char list list" where
  "rmc_fields r =
     [''GPRMC'',
      dec 2 (r_hour r) @ dec 2 (r_min r) @ dec 2 (r_sec r) @ ''.000'',
      [r_status r],
      dec 2 (r_lat_d r) @ dec 2 (r_lat_m r) @ ''.'' @ dec 4 (r_lat_f r),
      [r_ns r],
      dec 3 (r_lon_d r) @ dec 2 (r_lon_m r) @ ''.'' @ dec 4 (r_lon_f r),
      [r_ew r], r_speed r, r_course r,
      dec 2 (r_day r) @ dec 2 (r_month r) @ dec 2 (r_year r),
      [], ''A'']"

lemma first_char_dec: "0 < w \<Longrightarrow> isdigit (first_char (dec w n @ s))"
  using dec_hd [of w n] digit_props by (cases "dec w n") (auto simp: first_char_def dest: arg_cong [of _ _ length])

lemma sscanf_six:
  "\<lbrakk>a < 100; b < 100; c < 100\<rbrakk> \<Longrightarrow>
     sscanf six_digits (dec 2 a @ dec 2 b @ dec 2 c @ s) = [of_nat a, of_nat b, of_nat c]"
  by (simp add: six_digits_def scan_int_dec del: dec.simps)

lemma sscanf_position:
  "\<lbrakk>0 < w; w \<le> 9; a < 10 ^ w; b < 100; c < 10000\<rbrakk> \<Longrightarrow>
     sscanf [Conv (Some w), Conv (Some 2), Lit (CHR ''.''), Conv (Some 4)] (dec w a @ dec 2 b @ ''.'' @ dec 4 c)
       = [of_nat a, of_nat b, of_nat c]"
  using scan_int_dec [of 4 c "[]"] by (simp add: scan_int_dec del: dec.simps)

lemma field_at_updates [simp]:
  "field_at (s\<lparr>gps_data := d\<rparr>) k = field_at s k" "field_at (s\<lparr>tm_time := t\<rparr>) k = field_at s k"
  "field_at (s\<lparr>s_gpsOK_1 := b\<rparr>) k = field_at s k" "field_at (s\<lparr>s_gpsOK_2 := b\<rparr>) k = field_at s k"
  "field_at (s\<lparr>clock := c\<rparr>) k = field_at s k" "field_at (s\<lparr>clock_sets := cs\<rparr>) k = field_at s k"
  "field_at (sync_clock c s) k = field_at s k"
  by (simp_all add: field_at_def sync_clock_def split: option.split)

lemma sync_clock_selectors [simp]:
  "gps_data (sync_clock c s) = gps_data s" "timesync (sync_clock c s) = timesync s"
  "tm_time (sync_clock c s) = tm_time s" "s_gpsOK_2 (sync_clock c s) = s_gpsOK_2 s"
  "sbuff (sync_clock c s) = sbuff s" "cmd_list (sync_clock c s) = cmd_list s"
  by (simp_all add: sync_clock_def)

text \<open>What the handler makes of a sentence with time and date.\<close>

definition rmc_tm :: "char list \<Rightarrow> char list \<Rightarrow> u32 \<Rightarrow> MyTm \<Rightarrow> MyTm" where
  "rmc_tm f1 f9 year t = (set_date f9 (set_time f1 t))\<lparr>tm_year := year\<rparr>"

lemma gprmc_run:
  assumes f: "\<And>k. k < 10 \<Longrightarrow> field_at s k = Inr (f k)" and "f 0 = ''$GPRMC''" "isdigit (first_char (f 1))"
    "isdigit (first_char (f 7))" "\<not> timesync s" "sscanf six_digits (f 9) = [a, b, y]"
    "mktime ((rmc_tm (f 1) (f 9) (y + 2000 - 1900) (tm_time s))\<lparr>tm_mon := b - 1\<rparr>) = (tmg, t)"
  shows "gps_gprmc junk s = Inr (sync_clock tmg (s\<lparr>s_gpsOK_2 := True, tm_time := t,
    gps_data := (set_position (f 3) (f 5) (snd (junk s))
        ((gps_data s)\<lparr>d_tm_time := rmc_tm (f 1) (f 9) (y + 2000) zero_tm\<rparr>))
      \<lparr>ns := first_char (f 4), ew := first_char (f 6), status := first_char (f 2)\<rparr>\<rparr>))"
proof -
  have m: "tm_mon (set_date (f 9) t) = b" for t
    using assms(6) by (simp add: set_date_def nth_or_def)
  have y: "nth_or (sscanf six_digits (f 9)) 2 z = y" for z using assms(6) by (simp add: nth_or_def eval_nat_numeral)
  have fs: "field_at s 0 = Inr (f 0)" "field_at s 1 = Inr (f 1)" "field_at s 2 = Inr (f 2)" "field_at s 3 = Inr (f 3)"
    "field_at s 4 = Inr (f 4)" "field_at s 5 = Inr (f 5)" "field_at s 6 = Inr (f 6)" "field_at s 7 = Inr (f 7)"
    "field_at s 9 = Inr (f 9)" by (simp_all add: f)
  show ?thesis
    using assms(2-5,7)
    by (simp add: gps_gprmc_def fs y m rmc_tm_def Let_def case_prod_unfold sync_clock_def del: One_nat_def)
qed


lemma gpgga_other: "\<lbrakk>field_at s 0 = Inr name; name \<noteq> ''$GPGGA''\<rbrakk> \<Longrightarrow> gps_gpgga s = Inr s"
  by (simp add: gps_gpgga_def)

lemma rmc_fields_ok: "rmc_ok r \<Longrightarrow> sentence_ok (rmc_fields r)"
proof -
  assume r: "rmc_ok r"
  have d: "field_ok (dec w n)" "\<forall>c \<in> set (dec w n). body_char c" for w n
    using dec_chars [of _ w n] digit_props by (fastforce simp: field_ok_def)+
  have app: "field_ok (f @ g) \<longleftrightarrow> field_ok f \<and> field_ok g" "field_ok (c # f) \<longleftrightarrow> field_ok [c] \<and> field_ok f" for f g c
    by (auto simp: field_ok_def)
  have l: "length (join (CHR '','') (rmc_fields r)) \<le> 251"
    using r by (simp add: rmc_fields_def rmc_ok_def del: dec.simps)
  have lit: "field_ok ''GPRMC''" "field_ok ''.000''" "field_ok ''.''" "field_ok ''A''" "field_ok []"
    "\<forall>c \<in> set ''GPRMC.0A''. body_char c"
    by (simp_all add: field_ok_def body_char_def)
  have sc: "field_ok (r_speed r)" "field_ok (r_course r)"
    using r by (auto simp: rmc_ok_def field_ok_def)
  have rest: "length (rmc_fields r) = 12" by (simp add: rmc_fields_def)
  have ch: "field_ok [r_status r]" "field_ok [r_ns r]" "field_ok [r_ew r]" using r by (simp_all add: rmc_ok_def)
  have dot: "field_ok (CHR ''.'' # dec w n)" for w n using d(1) [of w n] by (simp add: field_ok_def)
  have "\<forall>f \<in> set (rmc_fields r). field_ok f"
    by (simp add: rmc_fields_def app(1) d lit sc ch dot del: dec.simps)
  moreover have "\<forall>f \<in> set (rmc_fields r). \<forall>c \<in> set f. body_char c"
    using r d(2) lit(6) by (auto simp: rmc_fields_def rmc_ok_def simp del: dec.simps)
  ultimately show ?thesis using l rest by (simp add: sentence_ok_def)
qed

lemma frame_state_ready:
  assumes "gps_ready s" "sentence_ok fs" "length tail = 2"
  shows "gps_ready (frame_state fs tail s)"
proof -
  have fs: "fs \<noteq> []" using assms(2) by (auto simp: sentence_ok_def)
  then have "length (with_dollar fs) = length fs" by (cases fs) (auto simp: with_dollar_def)
  with assms fs length_join [of "CHR '',''" fs NUL] show ?thesis
    by (simp add: gps_ready_def frame_state_def sentence_ok_def join_dollar)
qed

section \<open>A position sentence\<close>

lemma proc_gps_rmc:
  assumes "gps_ready s" "rmc_ok r" "\<not> timesync s"
    "mktime ((tm_time s)\<lparr>tm_hour := of_nat (r_hour r), tm_min := of_nat (r_min r), tm_sec := of_nat (r_sec r),
       tm_mday := of_nat (r_day r), tm_mon := of_nat (r_month r) - 1, tm_year := of_nat (r_year r) + 100\<rparr>) = (tmg, t)"
  shows "\<exists>s'. proc_gps junk (sentence (rmc_fields r)) s = Inr s' \<and> gps_ready s' \<and> s_gpsOK_2 s' \<and> s_index s' = None \<and>
    tm_time s' = t \<and> clock s' = (if clock s AND 0xffffffc0 \<noteq> tmg AND 0xffffffc0 then tmg else clock s) \<and>
    gps_data s' = (gps_data s)\<lparr>
      d_tm_time := \<lparr>tm_sec = of_nat (r_sec r), tm_min = of_nat (r_min r), tm_hour = of_nat (r_hour r),
        tm_mday = of_nat (r_day r), tm_mon = of_nat (r_month r), tm_year = of_nat (2000 + r_year r), tm_zone = 0\<rparr>,
      ns_d := of_nat (r_lat_d r), ns_m10000 := of_nat (10000 * r_lat_m r + r_lat_f r),
      ew_d := of_nat (r_lon_d r), ew_m10000 := of_nat (10000 * r_lon_m r + r_lon_f r),
      ns := r_ns r, ew := r_ew r, status := r_status r\<rparr>"
proof -
  let ?fs = "rmc_fields r"
  let ?tail = "hex2 (xor_bytes (join (CHR '','') ?fs))"
  define s1 where "s1 = frame_state ?fs ?tail s"
  define f where "f k = with_dollar ?fs ! k" for k
  note ok = rmc_fields_ok [OF assms(2)]
  have fok: "\<forall>f \<in> set ?fs. field_ok f" using ok by (simp add: sentence_ok_def)
  have len: "length ?fs = 12" by (simp add: rmc_fields_def)
  have fields: "field_at s1 k = Inr (f k)" if "k < 12" for k
    unfolding s1_def f_def by (rule frame_state_field [OF fok]) (use that len in simp)
  have r: "r_hour r < 100" "r_min r < 100" "r_sec r < 100" "r_day r < 100" "r_month r < 100" "r_year r < 100"
     "r_lat_d r < 10 ^ 2" "r_lat_m r < 100" "r_lat_f r < 10000" "r_lon_d r < 10 ^ 3" "r_lon_m r < 100" "r_lon_f r < 10000"
     "r_speed r \<noteq> []" "isdigit (hd (r_speed r))"
    using assms(2) by (simp_all add: rmc_ok_def)
  have fk: "f 0 = ''$GPRMC''" "f 1 = dec 2 (r_hour r) @ dec 2 (r_min r) @ dec 2 (r_sec r) @ ''.000''"
    "f 2 = [r_status r]" "f 3 = dec 2 (r_lat_d r) @ dec 2 (r_lat_m r) @ ''.'' @ dec 4 (r_lat_f r)" "f 4 = [r_ns r]"
    "f 5 = dec 3 (r_lon_d r) @ dec 2 (r_lon_m r) @ ''.'' @ dec 4 (r_lon_f r)" "f 6 = [r_ew r]" "f 7 = r_speed r"
    "f 9 = dec 2 (r_day r) @ dec 2 (r_month r) @ dec 2 (r_year r)"
    by (simp_all add: f_def rmc_fields_def with_dollar_def eval_nat_numeral del: dec.simps)
  note f1 = sscanf_six [OF r(1-3), of "''.000''"] and f9 = sscanf_six [OF r(4-6), of "[]", unfolded append_Nil2]
  have lat: "isdigit (first_char (f 3))" "sscanf [Conv (Some 2), Conv (Some 2), Lit (CHR ''.''), Conv (Some 4)] (f 3) =
      [of_nat (r_lat_d r), of_nat (r_lat_m r), of_nat (r_lat_f r)]"
    using sscanf_position [OF _ _ r(7-9)] first_char_dec [of 2] by (simp_all add: fk del: dec.simps)
  have lon: "isdigit (first_char (f 5))" "sscanf [Conv (Some 3), Conv (Some 2), Lit (CHR ''.''), Conv (Some 4)] (f 5) =
      [of_nat (r_lon_d r), of_nat (r_lon_m r), of_nat (r_lon_f r)]"
    using sscanf_position [OF _ _ r(10-12)] first_char_dec [of 3] by (simp_all add: fk del: dec.simps)
  have d7: "isdigit (first_char (f 7))" using r(13,14) by (cases "r_speed r") (auto simp: fk first_char_def)
  have d1: "isdigit (first_char (f 1))" unfolding fk by (rule first_char_dec) simp
  have tm: "rmc_tm (f 1) (f 9) y u = u\<lparr>tm_hour := of_nat (r_hour r), tm_min := of_nat (r_min r), tm_sec := of_nat (r_sec r),
       tm_mday := of_nat (r_day r), tm_mon := of_nat (r_month r), tm_year := y\<rparr>" for y u
    by (simp add: rmc_tm_def set_time_def set_date_def fk f1 f9 nth_or_def del: dec.simps One_nat_def)
  have pos: "set_position (f 3) (f 5) z d = d\<lparr>ns_d := of_nat (r_lat_d r), ns_m10000 := of_nat (10000 * r_lat_m r + r_lat_f r),
      ew_d := of_nat (r_lon_d r), ew_m10000 := of_nat (10000 * r_lon_m r + r_lon_f r)\<rparr>" for z d
    using lat lon by (simp add: set_position_def Let_def nth_or_def mult.commute)
  have s1: "timesync s1 = timesync s" "tm_time s1 = tm_time s" "gps_data s1 = gps_data s" "clock s1 = clock s"
    by (simp_all add: s1_def frame_state_def)
  have mk: "mktime ((rmc_tm (f 1) (f 9) (of_nat (r_year r) + 2000 - 1900) (tm_time s1))\<lparr>tm_mon := of_nat (r_month r) - 1\<rparr>) = (tmg, t)"
  proof -
    have "(u\<lparr>tm_mon := m, tm_year := y\<rparr>)\<lparr>tm_mon := m'\<rparr> = u\<lparr>tm_mon := m', tm_year := y\<rparr>" for u :: MyTm and m m' y
      by (cases u) simp
    with assms(4) show ?thesis unfolding tm s1 by (simp only: diff_add_eq add_diff_eq [symmetric]) simp
  qed
  define d2 where "d2 = (gps_data s)\<lparr>
      d_tm_time := \<lparr>tm_sec = of_nat (r_sec r), tm_min = of_nat (r_min r), tm_hour = of_nat (r_hour r),
        tm_mday = of_nat (r_day r), tm_mon = of_nat (r_month r), tm_year = of_nat (2000 + r_year r), tm_zone = 0\<rparr>,
      ns_d := of_nat (r_lat_d r), ns_m10000 := of_nat (10000 * r_lat_m r + r_lat_f r),
      ew_d := of_nat (r_lon_d r), ew_m10000 := of_nat (10000 * r_lon_m r + r_lon_f r),
      ns := r_ns r, ew := r_ew r, status := r_status r\<rparr>"
  define s2 where "s2 = sync_clock tmg (s1\<lparr>s_gpsOK_2 := True, tm_time := t, gps_data := d2\<rparr>)"
  have d2: "(set_position (f 3) (f 5) (snd (junk s1))
        ((gps_data s1)\<lparr>d_tm_time := rmc_tm (f 1) (f 9) (of_nat (r_year r) + 2000) zero_tm\<rparr>))
      \<lparr>ns := first_char (f 4), ew := first_char (f 6), status := first_char (f 2)\<rparr> = d2"
    unfolding pos tm s1 d2_def by (simp add: zero_tm_def fk first_char_def add.commute)
  have "gps_gprmc junk s1 = Inr (sync_clock tmg (s1\<lparr>s_gpsOK_2 := True, tm_time := t,
    gps_data := (set_position (f 3) (f 5) (snd (junk s1))
        ((gps_data s1)\<lparr>d_tm_time := rmc_tm (f 1) (f 9) (of_nat (r_year r) + 2000) zero_tm\<rparr>))
      \<lparr>ns := first_char (f 4), ew := first_char (f 6), status := first_char (f 2)\<rparr>\<rparr>))"
    by (rule gprmc_run [OF fields]) (use fk d1 d7 assms(3) s1 f9 mk in \<open>simp_all del: dec.simps\<close>)
  then have run: "gps_gprmc junk s1 = Inr s2" unfolding d2 s2_def .
  have "gps_gpgga s1 = Inr s1" by (rule gpgga_other [OF fields]) (simp_all add: fk)
  then have p: "proc_gps junk (sentence ?fs) s = Inr (s2\<lparr>s_index := None\<rparr>)"
    using proc_gps_sentence [OF assms(1) ok, of junk] run by (simp add: s1_def [symmetric])
  have rdy: "gps_ready s1"
    unfolding s1_def by (rule frame_state_ready [OF assms(1) ok]) (simp add: length_hex2)
  have "clock s2 = (if clock s AND 0xffffffc0 \<noteq> tmg AND 0xffffffc0 then tmg else clock s)"
    by (simp add: s2_def sync_clock_def s1)
  with p rdy show ?thesis
    by (intro exI [of _ "s2\<lparr>s_index := None\<rparr>"]) (simp add: gps_ready_def s2_def d2_def)
qed

section \<open>Properties of the decoding\<close>

text \<open>
  C13. A position sentence is decoded to the values it prints: fed to the byte parser, a correct
  \<^verbatim>\<open>GPRMC\<close> sentence of the receiver's format leaves in \<^verbatim>\<open>gps_data\<close> the time, the date with the full
  year, degrees and ten-thousandths of minutes of both coordinates, hemispheres and status; it sets
  the broken-down time to the normalised date and brings the system clock to the GPS second unless
  both lie in the same block of 64 seconds.
\<close>

theorem proc_gps_decodes_rmc:
  assumes "gps_ready s" "rmc_ok r" "\<not> timesync s"
    "mktime ((tm_time s)\<lparr>tm_hour := of_nat (r_hour r), tm_min := of_nat (r_min r), tm_sec := of_nat (r_sec r),
       tm_mday := of_nat (r_day r), tm_mon := of_nat (r_month r) - 1, tm_year := of_nat (r_year r) + 100\<rparr>) = (tmg, t)"
  shows "\<exists>s'. proc_gps junk (sentence (rmc_fields r)) s = Inr s' \<and> gps_ready s' \<and> s_gpsOK_2 s' \<and> s_index s' = None \<and>
    tm_time s' = t \<and> clock s' = (if clock s AND 0xffffffc0 \<noteq> tmg AND 0xffffffc0 then tmg else clock s) \<and>
    gps_data s' = (gps_data s)\<lparr>
      d_tm_time := \<lparr>tm_sec = of_nat (r_sec r), tm_min = of_nat (r_min r), tm_hour = of_nat (r_hour r),
        tm_mday = of_nat (r_day r), tm_mon = of_nat (r_month r), tm_year = of_nat (2000 + r_year r), tm_zone = 0\<rparr>,
      ns_d := of_nat (r_lat_d r), ns_m10000 := of_nat (10000 * r_lat_m r + r_lat_f r),
      ew_d := of_nat (r_lon_d r), ew_m10000 := of_nat (10000 * r_lon_m r + r_lon_f r),
      ns := r_ns r, ew := r_ew r, status := r_status r\<rparr>"
  using assms by (rule proc_gps_rmc)

definition sample_rmc :: rmc where
  "sample_rmc = \<lparr>r_hour = 5, r_min = 58, r_sec = 58, r_status = CHR ''A'', r_lat_d = 23, r_lat_m = 7, r_lat_f = 1963,
     r_ns = CHR ''N'', r_lon_d = 113, r_lon_m = 16, r_lon_f = 2968, r_ew = CHR ''E'', r_speed = ''0.00'',
     r_course = ''117.11'', r_day = 8, r_month = 12, r_year = 8\<rparr>"

lemma sample_rmc_ok: "rmc_ok sample_rmc"
  by (simp add: rmc_ok_def sample_rmc_def body_char_def field_ok_def isdigit_def)

theorem proc_gps_decodes_rmc_witness:
  "\<exists>s'. proc_gps (\<lambda>_. (0, 0)) (sentence (rmc_fields sample_rmc)) sample_gps = Inr s' \<and>
     ns_d (gps_data s') = 23 \<and> ns_m10000 (gps_data s') = 71963 \<and> ew_d (gps_data s') = 113 \<and>
     ew_m10000 (gps_data s') = 162968 \<and> tm_year (d_tm_time (gps_data s')) = 2008"
proof -
  obtain tmg t where "mktime ((tm_time sample_gps)\<lparr>tm_hour := of_nat (r_hour sample_rmc), tm_min := of_nat (r_min sample_rmc),
      tm_sec := of_nat (r_sec sample_rmc), tm_mday := of_nat (r_day sample_rmc), tm_mon := of_nat (r_month sample_rmc) - 1,
      tm_year := of_nat (r_year sample_rmc) + 100\<rparr>) = (tmg, t)" by fastforce
  moreover have "\<not> timesync sample_gps" by (simp add: sample_gps_def)
  ultimately obtain s' where "proc_gps (\<lambda>_. (0, 0)) (sentence (rmc_fields sample_rmc)) sample_gps = Inr s'"
    and d: "gps_data s' = (gps_data sample_gps)\<lparr>
      d_tm_time := \<lparr>tm_sec = of_nat (r_sec sample_rmc), tm_min = of_nat (r_min sample_rmc), tm_hour = of_nat (r_hour sample_rmc),
        tm_mday = of_nat (r_day sample_rmc), tm_mon = of_nat (r_month sample_rmc), tm_year = of_nat (2000 + r_year sample_rmc), tm_zone = 0\<rparr>,
      ns_d := of_nat (r_lat_d sample_rmc), ns_m10000 := of_nat (10000 * r_lat_m sample_rmc + r_lat_f sample_rmc),
      ew_d := of_nat (r_lon_d sample_rmc), ew_m10000 := of_nat (10000 * r_lon_m sample_rmc + r_lon_f sample_rmc),
      ns := r_ns sample_rmc, ew := r_ew sample_rmc, status := r_status sample_rmc\<rparr>"
    using proc_gps_decodes_rmc [OF sample_gps_ready sample_rmc_ok, of _ _ "\<lambda>_. (0, 0)"] by blast
  then show ?thesis by (simp add: sample_rmc_def)
qed

definition no_fix_fields :: "char list list" where
  "no_fix_fields = [''GPRMC'', [], ''V'', [], [], [], [], [], [], [], [], ''N'']"

text \<open>
  Without a fix the coordinates are destroyed: for the sentence a receiver sends when it has
  no position (empty fields), the handler still multiplies the old minutes by 10000 and adds an
  uninitialised variable, and takes the year from another one.
\<close>

theorem gprmc_no_fix_rescales:
  assumes "gps_ready s" "\<not> timesync s"
  shows "\<exists>s1 s'. proc_gps junk (sentence no_fix_fields) s = Inr s' \<and>
    ns_m10000 (gps_data s') = ns_m10000 (gps_data s) * 10000 + snd (junk s1) \<and>
    ew_m10000 (gps_data s') = ew_m10000 (gps_data s) * 10000 + snd (junk s1) \<and>
    tm_year (d_tm_time (gps_data s')) = fst (junk s1) + 2000 \<and> status (gps_data s') = CHR ''V''"
proof -
  let ?fs = no_fix_fields
  define s1 where "s1 = frame_state ?fs (hex2 (xor_bytes (join (CHR '','') ?fs))) s"
  have ok: "sentence_ok ?fs" by (simp add: sentence_ok_def no_fix_fields_def field_ok_def body_char_def)
  then have fok: "\<forall>f \<in> set ?fs. field_ok f" by (simp add: sentence_ok_def)
  have fields: "field_at s1 k = Inr (with_dollar ?fs ! k)" if "k < 12" for k
    unfolding s1_def by (rule frame_state_field [OF fok]) (use that in \<open>simp add: no_fix_fields_def\<close>)
  have fk: "field_at s1 0 = Inr ''$GPRMC''" "field_at s1 1 = Inr []" "field_at s1 2 = Inr ''V''" "field_at s1 3 = Inr []"
    "field_at s1 4 = Inr []" "field_at s1 5 = Inr []" "field_at s1 6 = Inr []" "field_at s1 7 = Inr []"
    by (simp_all add: fields no_fix_fields_def with_dollar_def eval_nat_numeral)
  have nd: "\<not> isdigit (first_char [])" "\<not> isdigit NUL" by (simp_all add: first_char_def isdigit_def)
  have s1: "timesync s1 = timesync s" "gps_data s1 = gps_data s" by (simp_all add: s1_def frame_state_def)
  define mk where "mk = mktime ((tm_time s1)\<lparr>tm_year := 100 + fst (junk s1), tm_mon := tm_mon (tm_time s1) - 1\<rparr>)"
  define d2 where "d2 = (set_position [] [] (snd (junk s1)) ((gps_data s)\<lparr>d_tm_time := zero_tm\<lparr>tm_year := fst (junk s1) + 2000\<rparr>\<rparr>))
      \<lparr>ns := NUL, ew := NUL, status := CHR ''V''\<rparr>"
  have c: "first_char [] = NUL" "first_char ''V'' = CHR ''V''" by (simp_all add: first_char_def)
  define s2 where "s2 = sync_clock (fst mk) (s1\<lparr>s_gpsOK_2 := True,
      gps_data := (gps_data s)\<lparr>d_tm_time := zero_tm\<lparr>tm_year := fst (junk s1) + 2000\<rparr>\<rparr>, tm_time := snd mk\<rparr>)"
  have run: "gps_gprmc junk s1 = Inr (s2\<lparr>gps_data := d2\<rparr>)"
    using assms(2) by (simp add: gps_gprmc_def fk nd c Let_def case_prod_unfold s1 d2_def s2_def mk_def [symmetric] del: One_nat_def)
  have "gps_gpgga s1 = Inr s1" by (rule gpgga_other [OF fk(1)]) simp
  then have p: "proc_gps junk (sentence ?fs) s = Inr ((s2\<lparr>gps_data := d2\<rparr>)\<lparr>s_index := None\<rparr>)"
    using proc_gps_sentence [OF assms(1) ok, of junk] run by (simp add: s1_def [symmetric])
  have "ns_m10000 d2 = ns_m10000 (gps_data s) * 10000 + snd (junk s1)"
    "ew_m10000 d2 = ew_m10000 (gps_data s) * 10000 + snd (junk s1)"
    "tm_year (d_tm_time d2) = fst (junk s1) + 2000" "status d2 = CHR ''V''"
    using nd by (simp_all add: d2_def set_position_def Let_def nth_or_def)
  with p show ?thesis by (intro exI [of _ s1] exI conjI) (rule p, simp_all)
qed

theorem gprmc_no_fix_rescales_witness:
  "\<exists>s'. proc_gps (\<lambda>_. (7, 9)) (sentence no_fix_fields) sample_gps = Inr s' \<and> ns_m10000 (gps_data s') = 9"
  using gprmc_no_fix_rescales [OF sample_gps_ready, of "\<lambda>_. (7, 9)"] by (auto simp: sample_gps_def)

text \<open>
  A short sentence dereferences a pointer that was never set: before any long sentence has
  filled the field table, a \<^verbatim>\<open>GPGGA\<close> sentence with a correct checksum and at most seven fields makes
  the handler use the null pointer in \<^verbatim>\<open>cmd_list[7]\<close>.
\<close>

theorem gpgga_short_sentence_null:
  assumes "gps_ready s" "cmd_list s = replicate 64 None" "sentence_ok (''GPGGA'' # fs)" "length fs < 7"
  shows "proc_gps junk (sentence (''GPGGA'' # fs)) s = Inl NullPointer"
proof -
  let ?fs = "''GPGGA'' # fs"
  define s1 where "s1 = frame_state ?fs (hex2 (xor_bytes (join (CHR '','') ?fs))) s"
  have "\<forall>f \<in> set ?fs. field_ok f" using assms(3) by (simp add: sentence_ok_def)
  then have f0: "field_at s1 0 = Inr ''$GPGGA''"
    unfolding s1_def by (subst frame_state_field) (simp_all add: with_dollar_def)
  have "cmd_list s1 ! 7 = None"
    using assms(2,4) by (simp add: s1_def frame_state_def with_dollar_def nth_append nth_Cons split: nat.splits)
  then have "field_at s1 7 = Inl NullPointer" by (simp add: field_at_def)
  with f0 have "gps_gpgga s1 = Inl NullPointer" by (simp add: gps_gpgga_def)
  then show ?thesis
    using proc_gps_sentence [OF assms(1,3), of junk] by (simp add: s1_def [symmetric])
qed

theorem gpgga_short_sentence_null_witness:
  "proc_gps (\<lambda>_. (0, 0)) (sentence [''GPGGA'', ''1'']) sample_gps = Inl NullPointer"
  by (rule gpgga_short_sentence_null [OF sample_gps_ready])
    (simp_all add: sample_gps_def sentence_ok_def field_ok_def body_char_def)

lemma same_block:
  fixes a b :: u32
  assumes "a AND 0xffffffc0 = b AND 0xffffffc0"
  shows "\<bar>int (unat a) - int (unat b)\<bar> < 64"
proof -
  have m: "(0xffffffc0 :: u32) = NOT (mask 6)" by (simp add: mask_eq_exp_minus_1)
  have d: "drop_bit 6 a = drop_bit 6 b"
  proof (rule bit_word_eqI)
    fix k assume "k < LENGTH(32)"
    have "bit (a AND 0xffffffc0) (k + 6) = bit (b AND 0xffffffc0) (k + 6)" by (simp only: assms)
    then show "bit (drop_bit 6 a) k = bit (drop_bit 6 b) k"
      unfolding m by (auto simp: bit_drop_bit_eq bit_and_iff bit_not_iff bit_mask_iff add.commute dest: bit_imp_le_length)
  qed
  then have "unat a div 64 = unat b div 64"
    using unat_drop_bit_eq [of 6 a] unat_drop_bit_eq [of 6 b] by (simp add: drop_bit_eq_div)
  then show ?thesis by linarith
qed

text \<open>
  The clock is compared by blocks of 64 seconds: a clock that is left alone is less than 64
  seconds off, but a clock that is one second off is set when the two times lie in different
  blocks, although the source says that only differences of more than 63 seconds are corrected.
\<close>

theorem sync_clock_window:
  "(clock (sync_clock tmg s) = tmg \<or> \<bar>int (unat (clock s)) - int (unat tmg)\<bar> < 64) \<and>
   (clock s = 63 \<and> tmg = 64 \<longrightarrow> clock_sets (sync_clock tmg s) = clock_sets s @ [64])"
  using same_block [of "clock s" tmg] by (auto simp: sync_clock_def)

theorem sync_clock_window_witness:
  "clock_sets (sync_clock 64 (sample_gps\<lparr>clock := 63\<rparr>)) = [64]"
  using sync_clock_window [of 64 "sample_gps\<lparr>clock := 63\<rparr>"] by (simp add: sample_gps_def)

lemma scan_int_free:
  assumes "0 < w" "w \<le> 9" "n < 10 ^ w" "r = [] \<or> \<not> isdigit (hd r)"
  shows "scan_int None (dec w n @ r) = Some (of_nat n, r)"
proof -
  obtain k where k: "k < 10" "hd (dec w n) = digit k" using dec_hd assms(1) by blast
  have ne: "dec w n \<noteq> []" using assms(1) by (metis length_dec length_0_conv not_less_zero)
  have sp: "dropWhile isspace (dec w n @ r) = dec w n @ r"
    using digit_props [OF k(1)] k ne by (cases "dec w n") auto
  have tk: "takeWhile isdigit (dec w n @ r) = dec w n"
    using dec_digits assms(4) by (cases r) (auto simp: takeWhile_append)
  have "10 ^ w \<le> (10 :: nat) ^ 9" using assms(2) by (intro power_increasing) auto
  with assms(3) have "saturate32 (int n) = int n" by (simp add: saturate32_def)
  then show ?thesis
    using digit_props [OF k(1)] k ne digits_val_dec [OF assms(3)]
    by (simp add: scan_int_def Let_def sp tk)
qed

text \<open>
  C30. A \<^verbatim>\<open>GPGGA\<close> sentence gives the number of satellites and the height, but the fraction of the
  height loses its leading zeros: whatever the number of digits \<open>v\<close> the fraction is printed with,
  \<^verbatim>\<open>height_m\<close> is its value as an integer, so 57.5 and 57.05 are stored alike.
\<close>

theorem proc_gps_decodes_gga:
  assumes "gps_ready s" "sentence_ok fs" "10 \<le> length fs" "fs ! 0 = ''GPGGA''" "fs ! 7 = dec 2 n" "n < 100"
    "fs ! 9 = dec w h @ ''.'' @ dec v m" "0 < w" "w \<le> 9" "h < 10 ^ w" "0 < v" "v \<le> 9" "m < 10 ^ v"
  shows "\<exists>s'. proc_gps junk (sentence fs) s = Inr s' \<and> s_gpsOK_1 s' \<and> s_gpsOK_2 s' = s_gpsOK_2 s \<and>
    gps_data s' = (gps_data s)\<lparr>count := of_nat n, height_d := of_nat h, height_m := of_nat m\<rparr>"
proof -
  define s1 where "s1 = frame_state fs (hex2 (xor_bytes (join (CHR '','') fs))) s"
  have fok: "\<forall>f \<in> set fs. field_ok f" using assms(2) by (simp add: sentence_ok_def)
  have wd: "with_dollar fs ! 0 = ''$GPGGA''" "with_dollar fs ! 7 = dec 2 n"
    "with_dollar fs ! 9 = dec w h @ ''.'' @ dec v m"
    using assms(3-5,7) by (cases fs; simp add: with_dollar_def nth_Cons' del: dec.simps)+
  have fields: "field_at s1 k = Inr (with_dollar fs ! k)" if "k < 10" for k
    unfolding s1_def by (rule frame_state_field [OF fok]) (use that assms(3) in simp)
  have f: "field_at s1 0 = Inr ''$GPGGA''" "field_at s1 7 = Inr (dec 2 n)" "field_at s1 9 = Inr (dec w h @ ''.'' @ dec v m)"
    using fields wd by simp_all
  have nd: "\<not> isdigit (CHR ''.'')" by (simp add: isdigit_def)
  have c: "sscanf [Conv (Some 2)] (dec 2 n) = [of_nat n]" "isdigit (first_char (dec 2 n))"
    using scan_int_dec [of 2 n "[]"] assms(6) first_char_dec [of 2 n "[]"] by (simp_all del: dec.simps)
  have h: "sscanf [Conv None, Lit (CHR ''.''), Conv None] (dec w h @ ''.'' @ dec v m) = [of_nat h, of_nat m]"
    using scan_int_free [OF assms(8-10), of "''.'' @ dec v m"] scan_int_free [OF assms(11-13), of "[]"] nd
    by (simp del: dec.simps)
  define s2 where "s2 = s1\<lparr>s_gpsOK_1 := True,
      gps_data := (gps_data s)\<lparr>count := of_nat n, height_d := of_nat h, height_m := of_nat m\<rparr>\<rparr>"
  have s1: "gps_data s1 = gps_data s" "s_gpsOK_2 s1 = s_gpsOK_2 s" by (simp_all add: s1_def frame_state_def)
  have run: "gps_gpgga s1 = Inr s2"
    using c h by (simp add: gps_gpgga_def f Let_def s1 nth_or_def s2_def del: dec.simps)
  have "gps_gprmc junk s2 = Inr s2" using f(1) by (simp add: gps_gprmc_def s2_def)
  with run have "proc_gps junk (sentence fs) s = Inr (s2\<lparr>s_index := None\<rparr>)"
    using proc_gps_sentence [OF assms(1,2), of junk] by (simp add: s1_def [symmetric])
  then show ?thesis by (simp add: s2_def s1)
qed

lemma dec_2: "dec 2 n = [digit (n div 10 mod 10), digit (n mod 10)]"
  by (simp add: numeral_2_eq_2)

theorem proc_gps_decodes_gga_witness:
  "\<exists>s'. proc_gps (\<lambda>_. (0, 0)) (sentence [''GPGGA'', [], [], [], [], [], [], ''06'', [], ''57.05'']) sample_gps = Inr s' \<and>
    s_gpsOK_1 s' \<and> s_gpsOK_2 s' = s_gpsOK_2 sample_gps \<and>
    gps_data s' = (gps_data sample_gps)\<lparr>count := of_nat 6, height_d := of_nat 57, height_m := of_nat 5\<rparr>"
  by (rule proc_gps_decodes_gga [OF sample_gps_ready, where w = 2 and v = 2])
    (simp_all add: sentence_ok_def field_ok_def body_char_def digit_def dec_2 del: dec.simps)

end
