(* ===== verification/AppState.thy ===== *)
theory AppState
  imports Csr Bram IniFile Lfsr Serial
begin

text \<open>
  The static variables of \<^verbatim>\<open>application/app.c\<close> as a record, the effects of the application that
  leave the process, and what the environment answers. The two register devices are the driver
  models of \<open>AxiCsr\<close> and \<open>Bram\<close>.
\<close>

section \<open>Effects and environment\<close>

text \<open>
  What a pointer to sample words can be: null, \<^verbatim>\<open>MAP_FAILED\<close>, one of the two windows of physical
  memory that \<^verbatim>\<open>InitMem\<close> maps, the stack buffer of the older delivery functions, or the constant
  samples of the card test. A span of a
  buffer is sent or written as a whole.
\<close>

datatype block = NullAddr | MapFailed | Block_A | Block_B | DataBuff | SimuData

datatype app_effect =
    SendData block u32 u32                    \<comment> \<open>buffer, offset, length\<close>
  | SendTo block u32 u32
  | SendCmd "u8 list"
  | SendMesg u16 u16 gps_data_t               \<comment> \<open>message number, length, payload\<close>
  | FileOpen "char list"
  | FileWrite "char list" block u32           \<comment> \<open>path, buffer, length\<close>
  | FileWriteConfig "char list" "u32 list"
  | FileRead "char list" u32
  | FileClose "char list"
  | FileRemove "char list"

text \<open>
  \<open>access_ok\<close> and \<open>mkdir_ok\<close> answer for a path after some directories have been made. \<open>lfsr_stack\<close>
  is the uninitialised buffer of \<^verbatim>\<open>GetLfsrUint\<close>, \<open>now\<close> the system time in seconds.
\<close>

record app_env =
  csr_hw :: hardware
  ram_hw :: hardware
  ini_files :: files
  access_ok :: "char list list \<Rightarrow> char list \<Rightarrow> bool"
  mkdir_ok :: "char list list \<Rightarrow> char list \<Rightarrow> bool"
  fopen_ok :: "char list \<Rightarrow> bool"
  lfsr_stack :: "u8 list"
  now :: u32
  gps_info :: gps_data_t

section \<open>State\<close>

text \<open>
  \<open>s_pSdHPFd\<close> is the path of the open stream. \<open>m_ulTotalLen\<close> is the static local of \<^verbatim>\<open>DeliverData\<close>.
  \<open>made\<close> are the directories the process has created.
\<close>

record app_state =
  csr :: axi_csr_file
  ram :: bram_file
  s_pTcpBuff :: "u8 list"
  s_uiTcpSendLen :: u32
  s_ucIsReady :: u8
  s_uiFlag :: u32
  s_ulTotalLen :: u64
  s_ulSampleLength :: u64
  s_uiCheck :: u32
  s_ucIntHappend :: u8
  s_ucDeliveredDone :: u8
  s_WorkMode_TX :: u32
  s_uiSavePC :: u32
  s_SdDataDIR :: "char list"
  s_puiConfigBuf :: "u32 list"
  s_SD_FILE_NAME :: "char list"
  s_pSdHPFd :: "char list option"
  s_puiPrbsBuff :: "u32 list"
  s_puiAddr_A :: block
  s_puiAddr_B :: block
  s_puiAddr :: block
  m_ulTotalLen :: u64
  s_ulDataSize :: u64
  s_cnt :: u32
  s_tick :: u32
  made :: "char list list"
  effects :: "app_effect list"

definition effect :: "app_effect list \<Rightarrow> app_state \<Rightarrow> app_state" where
  "effect es s = s\<lparr>effects := effects s @ es\<rparr>"

lemma effect_simps [simp]:
  "effects (effect es s) = effects s @ es" "s_ucIsReady (effect es s) = s_ucIsReady s"
  "s_ulTotalLen (effect es s) = s_ulTotalLen s" "s_ulSampleLength (effect es s) = s_ulSampleLength s"
  "s_uiFlag (effect es s) = s_uiFlag s" "s_uiSavePC (effect es s) = s_uiSavePC s"
  "s_pSdHPFd (effect es s) = s_pSdHPFd s" "s_puiAddr_A (effect es s) = s_puiAddr_A s"
  "s_puiAddr_B (effect es s) = s_puiAddr_B s" "s_puiAddr (effect es s) = s_puiAddr s"
  "csr (effect es s) = csr s" "m_ulTotalLen (effect es s) = m_ulTotalLen s"
  "s_ucDeliveredDone (effect es s) = s_ucDeliveredDone s" "s_pTcpBuff (effect es s) = s_pTcpBuff s"
  "s_uiTcpSendLen (effect es s) = s_uiTcpSendLen s"
  by (simp_all add: effect_def)

section \<open>Numbers of the headers\<close>

definition TRUE :: u8 where "TRUE = 1"
definition FALSE :: u8 where "FALSE = 0"
definition BRAM_SIZE :: u64 where "BRAM_SIZE = 65536"
definition PACKAGE_SIZE :: u64 where "PACKAGE_SIZE = 32768"
definition CMDHEADER_SIZE :: u32 where "CMDHEADER_SIZE = 8"
definition TCP_BUFF_SIZE :: nat where "TCP_BUFF_SIZE = 1024 + 8"
definition LOCAL_CMD_PORT :: u16 where "LOCAL_CMD_PORT = 14310"
definition LOCAL_DATA_PORT :: u16 where "LOCAL_DATA_PORT = 14311"
definition LOCAL_MSG_PORG :: u16 where "LOCAL_MSG_PORG = 14312"
definition REMOTE_UDP_PORT :: u16 where "REMOTE_UDP_PORT = 1601"
definition ACQ_START_CMD :: u16 where "ACQ_START_CMD = 0x1001"
definition ACQ_START_ACK :: u16 where "ACQ_START_ACK = 0x1002"
definition ACQ_STOP_CMD :: u16 where "ACQ_STOP_CMD = 0x1003"
definition ACQ_STOP_ACK :: u16 where "ACQ_STOP_ACK = 0x1004"
definition GpsTimeMesg :: u16 where "GpsTimeMesg = 0x2005"

definition SetReadyFlag :: "u8 \<Rightarrow> app_state \<Rightarrow> app_state" where
  "SetReadyFlag ucFlag s = s\<lparr>s_ucIsReady := ucFlag\<rparr>"

definition GetReadyFlag :: "app_state \<Rightarrow> u8" where
  "GetReadyFlag s = s_ucIsReady s"

text \<open>The state of a fresh process with open devices, for witnesses.\<close>

definition sample_bram :: bram_file where
  "sample_bram = \<lparr>b_dev = \<lparr>b_dev_physaddr = 0x80030000, b_dev_virtaddr = 0xF1000000, b_dev_addrsize = 80,
     b_writers = 0, b_bytes_written = 0, b_writes = 0, b_opens = 1, b_closes = 0, b_errors = 0\<rparr>,
     b_f_pos = 0, b_log = []\<rparr>"

definition sample_app :: app_state where
  "sample_app = \<lparr>csr = sample_csr, ram = sample_bram, s_pTcpBuff = replicate 1032 0, s_uiTcpSendLen = 0, s_ucIsReady = 0,
     s_uiFlag = 0, s_ulTotalLen = 0, s_ulSampleLength = 0, s_uiCheck = 1, s_ucIntHappend = 0, s_ucDeliveredDone = 0,
     s_WorkMode_TX = 1, s_uiSavePC = 0, s_SdDataDIR = replicate 64 NUL, s_puiConfigBuf = replicate 87 0,
     s_SD_FILE_NAME = replicate 32 NUL, s_pSdHPFd = None, s_puiPrbsBuff = replicate 64 0, s_puiAddr_A = Block_A, s_puiAddr_B = Block_B, s_puiAddr = NullAddr,
     m_ulTotalLen = 0, s_ulDataSize = 0, s_cnt = 0, s_tick = 0, made = [], effects = []\<rparr>"

end
