(* ===== verification/AppConfig.thy ===== *)
theory AppConfig
  imports AppState
begin

text \<open>
  The configuration part of \<^verbatim>\<open>application/app.c\<close>: the tables that translate the values of the
  configuration file, the sample rate command, the directory for the data files, the code memory,
  and \<^verbatim>\<open>Configuration\<close>, which reads the file and programs the registers.
\<close>

section \<open>Tables\<close>

definition s_SampleRateReg :: "u32 list" where
  "s_SampleRateReg = [0x1D, 0x1C, 0x1B, 0x1A, 0x19, 0x18]"

definition s_SampleRateValue :: "u32 list" where
  "s_SampleRateValue = [78125, 156250, 312500, 625000, 1250000, 2500000]"

text \<open>Pairs of the value in the file and the value for the register.\<close>

definition s_FullRange :: "(int \<times> int) list" where
  "s_FullRange = [(3000000, 0), (300000, 1), (30000, 2), (3000, 3), (300, 7)]"

definition s_Filter :: "(int \<times> int) list" where
  "s_Filter = [(0, 1), (12, 2), (120, 0), (1200, 3)]"

definition s_InputSouce :: "(int \<times> int) list" where
  "s_InputSouce = [(1, 0), (2, 1), (3, 3)]"

definition s_SyncMode :: "(int \<times> int) list" where
  "s_SyncMode = [(0, 2), (1, 1)]"

definition s_WorkMode :: "(int \<times> int) list" where
  "s_WorkMode = [(1, 1), (2, 0)]"

fun GetRealData :: "(int \<times> int) list \<Rightarrow> int \<Rightarrow> int" where
  "GetRealData [] iPcData = 0"
| "GetRealData ((pc, arm) # ps) iPcData = (if iPcData = pc then arm else GetRealData ps iPcData)"

section \<open>Sample rate and code memory\<close>

definition SetSampleRate :: "hardware \<Rightarrow> u8 \<Rightarrow> axi_csr_file \<Rightarrow> (int \<times> axi_csr_file) res" where
  "SetSampleRate hw ucSampleRate fd =
     need (unat ucSampleRate < length s_SampleRateReg) OutOfBounds
       (let (_, fd) = RegWrite (axi_csr_fops hw) fd CSR_C_TO_IO_CMD
                        (0xFF00 OR s_SampleRateReg ! unat ucSampleRate);
            (_, fd) = RegWrite (axi_csr_fops hw) fd CSR_C_TO_IO_CMD 0x0000
        in Inr (0, fd))"

text \<open>The loop of \<^verbatim>\<open>SetDataToRam\<close>, for \<open>i\<close> up to \<open>m\<close>; it returns the last result.\<close>

function set_ram :: "hardware \<Rightarrow> u32 list \<Rightarrow> nat \<Rightarrow> nat \<Rightarrow> int \<Rightarrow> bram_file \<Rightarrow> (int \<times> bram_file) res" where
  "set_ram hw buf i m iRet fd =
     (if i < m then
        need (i < length buf) OutOfBounds
          (let (_, fd) = bram_lseek fd (of_nat i) 0;
               (iRet, fd) = bram_write fd (buf ! i)
           in set_ram hw buf (i + 1) m iRet fd)
      else Inr (iRet, fd))"
  by pat_completeness auto
termination
  by (relation "measure (\<lambda>(hw, buf, i, m, iRet, fd). m - i)") auto

declare set_ram.simps [simp del]

text \<open>\<^verbatim>\<open>total\<close> is a signed \<^verbatim>\<open>int\<close>: for \<open>n = 31\<close> it is negative and nothing is written.\<close>

definition SetDataToRam ::
  "hardware \<Rightarrow> u8 list \<Rightarrow> u32 \<Rightarrow> u32 \<Rightarrow> u32 \<Rightarrow> u32 list \<Rightarrow> bram_file
     \<Rightarrow> (int \<times> u32 list \<times> bram_file) res" where
  "SetDataToRam hw stack uiSeed uiValue n buf fd =
     andThen (GetLfsrUint stack uiSeed uiValue buf n) (\<lambda>buf.
       let total_bits = sint (Power n) in
       andThen (set_ram hw buf 0 (if total_bits < 0 then 0 else nat (total_bits div 32)) 0 fd)
         (\<lambda>(iRet, fd). Inr (iRet, buf, fd)))"

section \<open>Directories\<close>

text \<open>
  \<^verbatim>\<open>CreateDir\<close> makes every directory on the way to the path. An empty path reads the byte before
  the buffer.
\<close>

fun make_dirs :: "(char list list \<Rightarrow> char list \<Rightarrow> bool) \<Rightarrow> (char list list \<Rightarrow> char list \<Rightarrow> bool)
    \<Rightarrow> char list list \<Rightarrow> char list list \<Rightarrow> u32 \<times> char list list" where
  "make_dirs acc mk [] ds = (1, ds)"
| "make_dirs acc mk (p # ps) ds =
     (if acc ds p then make_dirs acc mk ps ds
      else if mk ds p then make_dirs acc mk ps (ds @ [p])
      else (0, ds))"

definition dir_prefixes :: "char list \<Rightarrow> char list list" where
  "dir_prefixes d = map (\<lambda>i. take i d) (filter (\<lambda>i. d ! i = CHR ''/'') [1..<length d])"

definition CreateDir :: "(char list list \<Rightarrow> char list \<Rightarrow> bool) \<Rightarrow> (char list list \<Rightarrow> char list \<Rightarrow> bool)
    \<Rightarrow> char list \<Rightarrow> char list list \<Rightarrow> (u32 \<times> char list list) res" where
  "CreateDir acc mk sPathName ds =
     need (sPathName \<noteq> []) OutOfBounds
       (let d = (if last sPathName \<noteq> CHR ''/'' then sPathName @ ''/'' else sPathName) in
        need (length d + 1 \<le> 256) OutOfBounds (Inr (make_dirs acc mk (dir_prefixes d) ds)))"

section \<open>\<^verbatim>\<open>Configuration\<close>\<close>

record config =
  WorkMode :: int
  SyncMode :: int
  FullScalRange :: int
  LpfFilter :: int
  InputSource :: int
  ImpulseWidth :: int
  AdcSamplingRates :: int
  SequenceLength :: int
  GenerationPolymerization :: int
  InitialValue :: int
  SavePosition :: int

definition cfg_int :: "files \<Rightarrow> char list \<Rightarrow> int res" where
  "cfg_int fs key = read_profile_int fs ''Coinfiguration'' key 0 ''Configuration.ini''"

definition read_config :: "files \<Rightarrow> config res" where
  "read_config fs =
     andThen (cfg_int fs ''WorkMode'') (\<lambda>work. andThen (cfg_int fs ''SyncMode'') (\<lambda>sync.
     andThen (cfg_int fs ''FullScalRange'') (\<lambda>full. andThen (cfg_int fs ''LpfFilter'') (\<lambda>filt.
     andThen (cfg_int fs ''InputSource'') (\<lambda>inp. andThen (cfg_int fs ''ImpulseWidth'') (\<lambda>width.
     andThen (cfg_int fs ''AdcSamplingRates'') (\<lambda>rate. andThen (cfg_int fs ''SequenceLength'') (\<lambda>seqlen.
     andThen (cfg_int fs ''GenerationPolymerization'') (\<lambda>poly. andThen (cfg_int fs ''InitialValue'') (\<lambda>ini.
     andThen (cfg_int fs ''SavePosition'') (\<lambda>pos.
       Inr \<lparr>WorkMode = work, SyncMode = sync, FullScalRange = full, LpfFilter = filt, InputSource = inp,
            ImpulseWidth = width, AdcSamplingRates = rate, SequenceLength = seqlen,
            GenerationPolymerization = poly, InitialValue = ini, SavePosition = pos\<rparr>)))))))))))"

text \<open>\<^verbatim>\<open>memcpy\<close> of bytes into an array of 32-bit words, little endian.\<close>

definition le_word :: "char list \<Rightarrow> u32" where
  "le_word s = of_nat (of_char (s ! 0) + 256 * of_char (s ! 1) + 65536 * of_char (s ! 2) + 16777216 * of_char (s ! 3))"

definition words_of :: "char list \<Rightarrow> u32 list" where
  "words_of s = map (\<lambda>k. le_word (take 4 (drop (4 * k) s))) [0..<length s div 4]"

definition config_buf :: "config \<Rightarrow> char list \<Rightarrow> u32 list \<Rightarrow> u32 list" where
  "config_buf c dir old =
     (let front = [word_of_int (WorkMode c), word_of_int (SyncMode c)] @ words_of dir @
        map word_of_int [FullScalRange c, InputSource c, LpfFilter c, AdcSamplingRates c, ImpulseWidth c,
          SequenceLength c, GenerationPolymerization c, InitialValue c, SavePosition c]
      in front @ drop (length front) old)"

text \<open>
  \<^verbatim>\<open>(uint64_t)(Power(n) - 1) * (uint64_t)width * (uint64_t)rate / 1000000 * 4\<close>
\<close>

definition sample_length :: "config \<Rightarrow> u64 res" where
  "sample_length c =
     need (0 \<le> AdcSamplingRates c \<and> nat (AdcSamplingRates c) < length s_SampleRateValue) OutOfBounds
       (Inr (ucast (Power (word_of_int (SequenceLength c)) - 1) * word_of_int (ImpulseWidth c)
         * ucast (s_SampleRateValue ! nat (AdcSamplingRates c)) div 1000000 * 4))"

text \<open>
  The acquisition period: the duration of the code in seconds, rounded up, plus 2, and the delay to
  its next multiple. The source computes the quotient in \<^verbatim>\<open>double\<close>. Quotients that fit an unsigned
  int have a numerator below 2 to the 53, which is exact, and the division is off by less than 2 to
  the -20, less than the distance \<^verbatim>\<open>1e-6\<close> of a fraction to the next integer: \<^verbatim>\<open>ceil\<close> gives the exact
  ceiling.
\<close>

definition acq_period :: "config \<Rightarrow> u32 res" where
  "acq_period c =
     (let p = uint (Power (word_of_int (SequenceLength c)) - 1) * ImpulseWidth c;
          t = - ((- p) div 1000000)
      in need (0 \<le> t \<and> t < 2 ^ 32) BadConversion (Inr (word_of_int t + 2)))"

definition acq_delta :: "u32 \<Rightarrow> u32 \<Rightarrow> u32 res" where
  "acq_delta t3 uiSeconds = need (t3 \<noteq> 0) DivideByZero (Inr (t3 - uiSeconds mod t3))"

definition reg_set :: "hardware \<Rightarrow> u32 \<Rightarrow> u32 \<Rightarrow> app_state \<Rightarrow> app_state" where
  "reg_set hw l v s = s\<lparr>csr := snd (RegWrite (axi_csr_fops hw) (csr s) l v)\<rparr>"

text \<open>The register writes before and after the sample rate.\<close>

definition set_modes :: "hardware \<Rightarrow> config \<Rightarrow> app_state \<Rightarrow> app_state" where
  "set_modes hw c s =
     reg_set hw CSR_FLT_SEL (word_of_int (GetRealData s_Filter (LpfFilter c)))
       (reg_set hw CSR_FLL_SCALE_SET (word_of_int (GetRealData s_FullRange (FullScalRange c)))
         (reg_set hw CSR_SYNC_MODE (word_of_int (GetRealData s_SyncMode (SyncMode c)))
           (reg_set hw CSR_TRANS_EN (word_of_int (GetRealData s_WorkMode (WorkMode c)))
             (reg_set hw CSR_INPUT_SEL (word_of_int (GetRealData s_InputSouce (InputSource c))) s))))"

definition Configuration :: "app_env \<Rightarrow> app_state \<Rightarrow> (int \<times> app_state) res" where
  "Configuration env s =
     andThen (read_config (ini_files env)) (\<lambda>c.
     andThen (read_profile_string (ini_files env) ''Coinfiguration'' ''DataDirectory'' (s_SdDataDIR s)
                (int (length (s_SdDataDIR s))) None ''Configuration.ini'') (\<lambda>(diReadCheck, dir).
     andThen (CreateDir (access_ok env) (mkdir_ok env) (cstr dir) (made s)) (\<lambda>(creatDirCheck, ds).
     let s = s\<lparr>s_uiSavePC := word_of_int (SavePosition c), s_SdDataDIR := dir, made := ds,
               s_puiConfigBuf := config_buf c dir (s_puiConfigBuf s),
               s_WorkMode_TX := word_of_int (GetRealData s_WorkMode (WorkMode c))\<rparr>;
         s = set_modes (csr_hw env) c s in
     andThen (SetSampleRate (csr_hw env) (word_of_int (AdcSamplingRates c)) (csr s)) (\<lambda>(_, fd).
     let s = s\<lparr>csr := fd\<rparr>;
         code = Power (word_of_int (SequenceLength c)) - 1;
         s = reg_set (csr_hw env) CSR_CODE_LENGTH code s in
     andThen (sample_length c) (\<lambda>len.
     let s = s\<lparr>s_ulSampleLength := len\<rparr>;
         s = reg_set (csr_hw env) CSR_CODE_CLK_CYCLES (word_of_int (ImpulseWidth c * 40)) s in
     andThen (SetDataToRam (ram_hw env) (lfsr_stack env) (word_of_int (InitialValue c))
                (word_of_int (GenerationPolymerization c)) (word_of_int (SequenceLength c))
                (s_puiPrbsBuff s) (ram s)) (\<lambda>(_, buf, rfd).
     let s = s\<lparr>s_puiPrbsBuff := buf, ram := rfd\<rparr> in
     andThen (acq_period c) (\<lambda>t3.
     andThen (acq_delta t3 (now env)) (\<lambda>tDelta.
     let s = reg_set (csr_hw env) CSR_T_ACQ t3 s;
         s = reg_set (csr_hw env) CSR_T_DELTA tDelta s;
         s = reg_set (csr_hw env) CSR_T_START 1 s
     in Inr (0, s)))))))))"

end
