(* ===== verification/ConfigProps.thy ===== *)
theory ConfigProps
  imports AppConfig IniDoc
begin

text \<open>
  What \<^verbatim>\<open>Configuration\<close> and its helpers achieve: the code memory holds the code words, every control
  register holds the configured values, the acquisition starts at a multiple of its period, the
  directory exists.
\<close>

section \<open>The code memory\<close>

lemma set_ram_stores:
  assumes "bram_ready fd" "\<forall>r < BRAM_PHY_SIZE. bram_stable hw fd r" "m \<le> length buf" "m \<le> 64"
  shows "\<exists>n fd'. set_ram hw buf i m iRet fd = Inr (n, fd') \<and> bram_ready fd' \<and>
    (i < m \<longrightarrow> n = 4) \<and>
    (\<forall>r < BRAM_PHY_SIZE. bram_peek hw fd' r = (if i \<le> unat r \<and> unat r < m then buf ! unat r else bram_peek hw fd r))"
  using assms
proof (induction hw buf i m iRet fd rule: set_ram.induct)
  case (1 hw buf i m iRet fd)
  show ?case
  proof (cases "i < m")
    case False
    then show ?thesis using 1 by (subst set_ram.simps) auto
  next
    case True
    define r :: u32 where "r = of_nat i"
    have ur: "unat r = i" "r < BRAM_PHY_SIZE"
      using True "1.prems"(4) by (simp_all add: r_def unat_of_nat BRAM_PHY_SIZE_def word_less_nat_alt)
    have off: "(of_nat i :: u64) = ucast r"
      using True "1.prems"(4) by (simp add: word_unat_eq_iff unsigned_ucast_eq ur(1) unat_of_nat take_bit_nat_eq_self)
    obtain p f1 where s: "bram_lseek fd (ucast r) 0 = (p, f1)" by fastforce
    obtain n f2 where w: "bram_write f1 (buf ! i) = (n, f2)" by fastforce
    have s': "fop_llseek (bram_fops hw) fd (ucast r) 0 = (p, f1)" "fop_write (bram_fops hw) f1 (buf ! i) = (n, f2)"
      using s w by (simp_all add: bram_fops_def)
    note f1 = bramdev.seek_set [OF "1.prems"(1) s'(1)]
    have n: "n = 4" "bram_ready f2" using bramdev.write_inside [of f1 r hw] f1 ur(2) s'(2) by auto
    have st: "bram_stable hw f1 x = bram_stable hw fd x" "bram_stable hw f2 x = bram_stable hw fd x" for x
      using bramdev.stable_seek [OF s'(1)] bramdev.stable_write [OF s'(2)] by auto
    have pk: "bram_peek hw f2 x = (if x = r then buf ! i else bram_peek hw fd x)" if "x < BRAM_PHY_SIZE" for x
      using bramdev.write_stores [of f1 r hw, OF _ _ ur(2) s'(2)] bramdev.write_keeps [of f1 r hw, OF _ _ ur(2) s'(2), of x]
        f1 st "1.prems"(2) ur(2) that by auto
    from "1.IH" [OF True _ s [folded off, symmetric] refl w [symmetric] refl n(2)] st "1.prems" True
    obtain n' fd' where IH: "set_ram hw buf (i + 1) m n f2 = Inr (n', fd')" "bram_ready fd'" "i + 1 < m \<longrightarrow> n' = 4"
      "\<forall>x < BRAM_PHY_SIZE. bram_peek hw fd' x = (if i + 1 \<le> unat x \<and> unat x < m then buf ! unat x else bram_peek hw f2 x)"
      by auto
    have "set_ram hw buf i m iRet fd = Inr (n', fd')"
      using True "1.prems"(3) IH(1) s w by (subst set_ram.simps) (simp add: off)
    moreover have "n' = 4" using IH(1,3) n(1) True by (cases "i + 1 < m") (auto simp: set_ram.simps [of _ _ "Suc i"])
    moreover have "bram_peek hw fd' x = (if i \<le> unat x \<and> unat x < m then buf ! unat x else bram_peek hw fd x)"
      if "x < BRAM_PHY_SIZE" for x
      using IH(4) pk [OF that] that ur(1) True by (auto simp: word_unat_eq_iff not_le less_Suc_eq_le)
    ultimately show ?thesis using IH(2) by blast
  qed
qed

lemma sint_below: "w < 2 ^ 31 \<Longrightarrow> sint w = int (unat w)" for w :: u32
proof -
  assume "w < 2 ^ 31"
  then have "\<not> bit (uint w) 31" using below_exp_bits [of 31 w] by (simp add: bit_uint_iff)
  then have "signed_take_bit 31 (uint w) = take_bit 31 (uint w)" by (rule signed_take_bit_eq_if_positive)
  moreover have "take_bit 31 (uint w) = uint w"
    using \<open>w < 2 ^ 31\<close> by (simp add: take_bit_int_eq_self_iff word_less_def)
  ultimately show ?thesis by (simp add: sint_uint)
qed

lemma Power_words:
  assumes "5 \<le> n" "n \<le> 11"
  shows "sint (Power n) = 2 ^ unat n" "\<not> sint (Power n) < 0" "nat (sint (Power n) div 32) = 2 ^ unat n div 32"
proof -
  have p: "(2::nat) ^ unat n \<le> 2048" using code_words(3) [of "unat n"] assms by (simp add: word_le_nat_alt)
  have u: "unat (Power n) = 2 ^ unat n"
    unfolding Power_eq by (rule unat_two_power) (use assms in \<open>simp add: word_le_nat_alt\<close>)
  then have "Power n < 2 ^ 31" using p by (simp add: word_less_nat_alt)
  from sint_below [OF this] u show s: "sint (Power n) = 2 ^ unat n" by simp
  then show "\<not> sint (Power n) < 0" "nat (sint (Power n) div 32) = 2 ^ unat n div 32"
    by (simp_all add: nat_div_distrib nat_power_eq)
qed

text \<open>The words that end up in the code memory for order \<open>n\<close>.\<close>

definition code_memory :: "u8 list \<Rightarrow> nat \<Rightarrow> u32 list" where
  "code_memory stack n = replicate (2 ^ n div 32 - 1) 0 @ [push_bit 31 (ucast (stack ! (2 ^ n - 1)))]"

lemma code_memory_length: "5 \<le> n \<Longrightarrow> length (code_memory stack n) = 2 ^ n div 32"
proof -
  assume "5 \<le> n"
  then have "(2::nat) ^ 5 \<le> 2 ^ n" by (intro power_increasing) auto
  then show ?thesis by (simp add: code_memory_def)
qed

lemma SetDataToRam_words:
  assumes "5 \<le> n" "n \<le> 11" "length stack = 2048" "length buf = 64" "bram_ready fd"
    "\<forall>r < BRAM_PHY_SIZE. bram_stable hw fd r"
  shows "\<exists>fd'. SetDataToRam hw stack seed poly n buf fd = Inr (4, code_memory stack (unat n) @ drop (2 ^ unat n div 32) buf, fd')
    \<and> bram_ready fd' \<and> (\<forall>r < BRAM_PHY_SIZE. bram_peek hw fd' r =
      (if unat r < 2 ^ unat n div 32 then code_memory stack (unat n) ! unat r else bram_peek hw fd r))"
proof -
  define W where "W = (2::nat) ^ unat n div 32"
  have n: "5 \<le> unat n" "unat n \<le> 11" using assms(1,2) by (simp_all add: word_le_nat_alt)
  have W: "0 < W" "W \<le> 64" using code_words [OF n] by (simp_all add: W_def)
  define b where "b = code_memory stack (unat n) @ drop W buf"
  have l: "length (code_memory stack (unat n)) = W" using code_memory_length [OF n(1)] by (simp add: W_def)
  have lb: "length b = 64" using l W assms(4) by (simp add: b_def)
  have g: "GetLfsrUint stack seed poly buf n = Inr b"
    using GetLfsrUint_eq [OF assms(1,2,3), of buf] W assms(4) by (simp add: b_def code_memory_def W_def)
  obtain m fd' where r: "set_ram hw b 0 W 0 fd = Inr (m, fd')" "bram_ready fd'" "m = 4"
    "\<forall>r < BRAM_PHY_SIZE. bram_peek hw fd' r = (if unat r < W then b ! unat r else bram_peek hw fd r)"
    using set_ram_stores [OF assms(5,6), of W b 0 0] W lb by auto
  have "SetDataToRam hw stack seed poly n buf fd = Inr (4, b, fd')"
    using g r(1,3) Power_words [OF assms(1,2)] by (simp add: SetDataToRam_def W_def)
  moreover have "b ! unat r = code_memory stack (unat n) ! unat r" if "unat r < W" for r :: u32
    using that l by (simp add: b_def nth_append)
  ultimately show ?thesis using r(2,4) unfolding W_def [symmetric] b_def by (intro exI [of _ fd']) auto
qed

lemma set_ram_overruns:
  assumes "length buf < m" "i \<le> length buf"
  shows "set_ram hw buf i m iRet fd = Inl OutOfBounds"
  using assms
proof (induction hw buf i m iRet fd rule: set_ram.induct)
  case (1 hw buf i m iRet fd)
  obtain p f1 where s: "bram_lseek fd (of_nat i) 0 = (p, f1)" by fastforce
  obtain n f2 where w: "bram_write f1 (buf ! i) = (n, f2)" by fastforce
  show ?case
  proof (cases "i < length buf")
    case True
    with 1 s w show ?thesis by (subst set_ram.simps) auto
  next
    case False
    with 1 show ?thesis by (subst set_ram.simps) (auto simp: need_def)
  qed
qed

section \<open>Register scripts\<close>

text \<open>A sequence of register writes, and what it leaves behind.\<close>

fun run_script :: "hardware \<Rightarrow> (u32 \<times> u32) list \<Rightarrow> axi_csr_file \<Rightarrow> axi_csr_file" where
  "run_script hw [] f = f"
| "run_script hw ((l, v) # ws) f = run_script hw ws (snd (RegWrite (axi_csr_fops hw) f l v))"

lemma run_script_append [simp]: "run_script hw (xs @ ys) f = run_script hw ys (run_script hw xs f)"
  by (induction hw xs f rule: run_script.induct) auto

definition storage_for :: "hardware \<Rightarrow> axi_csr_file \<Rightarrow> u32 set \<Rightarrow> bool" where
  "storage_for hw f ls \<longleftrightarrow> axi_csr_ready f \<and> ls \<subseteq> set csr_labels \<and> (\<forall>l \<in> ls. axi_csr_stable hw f (REG_OFFSET l))"

lemma storage_for_write:
  assumes "storage_for hw f ls" "l \<in> ls"
  shows "storage_for hw (snd (RegWrite (axi_csr_fops hw) f l v)) ls"
proof -
  obtain n f' where w: "RegWrite (axi_csr_fops hw) f l v = (n, f')" by fastforce
  have "axi_csr_ready f" "REG_OFFSET l < AXI_CSR_PHY_SIZE" "axi_csr_stable hw f (REG_OFFSET l)"
    using assms csr_labels_fit by (auto simp: storage_for_def)
  from axi.RegWrite_store [OF this w] assms(1) w show ?thesis by (auto simp: storage_for_def)
qed

lemma read_after_write:
  assumes "storage_for hw f ls" "l \<in> ls" "l' \<in> ls"
  shows "fst (RegRead (axi_csr_fops hw) (snd (RegWrite (axi_csr_fops hw) f l' v)) l) =
    (if l = l' then take_bit (unat (REG_BITNUM l)) v else fst (RegRead (axi_csr_fops hw) f l))"
proof -
  obtain n f' where w: "RegWrite (axi_csr_fops hw) f l' v = (n, f')" by fastforce
  have a: "axi_csr_ready f" "label_ok l" "l \<in> set csr_labels" "l' \<in> set csr_labels"
    "REG_OFFSET l < AXI_CSR_PHY_SIZE" "REG_OFFSET l' < AXI_CSR_PHY_SIZE"
    "axi_csr_stable hw f (REG_OFFSET l)" "axi_csr_stable hw f (REG_OFFSET l')"
    using assms csr_labels_fit by (auto simp: storage_for_def)
  show ?thesis
  proof (cases "l = l'")
    case True
    with axi.RegRead_after_RegWrite [OF a(1,6,8) _ w] a(2) w show ?thesis by simp
  next
    case False
    with axi.RegRead_other_after_RegWrite [OF a(1,5,6,7,8) _ w]
      fields_apart_masks [OF csr_labels_pairwise [OF a(3,4)]] w show ?thesis by simp
  qed
qed

text \<open>After a script every label reads as the last value written to it, cut to its width.\<close>

lemma run_script_reads:
  assumes "storage_for hw f ls" "fst ` set ws \<subseteq> ls" "l \<in> ls"
  shows "storage_for hw (run_script hw ws f) ls \<and> fst (RegRead (axi_csr_fops hw) (run_script hw ws f) l) =
    (case map_of (rev ws) l of Some v \<Rightarrow> take_bit (unat (REG_BITNUM l)) v
     | None \<Rightarrow> fst (RegRead (axi_csr_fops hw) f l))"
  using assms
proof (induction hw ws f rule: run_script.induct)
  case (2 hw l' v ws f)
  from "2.prems" have l': "l' \<in> ls" by auto
  from 2 storage_for_write [OF "2.prems"(1) l', of v] read_after_write [OF "2.prems"(1,3) l', of v]
  show ?case by (auto simp: map_add_def split: option.splits)
qed simp

section \<open>The schedule of the acquisition\<close>

lemma ceiling_by_million: "- ((- p) div 1000000) * 1000000 < p + 1000000 \<and> p \<le> - ((- p) div 1000000) * 1000000"
  for p :: int
  using div_mult_mod_eq [of "- p" 1000000] pos_mod_bound [of 1000000 "- p"] pos_mod_sign [of 1000000 "- p"]
  by linarith

lemma delta_word:
  fixes t now :: u32
  assumes "t \<noteq> 0"
  shows "unat (t - now mod t) = unat t - unat now mod unat t"
proof -
  have "now mod t < t" using assms by (simp add: word_gt_0 word_mod_less_divisor)
  then show ?thesis by (simp add: unat_sub unat_mod less_imp_le)
qed

lemma schedule:
  assumes "0 \<le> p" "p = uint (Power (word_of_int (SequenceLength c)) - 1) * ImpulseWidth c"
    "p \<le> 1000000 * (2 ^ 32 - 3)"
  shows "\<exists>t3 d. acq_period c = Inr t3 \<and> acq_delta t3 seconds = Inr d
    \<and> p \<le> (uint t3 - 2) * 1000000 \<and> (uint t3 - 2) * 1000000 < p + 1000000
    \<and> (unat seconds + unat d) mod unat t3 = 0 \<and> 0 < d \<and> d \<le> t3"
proof -
  define t where "t = - ((- p) div 1000000)"
  have t: "0 \<le> t" "t \<le> 2 ^ 32 - 3" using assms(1,3) by (auto simp: t_def)
  define t3 :: u32 where "t3 = word_of_int t + 2"
  have "t3 = word_of_int (t + 2)" by (simp add: t3_def wi_hom_add [symmetric])
  then have u: "uint t3 = t + 2" using t by (simp only: uint_word_of_int_eq) (simp add: take_bit_int_eq_self)
  then have nz: "t3 \<noteq> 0" using t(1) by (metis add_nonneg_eq_0_iff uint_0_eq zero_neq_numeral zero_le_numeral)
  have period: "acq_period c = Inr t3"
    using t by (simp add: acq_period_def t3_def t_def assms(2) Let_def need_def)
  define d where "d = t3 - seconds mod t3"
  have d: "unat d = unat t3 - unat seconds mod unat t3" using delta_word [OF nz] by (simp add: d_def)
  have lt: "unat seconds mod unat t3 < unat t3" using nz by (simp add: unat_gt_0)
  have "(unat seconds + unat d) mod unat t3 = 0"
  proof -
    have "unat seconds + unat d = unat t3 * (unat seconds div unat t3) + unat t3"
      using d lt mult_div_mod_eq [of "unat t3" "unat seconds"] by linarith
    then show ?thesis by simp
  qed
  moreover have "0 < d" "d \<le> t3" using d lt by (auto simp: word_less_nat_alt word_le_nat_alt)
  moreover have "acq_delta t3 seconds = Inr d" using nz by (simp add: acq_delta_def d_def)
  ultimately show ?thesis using period u ceiling_by_million [of p] by (auto simp: t_def)
qed

section \<open>Directories\<close>

text \<open>
  What the code needs to know of the file system: a directory that was made can be accessed, and
  making another one does not take that away.
\<close>

lemma make_dirs_makes:
  assumes "\<And>ds p. mk ds p \<Longrightarrow> acc (ds @ [p]) p" "\<And>ds p q. acc ds p \<Longrightarrow> acc (ds @ [q]) p"
    "make_dirs acc mk ps ds = (r, ds')"
  shows "(\<forall>p. acc ds p \<longrightarrow> acc ds' p) \<and> (r = 1 \<longrightarrow> (\<forall>p \<in> set ps. acc ds' p)) \<and> r \<in> {0, 1}
    \<and> (\<exists>new. ds' = ds @ new \<and> subseq new ps)"
  using assms(3)
proof (induction ps arbitrary: ds)
  case (Cons p ps)
  show ?case
  proof (cases "acc ds p")
    case True
    with Cons.prems have "make_dirs acc mk ps ds = (r, ds')" by simp
    from Cons.IH [OF this] True show ?thesis by auto
  next
    case False
    show ?thesis
    proof (cases "mk ds p")
      case True
      with False Cons.prems have "make_dirs acc mk ps (ds @ [p]) = (r, ds')" by simp
      from Cons.IH [OF this] assms(1) [OF True] assms(2) show ?thesis by auto
    next
      case mk: False
      with False Cons.prems show ?thesis by auto
    qed
  qed
qed simp

lemma dir_prefixes_mem:
  "p \<in> set (dir_prefixes d) \<longleftrightarrow> p \<noteq> [] \<and> (\<exists>r. d = p @ CHR ''/'' # r)"
proof
  assume "p \<in> set (dir_prefixes d)"
  then obtain i where i: "p = take i d" "1 \<le> i" "i < length d" "d ! i = CHR ''/''" by (auto simp: dir_prefixes_def)
  then show "p \<noteq> [] \<and> (\<exists>r. d = p @ CHR ''/'' # r)" using id_take_nth_drop [of i d] by auto
next
  assume "p \<noteq> [] \<and> (\<exists>r. d = p @ CHR ''/'' # r)"
  then obtain r where r: "p \<noteq> []" "d = p @ CHR ''/'' # r" by blast
  then have "length p \<in> set (filter (\<lambda>i. d ! i = CHR ''/'') [1..<length d])"
    by (auto simp: nth_append Suc_le_eq)
  moreover have "p = take (length p) d" using r by simp
  ultimately show "p \<in> set (dir_prefixes d)" unfolding dir_prefixes_def by (metis image_eqI set_map)
qed

lemma sorted_wrt_subseq: "subseq xs ys \<Longrightarrow> sorted_wrt P ys \<Longrightarrow> sorted_wrt P xs"
  by (induction xs ys rule: list_emb.induct) (auto dest: list_emb_set)

lemma dir_prefixes_sorted: "sorted_wrt strict_prefix (dir_prefixes d)"
proof -
  have "sorted_wrt (<) (filter (\<lambda>i. d ! i = CHR ''/'') [1..<length d])"
    by (intro sorted_wrt_filter) (simp add: sorted_wrt_upt)
  moreover have "strict_prefix (take i d) (take j d)" if "i < j" "j < length d" for i j
    using that take_is_prefix [of i "take j d"] by (auto simp: strict_prefix_def min_def dest: arg_cong [of _ _ length])
  ultimately show ?thesis
    unfolding dir_prefixes_def sorted_wrt_map by (rule sorted_wrt_mono_rel [rotated]) auto
qed

section \<open>\<^verbatim>\<open>Configuration\<close> as a register script\<close>

definition set_point :: "(int \<times> int) list \<Rightarrow> int \<Rightarrow> u32" where
  "set_point tab v = word_of_int (GetRealData tab v)"

definition control_script :: "config \<Rightarrow> u32 \<Rightarrow> u32 \<Rightarrow> (u32 \<times> u32) list" where
  "control_script c t3 d =
     [(CSR_INPUT_SEL, set_point s_InputSouce (InputSource c)), (CSR_TRANS_EN, set_point s_WorkMode (WorkMode c)),
      (CSR_SYNC_MODE, set_point s_SyncMode (SyncMode c)), (CSR_FLL_SCALE_SET, set_point s_FullRange (FullScalRange c)),
      (CSR_FLT_SEL, set_point s_Filter (LpfFilter c)),
      (CSR_C_TO_IO_CMD, 0xFF00 OR s_SampleRateReg ! nat (AdcSamplingRates c)), (CSR_C_TO_IO_CMD, 0),
      (CSR_CODE_LENGTH, Power (word_of_int (SequenceLength c)) - 1),
      (CSR_CODE_CLK_CYCLES, word_of_int (ImpulseWidth c * 40)),
      (CSR_T_ACQ, t3), (CSR_T_DELTA, d), (CSR_T_START, 1)]"

definition control_labels :: "u32 list" where
  "control_labels = [CSR_INPUT_SEL, CSR_TRANS_EN, CSR_SYNC_MODE, CSR_FLL_SCALE_SET, CSR_FLT_SEL, CSR_C_TO_IO_CMD,
     CSR_CODE_LENGTH, CSR_CODE_CLK_CYCLES, CSR_T_ACQ, CSR_T_DELTA, CSR_T_START]"

definition reads :: "hardware \<Rightarrow> axi_csr_file \<Rightarrow> u32 list \<Rightarrow> u32 list" where
  "reads hw f ls = map (\<lambda>l. fst (RegRead (axi_csr_fops hw) f l)) ls"

lemma control_script_labels: "fst ` set (control_script c t3 d) \<subseteq> set control_labels"
  by (simp add: control_script_def control_labels_def)

lemma take_bit_u32 [simp]: "take_bit 32 w = w" for w :: u32
  by (simp add: take_bit_word_eq_self)

lemma control_script_reads:
  assumes "storage_for hw f (set control_labels)"
  shows "reads hw (run_script hw (control_script c t3 d) f) control_labels =
    [take_bit 2 (set_point s_InputSouce (InputSource c)), take_bit 1 (set_point s_WorkMode (WorkMode c)),
     take_bit 1 (set_point s_SyncMode (SyncMode c)), take_bit 6 (set_point s_FullRange (FullScalRange c)),
     take_bit 2 (set_point s_Filter (LpfFilter c)), 0, Power (word_of_int (SequenceLength c)) - 1,
     word_of_int (ImpulseWidth c * 40), take_bit 16 t3, take_bit 15 d, 1]"
proof -
  have r: "fst (RegRead (axi_csr_fops hw) (run_script hw (control_script c t3 d) f) l) =
      (case map_of (rev (control_script c t3 d)) l of Some v \<Rightarrow> take_bit (unat (REG_BITNUM l)) v
       | None \<Rightarrow> fst (RegRead (axi_csr_fops hw) f l))" if "l \<in> set control_labels" for l
    using run_script_reads [OF assms control_script_labels that] by blast
  have "reads hw (run_script hw (control_script c t3 d) f) control_labels =
      map (\<lambda>l. case map_of (rev (control_script c t3 d)) l of Some v \<Rightarrow> take_bit (unat (REG_BITNUM l)) v
       | None \<Rightarrow> fst (RegRead (axi_csr_fops hw) f l)) control_labels"
    unfolding reads_def using r by (intro map_cong) auto
  also have "\<dots> = [take_bit 2 (set_point s_InputSouce (InputSource c)), take_bit 1 (set_point s_WorkMode (WorkMode c)),
     take_bit 1 (set_point s_SyncMode (SyncMode c)), take_bit 6 (set_point s_FullRange (FullScalRange c)),
     take_bit 2 (set_point s_Filter (LpfFilter c)), 0, Power (word_of_int (SequenceLength c)) - 1,
     word_of_int (ImpulseWidth c * 40), take_bit 16 t3, take_bit 15 d, 1]"
    by (simp add: control_labels_def control_script_def csr_label_defs REG_BITNUM_def)
  finally show ?thesis .
qed

lemma csr_reg_set [simp]: "csr (reg_set hw l v s) = run_script hw [(l, v)] (csr s)"
  "ram (reg_set hw l v s) = ram s" "s_puiPrbsBuff (reg_set hw l v s) = s_puiPrbsBuff s"
  "s_ulSampleLength (reg_set hw l v s) = s_ulSampleLength s" "made (reg_set hw l v s) = made s"
  "s_uiSavePC (reg_set hw l v s) = s_uiSavePC s" "s_SdDataDIR (reg_set hw l v s) = s_SdDataDIR s"
  by (simp_all add: reg_set_def)

text \<open>The values \<^verbatim>\<open>Configuration\<close> can program without a fault.\<close>

definition config_fits :: "config \<Rightarrow> bool" where
  "config_fits c \<longleftrightarrow> 5 \<le> SequenceLength c \<and> SequenceLength c \<le> 11
     \<and> 0 \<le> AdcSamplingRates c \<and> AdcSamplingRates c < 6 \<and> 0 \<le> ImpulseWidth c \<and> ImpulseWidth c < 2 ^ 31"

lemma code_order:
  assumes "config_fits c"
  shows "unat (word_of_int (SequenceLength c) :: u32) = nat (SequenceLength c)"
    "(5::u32) \<le> word_of_int (SequenceLength c)" "word_of_int (SequenceLength c) \<le> (11::u32)"
    "uint (Power (word_of_int (SequenceLength c)) - 1) = 2 ^ nat (SequenceLength c) - 1"
    "(2::int) ^ nat (SequenceLength c) \<le> 2048" "(32::int) \<le> 2 ^ nat (SequenceLength c)"
proof -
  define m where "m = nat (SequenceLength c)"
  have m: "5 \<le> m" "m \<le> 11" "SequenceLength c = int m" using assms by (auto simp: config_fits_def m_def)
  have wm: "(word_of_int (SequenceLength c) :: u32) = of_nat m" using m(3) by simp
  then have um: "unat (word_of_int (SequenceLength c) :: u32) = m"
    using m(2) by (simp only: unat_of_nat) (simp add: take_bit_nat_eq_self)
  then show u: "unat (word_of_int (SequenceLength c) :: u32) = nat (SequenceLength c)" by (simp only: m_def)
  show n: "(5::u32) \<le> word_of_int (SequenceLength c)" "word_of_int (SequenceLength c) \<le> (11::u32)"
    using um m(1,2) by (simp_all only: word_le_nat_alt) simp_all
  have p: "(2::nat) ^ m \<le> 2048" "(32::nat) \<le> 2 ^ m"
    using code_words(3) [OF m(1,2)] power_increasing [of 5 m "2::nat"] m(1) by simp_all
  then show "(2::int) ^ nat (SequenceLength c) \<le> 2048" "(32::int) \<le> 2 ^ nat (SequenceLength c)"
    unfolding m_def [symmetric] by (metis of_nat_le_iff of_nat_numeral of_nat_power)+
  have e: "unat (Power (word_of_int (SequenceLength c))) = 2 ^ m"
    unfolding Power_eq um by (rule unat_two_power) (use m(2) in simp)
  then have "Power (word_of_int (SequenceLength c)) \<noteq> 0" by auto
  then have "unat (Power (word_of_int (SequenceLength c)) - 1) = 2 ^ m - 1"
    using e by (simp add: unat_minus_one)
  moreover have "uint w = int (unat w)" for w :: u32 by simp
  ultimately have "uint (Power (word_of_int (SequenceLength c)) - 1) = int (2 ^ m - 1)" by metis
  then show "uint (Power (word_of_int (SequenceLength c)) - 1) = 2 ^ nat (SequenceLength c) - 1"
    unfolding m_def [symmetric] using of_nat_diff [of 1 "2 ^ m", where ?'a = int] by simp
qed

text \<open>The number of bytes: duration of the code times the sample rate times 4.\<close>

definition bytes_expected :: "config \<Rightarrow> int" where
  "bytes_expected c = (2 ^ nat (SequenceLength c) - 1) * ImpulseWidth c
     * uint (s_SampleRateValue ! nat (AdcSamplingRates c)) div 1000000 * 4"

lemma rate_tables_length [simp]: "length s_SampleRateValue = 6" "length s_SampleRateReg = 6"
  by (simp_all add: s_SampleRateValue_def s_SampleRateReg_def)

lemma rate_bound: "\<lbrakk>0 \<le> r; r < 6\<rbrakk> \<Longrightarrow> uint (s_SampleRateValue ! nat r) \<le> 2500000"
proof -
  assume r: "0 \<le> r" "r < 6"
  then have "nat r < length s_SampleRateValue" by simp
  then have "s_SampleRateValue ! nat r \<in> set s_SampleRateValue" by (rule nth_mem)
  then show ?thesis by (auto simp: s_SampleRateValue_def)
qed

lemma u64_exact: "\<lbrakk>0 \<le> x; x < 2 ^ 64\<rbrakk> \<Longrightarrow> uint (word_of_int x :: u64) = x"
  by (simp only: uint_word_of_int_eq) (simp add: take_bit_int_eq_self)

lemma sample_length_exact:
  assumes "config_fits c"
  shows "sample_length c = Inr (word_of_int (bytes_expected c))" "0 \<le> bytes_expected c" "bytes_expected c < 2 ^ 64"
proof -
  define a where "a = (2::int) ^ nat (SequenceLength c) - 1"
  define w where "w = ImpulseWidth c"
  define r where "r = uint (s_SampleRateValue ! nat (AdcSamplingRates c))"
  have b: "0 \<le> a" "a \<le> 2047" "0 \<le> w" "w \<le> 2147483647" "0 \<le> r" "r \<le> 2500000"
    using code_order [OF assms] rate_bound assms by (auto simp: a_def w_def r_def config_fits_def)
  have aw: "0 \<le> a * w" "a * w \<le> 2047 * 2147483647" using b mult_mono [of a 2047 w 2147483647] by simp_all
  have awr: "0 \<le> a * w * r" "a * w * r \<le> 2047 * 2147483647 * 2500000" using b aw mult_mono [of "a * w" "2047 * 2147483647" r 2500000] by simp_all
  define q where "q = a * w * r div 1000000"
  have d: "0 \<le> q" "q \<le> 2047 * 2147483647 * 2500000 div 1000000"
    using awr(1) zdiv_mono1 [OF awr(2), of 1000000] by (simp_all add: q_def pos_imp_zdiv_nonneg_iff)
  have e: "bytes_expected c = q * 4" by (simp only: bytes_expected_def a_def w_def r_def q_def)
  show "0 \<le> bytes_expected c" "bytes_expected c < 2 ^ 64" using d by (simp_all add: e)
  have "word_of_int a = (ucast (Power (word_of_int (SequenceLength c)) - 1) :: u64)"
    unfolding a_def by (simp only: code_order(4) [OF assms, symmetric] ucast_eq)
  moreover have "word_of_int r = (ucast (s_SampleRateValue ! nat (AdcSamplingRates c)) :: u64)"
    unfolding r_def by (simp only: ucast_eq)
  moreover have "(word_of_int (a * w * r) :: u64) div 1000000 = word_of_int q"
  proof -
    have "uint (word_of_int (a * w * r) :: u64) = a * w * r" using awr by (intro u64_exact) simp_all
    then show ?thesis by (simp add: word_div_def q_def del: uint_word_of_int)
  qed
  ultimately have "(ucast (Power (word_of_int (SequenceLength c)) - 1) :: u64) * word_of_int (ImpulseWidth c)
      * ucast (s_SampleRateValue ! nat (AdcSamplingRates c)) div 1000000 * 4 = word_of_int (bytes_expected c)"
    unfolding e w_def by (simp only: wi_hom_mult [symmetric] word_of_int_numeral)
  moreover have "0 \<le> AdcSamplingRates c \<and> nat (AdcSamplingRates c) < length s_SampleRateValue"
    using assms by (auto simp: config_fits_def nat_less_iff)
  ultimately show "sample_length c = Inr (word_of_int (bytes_expected c))"
    by (simp only: sample_length_def need_def simp_thms if_True)
qed

lemma sample_rate_script:
  "0 \<le> r \<Longrightarrow> r < 6 \<Longrightarrow> SetSampleRate hw (word_of_int r) fd =
    Inr (0, run_script hw [(CSR_C_TO_IO_CMD, 0xFF00 OR s_SampleRateReg ! nat r), (CSR_C_TO_IO_CMD, 0)] fd)"
proof -
  assume r: "0 \<le> r" "r < 6"
  then have "unat (word_of_int r :: u8) = nat r"
    by (simp only: unat_eq_nat_uint uint_word_of_int_eq) (simp add: take_bit_int_eq_self)
  with r show ?thesis by (simp add: SetSampleRate_def Let_def split_def nat_less_iff)
qed

lemma CreateDir_result:
  "\<lbrakk>p \<noteq> []; length p < 255\<rbrakk> \<Longrightarrow> \<exists>r ds'. CreateDir acc mk p ds = Inr (r, ds')"
  by (auto simp: CreateDir_def Let_def need_def)

definition board_ready :: "app_env \<Rightarrow> app_state \<Rightarrow> bool" where
  "board_ready env s \<longleftrightarrow> storage_for (csr_hw env) (csr s) (set control_labels) \<and> bram_ready (ram s)
     \<and> (\<forall>r < BRAM_PHY_SIZE. bram_stable (ram_hw env) (ram s) r)
     \<and> length (lfsr_stack env) = 2048 \<and> length (s_puiPrbsBuff s) = 64"

lemma period_bound:
  assumes "config_fits c"
  shows "0 \<le> uint (Power (word_of_int (SequenceLength c)) - 1) * ImpulseWidth c"
    "uint (Power (word_of_int (SequenceLength c)) - 1) * ImpulseWidth c \<le> 1000000 * (2 ^ 32 - 3)"
proof -
  define a where "a = (2::int) ^ nat (SequenceLength c) - 1"
  define w where "w = ImpulseWidth c"
  have b: "0 \<le> a" "a \<le> 2047" "0 \<le> w" "w \<le> 2147483647"
    using code_order [OF assms] assms by (auto simp: a_def w_def config_fits_def)
  then have "0 \<le> a * w" "a * w \<le> 2047 * 2147483647" using mult_mono [of a 2047 w 2147483647] by simp_all
  then show "0 \<le> uint (Power (word_of_int (SequenceLength c)) - 1) * ImpulseWidth c"
    "uint (Power (word_of_int (SequenceLength c)) - 1) * ImpulseWidth c \<le> 1000000 * (2 ^ 32 - 3)"
    unfolding code_order(4) [OF assms] a_def w_def by simp_all
qed

lemma Configuration_runs:
  assumes c: "read_config (ini_files env) = Inr c" "config_fits c"
    and d: "read_profile_string (ini_files env) ''Coinfiguration'' ''DataDirectory'' (s_SdDataDIR s)
      (int (length (s_SdDataDIR s))) None ''Configuration.ini'' = Inr (ok, dir)" "cstr dir \<noteq> []" "length (cstr dir) < 255"
    and b: "board_ready env s"
  shows "\<exists>s' t3 delta. Configuration env s = Inr (0, s') \<and> acq_period c = Inr t3 \<and> acq_delta t3 (now env) = Inr delta
    \<and> csr s' = run_script (csr_hw env) (control_script c t3 delta) (csr s)
    \<and> s_ulSampleLength s' = word_of_int (bytes_expected c) \<and> s_uiSavePC s' = word_of_int (SavePosition c) \<and> s_SdDataDIR s' = dir
    \<and> (\<forall>r < BRAM_PHY_SIZE. bram_peek (ram_hw env) (ram s') r =
        (if unat r < 2 ^ nat (SequenceLength c) div 32 then code_memory (lfsr_stack env) (nat (SequenceLength c)) ! unat r
         else bram_peek (ram_hw env) (ram s) r))"
proof -
  obtain cr ds where cd: "CreateDir (access_ok env) (mkdir_ok env) (cstr dir) (made s) = Inr (cr, ds)"
    using CreateDir_result [OF d(2,3)] by blast
  obtain t3 delta where t: "acq_period c = Inr t3" "acq_delta t3 (now env) = Inr delta"
    using schedule [OF period_bound(1) [OF c(2)] refl period_bound(2) [OF c(2)]] by blast
  note n = code_order [OF c(2)]
  obtain fd where r: "SetDataToRam (ram_hw env) (lfsr_stack env) (word_of_int (InitialValue c))
      (word_of_int (GenerationPolymerization c)) (word_of_int (SequenceLength c)) (s_puiPrbsBuff s) (ram s) =
      Inr (4, code_memory (lfsr_stack env) (nat (SequenceLength c)) @ drop (2 ^ nat (SequenceLength c) div 32) (s_puiPrbsBuff s), fd)"
    "\<forall>r < BRAM_PHY_SIZE. bram_peek (ram_hw env) fd r =
      (if unat r < 2 ^ nat (SequenceLength c) div 32 then code_memory (lfsr_stack env) (nat (SequenceLength c)) ! unat r
       else bram_peek (ram_hw env) (ram s) r)"
    using SetDataToRam_words [OF n(2,3), unfolded n(1)] b unfolding board_ready_def by metis
  have rate: "0 \<le> AdcSamplingRates c" "AdcSamplingRates c < 6" using c(2) by (auto simp: config_fits_def)
  show ?thesis
    using c(1) d(1) cd t r sample_rate_script [OF rate] sample_length_exact(1) [OF c(2)]
    by (simp add: Configuration_def Let_def split_def set_modes_def control_script_def set_point_def)
qed

end
