(* ===== verification/ConfigSpec.thy ===== *)
theory ConfigSpec
  imports ConfigProps
begin

text \<open>
  The configuration as a whole: from the lines of \<^verbatim>\<open>Configuration.ini\<close> to the registers, the code
  memory and the data directory, and what goes wrong outside the range of the tables and buffers.
\<close>

section \<open>Settings from the file\<close>

text \<open>A number of the list of lines as \<^verbatim>\<open>read_profile_int\<close> sees it: the first 31 characters, or 0.\<close>

definition setting :: "ini_line list \<Rightarrow> char list \<Rightarrow> int" where
  "setting ls key = (case look ''Coinfiguration'' key False ls of None \<Rightarrow> 0 | Some v \<Rightarrow> atoi (take 31 v))"

definition settings :: "ini_line list \<Rightarrow> config" where
  "settings ls =
     \<lparr>WorkMode = setting ls ''WorkMode'', SyncMode = setting ls ''SyncMode'',
      FullScalRange = setting ls ''FullScalRange'', LpfFilter = setting ls ''LpfFilter'',
      InputSource = setting ls ''InputSource'', ImpulseWidth = setting ls ''ImpulseWidth'',
      AdcSamplingRates = setting ls ''AdcSamplingRates'', SequenceLength = setting ls ''SequenceLength'',
      GenerationPolymerization = setting ls ''GenerationPolymerization'',
      InitialValue = setting ls ''InitialValue'', SavePosition = setting ls ''SavePosition''\<rparr>"

definition config_file :: "ini_line list \<Rightarrow> files \<Rightarrow> bool" where
  "config_file ls fs \<longleftrightarrow> doc_ok ls \<and> fs ''Configuration.ini'' = Some (render ls)
     \<and> CHR 0xFF \<notin> set (render ls) \<and> length (render ls) < MAX_FILE_SIZE"

lemma look_plain: "\<lbrakk>doc_ok ls; look sn key b ls = Some v\<rbrakk> \<Longrightarrow> plain v"
  by (induction sn key b ls rule: look.induct) (auto simp: doc_ok_def split: if_splits)

lemma file_value:
  assumes "config_file ls fs" "key \<noteq> []" "0 < n" "length buf = n"
  shows "read_profile_string fs ''Coinfiguration'' key buf (int n) None ''Configuration.ini'' =
    Inr (case look ''Coinfiguration'' key False ls of
           Some v \<Rightarrow> (1, strncpy (take (n - 1) v) n) | None \<Rightarrow> (0, buf))"
  using read_profile_string_doc [of ls fs "''Configuration.ini''" "''Coinfiguration''" key "int n" buf None] assms
  by (simp add: config_file_def split: option.split)

lemma cstr_strncpy: "\<lbrakk>NUL \<notin> set v; 0 < n\<rbrakk> \<Longrightarrow> cstr (strncpy (take (n - 1) v) n) = take (n - 1) v"
proof -
  assume v: "NUL \<notin> set v" and n: "0 < n"
  have "n - length (take (n - 1) v) = Suc (n - 1 - length (take (n - 1) v))" using n by auto
  then have "strncpy (take (n - 1) v) n = take (n - 1) v @ NUL # replicate (n - 1 - length (take (n - 1) v)) NUL"
    using n by (simp add: strncpy_def flip: replicate_Suc)
  moreover have "NUL \<notin> set (take (n - 1) v)" using v by (meson in_set_takeD)
  ultimately show ?thesis by (simp add: cstr_NUL)
qed

lemma look_no_NUL: "\<lbrakk>doc_ok ls; look sn key b ls = Some v\<rbrakk> \<Longrightarrow> NUL \<notin> set v"
  using look_plain by (fastforce simp: plain_def)

lemma cfg_int_setting:
  assumes "config_file ls fs" "key \<noteq> []"
  shows "cfg_int fs key = Inr (setting ls key)"
proof (cases "look ''Coinfiguration'' key False ls")
  case None
  with file_value [OF assms, of 32 "replicate 32 NUL"] show ?thesis
    by (simp add: cfg_int_def read_profile_int_def setting_def)
next
  case (Some v)
  have "NUL \<notin> set v" using look_no_NUL [OF _ Some] assms(1) by (simp add: config_file_def)
  with file_value [OF assms, of 32 "replicate 32 NUL"] Some cstr_strncpy [of v 32] show ?thesis
    by (simp add: cfg_int_def read_profile_int_def setting_def)
qed

lemma read_config_settings: "config_file ls fs \<Longrightarrow> read_config fs = Inr (settings ls)"
  by (simp add: read_config_def cfg_int_setting settings_def)

section \<open>Properties\<close>

lemma Configuration_from_file:
  assumes "config_file ls (ini_files env)" "config_fits (settings ls)" "board_ready env s"
    "look ''Coinfiguration'' ''DataDirectory'' False ls = Some dir" "dir \<noteq> []" "length (s_SdDataDIR s) = 64"
  shows "\<exists>s' t3 delta. Configuration env s = Inr (0, s')
    \<and> s_uiSavePC s' = word_of_int (setting ls ''SavePosition'') \<and> cstr (s_SdDataDIR s') = take 63 dir
    \<and> reads (csr_hw env) (csr s') control_labels =
      [take_bit 2 (set_point s_InputSouce (setting ls ''InputSource'')),
       take_bit 1 (set_point s_WorkMode (setting ls ''WorkMode'')),
       take_bit 1 (set_point s_SyncMode (setting ls ''SyncMode'')),
       take_bit 6 (set_point s_FullRange (setting ls ''FullScalRange'')),
       take_bit 2 (set_point s_Filter (setting ls ''LpfFilter'')), 0,
       Power (word_of_int (setting ls ''SequenceLength'')) - 1,
       word_of_int (setting ls ''ImpulseWidth'' * 40), take_bit 16 t3, take_bit 15 delta, 1]
    \<and> (2 ^ nat (setting ls ''SequenceLength'') - 1) * setting ls ''ImpulseWidth'' \<le> (uint t3 - 2) * 1000000
    \<and> (uint t3 - 2) * 1000000 < (2 ^ nat (setting ls ''SequenceLength'') - 1) * setting ls ''ImpulseWidth'' + 1000000
    \<and> (unat (now env) + unat delta) mod unat t3 = 0 \<and> 0 < delta \<and> delta \<le> t3
    \<and> uint (s_ulSampleLength s') = (2 ^ nat (setting ls ''SequenceLength'') - 1) * setting ls ''ImpulseWidth''
        * uint (s_SampleRateValue ! nat (setting ls ''AdcSamplingRates'')) div 1000000 * 4
    \<and> (\<forall>r < BRAM_PHY_SIZE. unat r < 2 ^ nat (setting ls ''SequenceLength'') div 32 \<longrightarrow>
        bram_peek (ram_hw env) (ram s') r = code_memory (lfsr_stack env) (nat (setting ls ''SequenceLength'')) ! unat r)"
proof -
  have f: "read_profile_string (ini_files env) ''Coinfiguration'' ''DataDirectory'' (s_SdDataDIR s)
      (int (length (s_SdDataDIR s))) None ''Configuration.ini'' = Inr (1, strncpy (take 63 dir) 64)"
    using file_value [OF assms(1), of "''DataDirectory''" 64 "s_SdDataDIR s"] assms(4,6) by simp
  have c: "cstr (strncpy (take 63 dir) 64) = take 63 dir"
    using cstr_strncpy [of dir 64] look_no_NUL [OF _ assms(4)] assms(1) by (simp add: config_file_def)
  have d: "cstr (strncpy (take 63 dir) 64) \<noteq> []" "length (cstr (strncpy (take 63 dir) 64)) < 255"
    using assms(5) by (auto simp: c)
  obtain s' t3 delta where r: "Configuration env s = Inr (0, s')" "acq_period (settings ls) = Inr t3"
    "acq_delta t3 (now env) = Inr delta"
    "csr s' = run_script (csr_hw env) (control_script (settings ls) t3 delta) (csr s)"
    "s_ulSampleLength s' = word_of_int (bytes_expected (settings ls))"
    "s_uiSavePC s' = word_of_int (SavePosition (settings ls))" "s_SdDataDIR s' = strncpy (take 63 dir) 64"
    "\<forall>r < BRAM_PHY_SIZE. bram_peek (ram_hw env) (ram s') r =
        (if unat r < 2 ^ nat (SequenceLength (settings ls)) div 32
         then code_memory (lfsr_stack env) (nat (SequenceLength (settings ls))) ! unat r
         else bram_peek (ram_hw env) (ram s) r)"
    using Configuration_runs [OF read_config_settings [OF assms(1)] assms(2) f d assms(3)] by blast
  have st: "storage_for (csr_hw env) (csr s) (set control_labels)" using assms(3) by (simp add: board_ready_def)
  note regs = control_script_reads [OF st, of "settings ls" t3 delta]
  have len: "uint (s_ulSampleLength s') = bytes_expected (settings ls)"
    using sample_length_exact(2,3) [OF assms(2)] unfolding r(5) by (rule u64_exact)
  have tab: "SequenceLength (settings ls) = setting ls ''SequenceLength''"
    "ImpulseWidth (settings ls) = setting ls ''ImpulseWidth''" by (simp_all add: settings_def)
  from schedule [OF period_bound(1) [OF assms(2)] refl period_bound(2) [OF assms(2)], of "now env"] r(2,3)
  have times: "(2 ^ nat (setting ls ''SequenceLength'') - 1) * setting ls ''ImpulseWidth'' \<le> (uint t3 - 2) * 1000000"
    "(uint t3 - 2) * 1000000 < (2 ^ nat (setting ls ''SequenceLength'') - 1) * setting ls ''ImpulseWidth'' + 1000000"
    "(unat (now env) + unat delta) mod unat t3 = 0" "0 < delta" "delta \<le> t3"
    by (simp_all add: code_order(4) [OF assms(2), unfolded tab] tab)
  show ?thesis
    using r(1) regs r(4) times len r(6,7,8) c by (intro exI conjI) (auto simp: settings_def bytes_expected_def)
qed

text \<open>
  C2. From the file to the board: for any well-formed configuration file whose code order is 5 to
  11, whose sample rate index is known and which names a directory, \<^verbatim>\<open>Configuration\<close> succeeds. Every
  control register then reads as the setting of the file, translated by the tables and cut to the
  width of its field (the pulse width times 40 as the code clock); the acquisition period is the
  duration of the code in seconds, rounded up, plus 2; the first period starts at a multiple of the
  period; the number of bytes to deliver is duration times sample rate times 4; and the code memory
  holds the code words, which are 0 up to one stray bit.
\<close>

theorem Configuration_programs_board:
  assumes "config_file ls (ini_files env)" "config_fits (settings ls)" "board_ready env s"
    "look ''Coinfiguration'' ''DataDirectory'' False ls = Some dir" "dir \<noteq> []" "length (s_SdDataDIR s) = 64"
  shows "\<exists>s' t3 delta. Configuration env s = Inr (0, s')
    \<and> reads (csr_hw env) (csr s') control_labels =
      [take_bit 2 (set_point s_InputSouce (setting ls ''InputSource'')),
       take_bit 1 (set_point s_WorkMode (setting ls ''WorkMode'')),
       take_bit 1 (set_point s_SyncMode (setting ls ''SyncMode'')),
       take_bit 6 (set_point s_FullRange (setting ls ''FullScalRange'')),
       take_bit 2 (set_point s_Filter (setting ls ''LpfFilter'')), 0,
       Power (word_of_int (setting ls ''SequenceLength'')) - 1,
       word_of_int (setting ls ''ImpulseWidth'' * 40), take_bit 16 t3, take_bit 15 delta, 1]
    \<and> (2 ^ nat (setting ls ''SequenceLength'') - 1) * setting ls ''ImpulseWidth'' \<le> (uint t3 - 2) * 1000000
    \<and> (uint t3 - 2) * 1000000 < (2 ^ nat (setting ls ''SequenceLength'') - 1) * setting ls ''ImpulseWidth'' + 1000000
    \<and> (unat (now env) + unat delta) mod unat t3 = 0 \<and> 0 < delta \<and> delta \<le> t3
    \<and> uint (s_ulSampleLength s') = (2 ^ nat (setting ls ''SequenceLength'') - 1) * setting ls ''ImpulseWidth''
        * uint (s_SampleRateValue ! nat (setting ls ''AdcSamplingRates'')) div 1000000 * 4
    \<and> (\<forall>r < BRAM_PHY_SIZE. unat r < 2 ^ nat (setting ls ''SequenceLength'') div 32 \<longrightarrow>
        bram_peek (ram_hw env) (ram s') r = code_memory (lfsr_stack env) (nat (setting ls ''SequenceLength'')) ! unat r)"
  by (insert Configuration_from_file [OF assms], elim exE conjE, intro exI conjI, assumption+)

text \<open>A board with storage registers, the state of a fresh process, and a configuration file, for witnesses.\<close>

definition sample_ini :: "ini_line list" where
  "sample_ini = [Header ''Coinfiguration'', Pair ''SequenceLength'' ''7'', Pair ''AdcSamplingRates'' ''1'',
     Pair ''ImpulseWidth'' ''50000'', Pair ''SyncMode'' ''1'', Pair ''DataDirectory'' ''DATA'']"

definition sample_app_env :: app_env where
  "sample_app_env = \<lparr>csr_hw = bank_hw (\<lambda>_. 0), ram_hw = bank_hw (\<lambda>_. 0), ini_files = (\<lambda>_. Some (render sample_ini)),
     access_ok = (\<lambda>ds p. p \<in> set ds), mkdir_ok = (\<lambda>ds p. True), fopen_ok = (\<lambda>p. True),
     lfsr_stack = replicate 2048 1, now = 1000, gps_info = zero_data\<rparr>"

lemma sample_board_ready: "board_ready sample_app_env sample_app"
proof -
  have "set control_labels \<subseteq> set csr_labels" by (simp add: control_labels_def csr_labels_def)
  then show ?thesis
    by (simp add: board_ready_def storage_for_def sample_app_env_def sample_app_def sample_csr_ready axi_csr_stable_def
        storage_at_bank_hw bram_ready_def sample_bram_def BRAM_PHY_SIZE_def bram_stable_def)
qed

lemma sample_ini_file: "config_file sample_ini (ini_files sample_app_env)"
  by (simp add: config_file_def sample_ini_def sample_app_env_def doc_ok_def ini_char_defs isspace_def MAX_FILE_SIZE_def)

lemma sample_settings: "setting sample_ini ''SequenceLength'' = 7" "setting sample_ini ''AdcSamplingRates'' = 1"
  "setting sample_ini ''ImpulseWidth'' = 50000" "setting sample_ini ''SyncMode'' = 1" "setting sample_ini ''WorkMode'' = 0"
  "look ''Coinfiguration'' ''DataDirectory'' False sample_ini = Some ''DATA''"
  by (simp_all add: sample_ini_def setting_def atoi_def digits_val_def isspace_def isdigit_def digit_val_def saturate32_def)

lemma sample_fits: "config_fits (settings sample_ini)"
  by (simp add: config_fits_def settings_def sample_settings)

theorem Configuration_programs_board_witness:
  "\<exists>s'. Configuration sample_app_env sample_app = Inr (0, s') \<and> uint (s_ulSampleLength s') = 3968748"
proof -
  have "length (s_SdDataDIR sample_app) = 64" by (simp add: sample_app_def)
  from Configuration_programs_board [OF sample_ini_file sample_fits sample_board_ready sample_settings(6) _ this]
  show ?thesis by (auto simp: sample_settings s_SampleRateValue_def)
qed

text \<open>
  The code memory is written past the end of the code buffer: for the orders 12 to 30 the code
  generator stores nothing, but the copy loop runs over \<open>2 ^ n div 32\<close> words, more than the 64 of
  the buffer.
\<close>

theorem SetDataToRam_overreads:
  assumes "12 \<le> n" "n \<le> 30" "length buf = 64"
  shows "SetDataToRam hw stack seed poly n buf fd = Inl OutOfBounds"
proof -
  define m where "m = unat n"
  have m: "12 \<le> m" "m \<le> 30" using assms(1,2) by (simp_all add: m_def word_le_nat_alt)
  have u: "unat (Power n) = 2 ^ m"
    unfolding Power_eq m_def [symmetric] by (rule unat_two_power) (use m in simp)
  have "(2::nat) ^ m \<le> 2 ^ 30" using m by (intro power_increasing) auto
  then have "Power n < 2 ^ 31" using u by (simp add: word_less_nat_alt)
  from sint_below [OF this] u have s: "sint (Power n) = 2 ^ m" by simp
  have "(2::nat) ^ 12 \<le> 2 ^ m" using m by (intro power_increasing) auto
  then have "64 < (2::nat) ^ m div 32" by simp
  then have "set_ram hw buf 0 (2 ^ m div 32) 0 fd = Inl OutOfBounds"
    using set_ram_overruns [of buf "2 ^ m div 32" 0 hw 0 fd] assms(3) by simp
  moreover have "GetLfsrUint stack seed poly buf n = Inr buf"
  proof -
    have "11 < n" using m by (simp add: word_less_nat_alt m_def)
    then show ?thesis by (simp add: GetLfsrUint_def)
  qed
  ultimately show ?thesis using s by (simp add: SetDataToRam_def nat_div_distrib nat_power_eq)
qed

theorem SetDataToRam_overreads_witness:
  "SetDataToRam (bank_hw (\<lambda>_. 0)) [] 1 1 12 (replicate 64 0) sample_bram = Inl OutOfBounds"
  by (rule SetDataToRam_overreads) simp_all

text \<open>
  C31. \<^verbatim>\<open>CreateDir\<close> works like \<^verbatim>\<open>mkdir -p\<close>: on a file system where a new directory is accessible and
  stays so, it makes directories only on the way to the path, parents first, and when it returns 1
  the path and all its parents are accessible; otherwise it returns 0.
\<close>

theorem CreateDir_makes_path:
  assumes "\<And>ds p. mk ds p \<Longrightarrow> acc (ds @ [p]) p" "\<And>ds p q. acc ds p \<Longrightarrow> acc (ds @ [q]) p"
    "path \<noteq> []" "CreateDir acc mk path ds = Inr (r, ds')"
  shows "r \<in> {0, 1} \<and> (\<exists>new. ds' = ds @ new \<and> sorted_wrt strict_prefix new)
    \<and> (r = 1 \<longrightarrow> (\<forall>p q. p \<noteq> [] \<longrightarrow> path = p @ CHR ''/'' # q \<longrightarrow> acc ds' p)
        \<and> (last path \<noteq> CHR ''/'' \<longrightarrow> acc ds' path))"
proof -
  define d where "d = (if last path \<noteq> CHR ''/'' then path @ ''/'' else path)"
  have m: "make_dirs acc mk (dir_prefixes d) ds = (r, ds')"
    using assms(3,4) by (auto simp: CreateDir_def d_def need_def Let_def split: if_splits)
  note r = make_dirs_makes [OF assms(1,2) m]
  then obtain new where new: "ds' = ds @ new" "subseq new (dir_prefixes d)" by blast
  have "sorted_wrt strict_prefix new"
    using new(2) dir_prefixes_sorted by (rule sorted_wrt_subseq)
  moreover have "p \<in> set (dir_prefixes d)" if "p \<noteq> []" "path = p @ CHR ''/'' # q" for p q
    using that by (auto simp: dir_prefixes_mem d_def)
  moreover have "path \<in> set (dir_prefixes d)" if "last path \<noteq> CHR ''/''"
    using that assms(3) by (auto simp: dir_prefixes_mem d_def)
  ultimately show ?thesis using r new(1) by blast
qed

theorem CreateDir_makes_path_witness:
  "\<exists>ds'. CreateDir (\<lambda>ds p. p \<in> set ds) (\<lambda>_ _. True) ''/mnt/a'' [''/mnt''] = Inr (1, ds') \<and> ''/mnt/a'' \<in> set ds'"
proof -
  have c: "CreateDir (\<lambda>ds p. p \<in> set ds) (\<lambda>_ _. True) ''/mnt/a'' [''/mnt''] = Inr (1, [''/mnt'', ''/mnt/a''])"
    by (simp add: CreateDir_def dir_prefixes_def)
  from CreateDir_makes_path [OF _ _ _ c] c show ?thesis by auto
qed

text \<open>
  A configuration file without a data directory, read by a fresh process, leaves the directory
  name empty, and \<^verbatim>\<open>CreateDir\<close> then looks at the byte before its buffer.
\<close>

theorem Configuration_needs_directory:
  assumes "config_file ls (ini_files env)" "look ''Coinfiguration'' ''DataDirectory'' False ls = None"
    "s_SdDataDIR s = replicate 64 NUL"
  shows "Configuration env s = Inl OutOfBounds"
proof -
  have "read_profile_string (ini_files env) ''Coinfiguration'' ''DataDirectory'' (s_SdDataDIR s)
      (int (length (s_SdDataDIR s))) None ''Configuration.ini'' = Inr (0, replicate 64 NUL)"
    using file_value [OF assms(1), of "''DataDirectory''" 64 "s_SdDataDIR s"] assms(2,3) by simp
  moreover have "cstr (replicate 64 NUL) = []" by (simp add: cstr_def)
  ultimately show ?thesis
    using read_config_settings [OF assms(1)] by (simp add: Configuration_def CreateDir_def need_def)
qed

theorem Configuration_needs_directory_witness:
  "Configuration (sample_app_env\<lparr>ini_files := (\<lambda>_. Some (render [Header ''Coinfiguration'']))\<rparr>) sample_app = Inl OutOfBounds"
  by (rule Configuration_needs_directory [of "[Header ''Coinfiguration'']"])
     (simp_all add: config_file_def doc_ok_def ini_char_defs isspace_def MAX_FILE_SIZE_def sample_app_def)

end
