(* ===== verification/AppDeliver.thy ===== *)
theory AppDeliver
  imports AppState "HOL-Library.Signed_Division"
begin

text \<open>
  Delivery of the samples in \<^verbatim>\<open>application/app.c\<close>: \<^verbatim>\<open>DeliverData_s\<close>, which runs once per data
  interrupt and sends or stores one of the two mapped windows, and the older polling versions
  \<^verbatim>\<open>DeliverData\<close> and \<^verbatim>\<open>UdpDeliverData\<close>. What \<^verbatim>\<open>send\<close> and \<^verbatim>\<open>fwrite\<close> are asked to transfer is an
  effect; their results only go into \<^verbatim>\<open>m_SendLen\<close>, which is printed and not used otherwise.
\<close>

section \<open>Delivery on an interrupt\<close>

text \<open>
  \<^verbatim>\<open>fwrite(s_puiAddr, n, 1, s_pSdHPFd)\<close>, with the null stream when no file is open, and the three
  ways to send.
\<close>

definition fwrite_sd :: "u64 \<Rightarrow> app_state \<Rightarrow> app_state res" where
  "fwrite_sd n s =
     (case s_pSdHPFd s of None \<Rightarrow> Inl NullPointer
      | Some path \<Rightarrow> Inr (effect [FileWrite path (s_puiAddr s) (ucast n)] s))"

definition deliver_window :: "app_state \<Rightarrow> app_state res" where
  "deliver_window s =
     (let left = s_ulSampleLength s - s_ulTotalLen s in
      if left \<le> PACKAGE_SIZE then
        andThen (if s_uiSavePC s = 0 then fwrite_sd left s
                 else Inr (effect [SendData (s_puiAddr s) 0 (ucast left)] s))
          (\<lambda>s. Inr (s\<lparr>s_ucDeliveredDone := 1, s_ucIsReady := FALSE\<rparr>))
      else if left \<le> BRAM_SIZE then
        andThen (if s_uiSavePC s = 0 then fwrite_sd left s
                 else Inr (effect [SendData (s_puiAddr s) 0 (ucast PACKAGE_SIZE),
                                   SendData (s_puiAddr s) (ucast PACKAGE_SIZE) (ucast (left - PACKAGE_SIZE))] s))
          (\<lambda>s. Inr (s\<lparr>s_ucDeliveredDone := 1, s_ucIsReady := FALSE\<rparr>))
      else
        andThen (if s_uiSavePC s = 0 then fwrite_sd BRAM_SIZE s
                 else Inr (effect (map (\<lambda>i. SendData (s_puiAddr s) (i * ucast PACKAGE_SIZE) (ucast PACKAGE_SIZE)) [0, 1]) s))
          (\<lambda>s. Inr (s\<lparr>s_ulTotalLen := s_ulTotalLen s + BRAM_SIZE\<rparr>)))"

definition DeliverData_s :: "int \<Rightarrow> app_state \<Rightarrow> app_state res" where
  "DeliverData_s iRet s =
     (if iRet = 1 \<and> s_ucIsReady s = TRUE then
        let s = s\<lparr>s_uiFlag := s_uiFlag s + 1\<rparr>;
            s = (if s_uiFlag s mod 2 = 1 then s\<lparr>s_puiAddr := s_puiAddr_A s\<rparr> else s\<lparr>s_puiAddr := s_puiAddr_B s\<rparr>)
        in deliver_window s
      else Inr s)"

section \<open>The older versions\<close>

text \<open>
  The polling loop: \<open>CSR_PROG_FULL\<close> is read until bit 0 is set. It may never be, so the loop has a
  number of rounds it may take; \<open>None\<close> means that it is still polling.
\<close>

fun poll_ready :: "hardware \<Rightarrow> nat \<Rightarrow> axi_csr_file \<Rightarrow> axi_csr_file option" where
  "poll_ready hw 0 fd = None"
| "poll_ready hw (Suc k) fd =
     (let (regValue, fd) = RegRead (axi_csr_fops hw) fd CSR_PROG_FULL;
          uiReady = regValue AND 0x1
      in if uiReady = 1 then Some fd else poll_ready hw k fd)"

text \<open>
  \<^verbatim>\<open>GetAverageUnit\<close> checks that the words count up from where the last call stopped and returns 0.
  The result pairs the words reported with the new \<^verbatim>\<open>s_cnt\<close>.
\<close>

fun count_check :: "u32 \<Rightarrow> u32 list \<Rightarrow> (u32 \<times> u32) list \<times> u32" where
  "count_check cnt [] = ([], cnt)"
| "count_check cnt (d # ds) =
     (let cnt = cnt + 1 in
      if cnt \<noteq> d then (let (out, c) = count_check d ds in ((cnt, d) # out, c)) else count_check cnt ds)"

definition GetAverageUnit :: "u32 list \<Rightarrow> u32 \<Rightarrow> app_state \<Rightarrow> ((u32 \<times> u32) list \<times> u32 \<times> app_state) res" where
  "GetAverageUnit Data len s =
     (let uiCount = len div 4 in
      need (unat uiCount \<le> length Data) OutOfBounds
        (let (out, cnt) = count_check (s_cnt s) (take (unat uiCount) Data) in Inr (out, 0, s\<lparr>s_cnt := cnt\<rparr>)))"

text \<open>\<^verbatim>\<open>long long\<close> sum and signed division; the quotient is cut to an \<^verbatim>\<open>int\<close>.\<close>

definition GetAverage :: "u32 list \<Rightarrow> u32 \<Rightarrow> u32 res" where
  "GetAverage Data len =
     (let uiCount = len div 4;
          llTotal = for_word 0 uiCount (\<lambda>i r. andThen r (\<lambda>t :: u64.
            need (unat i < length Data) OutOfBounds (Inr (t + scast (Data ! unat i))))) (Inr 0)
      in andThen llTotal (\<lambda>t.
           need (uiCount \<noteq> 0) DivideByZero (Inr (ucast (word_of_int (sint t sdiv sint (ucast uiCount :: u64)) :: u64)))))"

text \<open>
  \<open>nread\<close> and \<open>sent\<close> are the results of \<^verbatim>\<open>read\<close> and of the first \<^verbatim>\<open>sendto\<close>, \<open>data\<close> the words the stack
  buffer holds after the read.
\<close>

definition UdpDeliverData ::
  "hardware \<Rightarrow> nat \<Rightarrow> int \<Rightarrow> u32 list \<Rightarrow> int \<Rightarrow> app_state \<Rightarrow> app_state option res" where
  "UdpDeliverData hw fuel nread data sent s =
     (case poll_ready hw fuel (csr s) of
        None \<Rightarrow> Inr None
      | Some fd \<Rightarrow>
          let s = s\<lparr>csr := fd, s_tick := s_tick s + 1\<rparr> in
          andThen (GetAverageUnit data (ucast BRAM_SIZE) s) (\<lambda>(_, _, s).
            Inr (Some (if 0 < nread
              then effect (SendTo DataBuff 0 32768 # (if 0 < sent then [SendTo DataBuff 32768 32768] else [])) s
              else s))))"

definition polled_window :: "app_state \<Rightarrow> app_state" where
  "polled_window s =
     (let left = s_ulSampleLength s - m_ulTotalLen s in
      if left \<le> PACKAGE_SIZE then
        (effect [SendData DataBuff 0 (ucast left)] s)
          \<lparr>s_ucDeliveredDone := 1, m_ulTotalLen := 0, s_ucIsReady := FALSE\<rparr>
      else if left \<le> BRAM_SIZE then
        (effect [SendData DataBuff 0 (ucast PACKAGE_SIZE),
                 SendData DataBuff (ucast PACKAGE_SIZE) (ucast (left - PACKAGE_SIZE))] s)
          \<lparr>s_ucDeliveredDone := 1, m_ulTotalLen := 0, s_ucIsReady := FALSE\<rparr>
      else
        (effect (map (\<lambda>i. SendData DataBuff (i * ucast PACKAGE_SIZE) (ucast PACKAGE_SIZE)) [0, 1]) s)
          \<lparr>m_ulTotalLen := m_ulTotalLen s + BRAM_SIZE\<rparr>)"

definition DeliverData :: "hardware \<Rightarrow> nat \<Rightarrow> app_state \<Rightarrow> app_state option" where
  "DeliverData hw fuel s =
     map_option (\<lambda>fd. polled_window (s\<lparr>csr := fd, s_tick := s_tick s + 1\<rparr>)) (poll_ready hw fuel (csr s))"

section \<open>What is delivered\<close>

text \<open>The bytes that the effects transfer, as buffer and offset, in order.\<close>

fun bytes_of :: "app_effect \<Rightarrow> (block \<times> nat) list" where
  "bytes_of (SendData b off len) = map (\<lambda>i. (b, unat off + i)) [0..<unat len]"
| "bytes_of (FileWrite p b len) = map (Pair b) [0..<unat len]"
| "bytes_of _ = []"

definition stream_of :: "app_effect list \<Rightarrow> (block \<times> nat) list" where
  "stream_of es = concat (map bytes_of es)"

lemma stream_of_simps [simp]: "stream_of [] = []" "stream_of (e # es) = bytes_of e @ stream_of es"
  "stream_of (xs @ ys) = stream_of xs @ stream_of ys"
  by (simp_all add: stream_of_def)

text \<open>What the programmable logic offers: the windows in turn, each of them 65536 bytes.\<close>

definition window :: "app_state \<Rightarrow> nat \<Rightarrow> block" where
  "window s i = (if even (s_uiFlag s + of_nat i) then s_puiAddr_A s else s_puiAddr_B s)"

fun windows :: "app_state \<Rightarrow> nat \<Rightarrow> (block \<times> nat) list" where
  "windows s 0 = []"
| "windows s (Suc n) = windows s n @ map (Pair (window s n)) [0..<65536]"

fun deliver_n :: "nat \<Rightarrow> app_state \<Rightarrow> app_state res" where
  "deliver_n 0 s = Inr s"
| "deliver_n (Suc n) s = andThen (deliver_n n s) (DeliverData_s 1)"

text \<open>The sink of the data is there: a socket, or the open file.\<close>

definition sink_ok :: "app_state \<Rightarrow> bool" where
  "sink_ok s \<longleftrightarrow> s_uiSavePC s \<noteq> 0 \<or> s_pSdHPFd s \<noteq> None"

section \<open>Words and spans\<close>

text \<open>Words.\<close>

lemma window_parity: "(w + 1) mod 2 = 1 \<longleftrightarrow> even w" for w :: u32
  by (simp add: mod_2_eq_odd)

lemma even_flag: "even (of_nat j :: u32) \<longleftrightarrow> even j"
  by (simp add: even_iff_mod_2_eq_zero [of j] flip: bit_0)

lemma unat_of_nat_upto: "k \<le> unat w \<Longrightarrow> unat (of_nat k :: 'a::len word) = k" for w :: "'a::len word"
  using unat_of_nat_below [of k w] by (cases "k = unat w") auto

lemma package_numbers: "unat PACKAGE_SIZE = 32768" "unat BRAM_SIZE = 65536" "(ucast PACKAGE_SIZE :: u32) = 32768"
  "(ucast BRAM_SIZE :: u32) = 65536"
  by (simp_all add: PACKAGE_SIZE_def BRAM_SIZE_def)

lemma map_upt_shift: "map (\<lambda>i. (b, n + i)) [0..<m] = map (Pair b) [n..<n + m]"
  by (induction m) auto

lemma map_pair_split: "map (Pair b) [0..<n] @ map (Pair b) [n..<n + m] = map (Pair b) [0..<n + m]"
  unfolding map_append [symmetric] using upt_add_eq_append [of 0 n m] by simp

lemma ucast_small: "unat w \<le> 65536 \<Longrightarrow> unat (ucast w :: u32) = unat w" for w :: u64
  by (simp add: unsigned_ucast_eq take_bit_nat_eq_self)

lemma fwrite_sd_stream:
  assumes "s_pSdHPFd s \<noteq> None" "unat n \<le> 65536"
  shows "\<exists>e. fwrite_sd n s = Inr (effect [e] s) \<and> bytes_of e = map (Pair (s_puiAddr s)) [0..<unat n]"
  using assms by (auto simp: fwrite_sd_def ucast_small)

lemma deliver_idle: "\<not> (iRet = 1 \<and> s_ucIsReady s = TRUE) \<Longrightarrow> DeliverData_s iRet s = Inr s"
  by (auto simp: DeliverData_s_def)

text \<open>
  One interrupt while more than a window is left, and the last one. \<open>next_window\<close> is the window the
  interrupt announces.
\<close>

definition next_window :: "app_state \<Rightarrow> block" where
  "next_window s = (if even (s_uiFlag s) then s_puiAddr_A s else s_puiAddr_B s)"

definition same_setup :: "app_state \<Rightarrow> app_state \<Rightarrow> bool" where
  "same_setup s s' \<longleftrightarrow> s_puiAddr_A s' = s_puiAddr_A s \<and> s_puiAddr_B s' = s_puiAddr_B s
     \<and> s_ulSampleLength s' = s_ulSampleLength s \<and> s_uiSavePC s' = s_uiSavePC s \<and> s_pSdHPFd s' = s_pSdHPFd s"

definition announced :: "app_state \<Rightarrow> app_state" where
  "announced s = s\<lparr>s_uiFlag := s_uiFlag s + 1, s_puiAddr := next_window s\<rparr>"

lemma announced_simps [simp]:
  "s_puiAddr (announced s) = next_window s" "s_uiSavePC (announced s) = s_uiSavePC s"
  "s_pSdHPFd (announced s) = s_pSdHPFd s" "effects (announced s) = effects s"
  "s_ulTotalLen (announced s) = s_ulTotalLen s" "s_ucIsReady (announced s) = s_ucIsReady s"
  "s_uiFlag (announced s) = s_uiFlag s + 1" "same_setup s (announced s)" "s_ulSampleLength (announced s) = s_ulSampleLength s"
  "s_puiAddr_A (announced s) = s_puiAddr_A s" "s_puiAddr_B (announced s) = s_puiAddr_B s"
  by (simp_all add: announced_def same_setup_def)

text \<open>What an interrupt makes the code ask for, at most a window.\<close>

definition sends_of :: "u64 \<Rightarrow> block \<Rightarrow> app_effect list" where
  "sends_of left b =
     (if left \<le> PACKAGE_SIZE then [SendData b 0 (ucast left)]
      else [SendData b 0 (ucast PACKAGE_SIZE),
            SendData b (ucast PACKAGE_SIZE) (ucast (left - PACKAGE_SIZE))])"

definition span :: "u64 \<Rightarrow> app_state \<Rightarrow> app_state res" where
  "span left s = (if s_uiSavePC s = 0 then fwrite_sd left s else Inr (effect (sends_of left (s_puiAddr s)) s))"

lemma deliver_window_span:
  "deliver_window s =
    (let left = s_ulSampleLength s - s_ulTotalLen s in
     if left \<le> BRAM_SIZE then
       andThen (span left s) (\<lambda>s. Inr (s\<lparr>s_ucDeliveredDone := 1, s_ucIsReady := FALSE\<rparr>))
     else andThen (span BRAM_SIZE s) (\<lambda>s. Inr (s\<lparr>s_ulTotalLen := s_ulTotalLen s + BRAM_SIZE\<rparr>)))"
proof -
  have le: "l \<le> PACKAGE_SIZE \<Longrightarrow> l \<le> BRAM_SIZE" for l
    by (simp add: PACKAGE_SIZE_def BRAM_SIZE_def word_le_nat_alt)
  have w: "map (\<lambda>i. SendData b (i * ucast PACKAGE_SIZE) (ucast PACKAGE_SIZE)) [0, 1] = sends_of BRAM_SIZE b" for b
    by (simp add: sends_of_def PACKAGE_SIZE_def BRAM_SIZE_def)
  show ?thesis
    unfolding deliver_window_def w span_def using le by (simp add: Let_def sends_of_def)
qed

lemma DeliverData_s_ready: "s_ucIsReady s = TRUE \<Longrightarrow> DeliverData_s 1 s = deliver_window (announced s)"
  unfolding DeliverData_s_def announced_def next_window_def
  by (cases "even (s_uiFlag s)") (simp_all add: window_parity Let_def)

lemma sends_stream:
  assumes "unat left \<le> 65536"
  shows "stream_of (sends_of left b) = map (Pair b) [0..<unat left]"
proof (cases "left \<le> PACKAGE_SIZE")
  case True
  then show ?thesis using assms by (simp add: sends_of_def ucast_small map_upt_shift)
next
  case False
  then have d: "unat (left - PACKAGE_SIZE) = unat left - 32768" "32768 \<le> unat left"
    using package_numbers by (simp_all add: unat_sub word_le_nat_alt)
  then have "unat (ucast (left - PACKAGE_SIZE) :: u32) = unat left - 32768" using assms by (simp add: ucast_small)
  with False d map_pair_split [of b 32768 "unat left - 32768"] show ?thesis
    by (simp add: sends_of_def package_numbers map_upt_shift)
qed

lemma span_stream:
  assumes "sink_ok s" "unat left \<le> 65536"
  shows "\<exists>es. span left s = Inr (effect es s) \<and> stream_of es = map (Pair (s_puiAddr s)) [0..<unat left]"
proof (cases "s_uiSavePC s = 0")
  case True
  then have "s_pSdHPFd s \<noteq> None" using assms(1) by (auto simp: sink_ok_def)
  from fwrite_sd_stream [OF this assms(2)] True show ?thesis by (fastforce simp: span_def)
next
  case False
  then show ?thesis using sends_stream [OF assms(2)] by (auto simp: span_def)
qed

lemma deliver_more:
  assumes "s_ucIsReady s = TRUE" "sink_ok s" "BRAM_SIZE < s_ulSampleLength s - s_ulTotalLen s"
  shows "\<exists>s'. DeliverData_s 1 s = Inr s' \<and> s_ucIsReady s' = TRUE \<and> same_setup s s'
    \<and> s_uiFlag s' = s_uiFlag s + 1 \<and> s_ulTotalLen s' = s_ulTotalLen s + BRAM_SIZE
    \<and> stream_of (effects s') = stream_of (effects s) @ map (Pair (next_window s)) [0..<65536]"
proof -
  have u: "unat BRAM_SIZE \<le> 65536" by (simp add: package_numbers)
  have k: "sink_ok (announced s)" using assms(2) by (simp add: sink_ok_def)
  obtain es where es: "span BRAM_SIZE (announced s) = Inr (effect es (announced s))"
    "stream_of es = map (Pair (next_window s)) [0..<65536]"
    using span_stream [OF k u] by (auto simp: package_numbers)
  have "DeliverData_s 1 s = Inr ((effect es (announced s))\<lparr>s_ulTotalLen := s_ulTotalLen s + BRAM_SIZE\<rparr>)"
    using assms(3) es(1) by (simp add: DeliverData_s_ready [OF assms(1)] deliver_window_span Let_def not_le [symmetric])
  then show ?thesis using assms(1) es(2) by (simp add: same_setup_def)
qed

lemma deliver_last:
  assumes "s_ucIsReady s = TRUE" "sink_ok s" "s_ulSampleLength s - s_ulTotalLen s \<le> BRAM_SIZE"
  shows "\<exists>s'. DeliverData_s 1 s = Inr s' \<and> s_ucIsReady s' = FALSE \<and> s_ucDeliveredDone s' = 1 \<and> same_setup s s'
    \<and> s_uiFlag s' = s_uiFlag s + 1 \<and> s_ulTotalLen s' = s_ulTotalLen s
    \<and> stream_of (effects s') = stream_of (effects s)
        @ map (Pair (next_window s)) [0..<unat (s_ulSampleLength s - s_ulTotalLen s)]"
proof -
  define left where "left = s_ulSampleLength s - s_ulTotalLen s"
  have l: "unat left \<le> 65536" using assms(3) package_numbers by (simp add: left_def word_le_nat_alt)
  have k: "sink_ok (announced s)" using assms(2) by (simp add: sink_ok_def)
  obtain es where es: "span left (announced s) = Inr (effect es (announced s))"
    "stream_of es = map (Pair (next_window s)) [0..<unat left]"
    using span_stream [OF k l] by auto
  have "DeliverData_s 1 s = Inr ((effect es (announced s))\<lparr>s_ucDeliveredDone := 1, s_ucIsReady := FALSE\<rparr>)"
    using assms(3) es(1) by (simp add: DeliverData_s_ready [OF assms(1)] deliver_window_span Let_def left_def)
  then show ?thesis using es(2) by (simp add: same_setup_def left_def)
qed

section \<open>Runs of interrupts\<close>

lemma length_windows [simp]: "length (windows s n) = 65536 * n"
  by (induction n) auto

text \<open>As long as more than a window is left, the code goes on.\<close>

lemma deliver_n_goes_on:
  assumes "s_ucIsReady s = TRUE" "sink_ok s" "n = 0 \<or> 65536 * n < unat (s_ulSampleLength s - s_ulTotalLen s)"
  shows "\<exists>t. deliver_n n s = Inr t \<and> s_ucIsReady t = TRUE \<and> same_setup s t
    \<and> s_uiFlag t = s_uiFlag s + of_nat n \<and> s_ulTotalLen t = s_ulTotalLen s + of_nat (65536 * n)
    \<and> stream_of (effects t) = stream_of (effects s) @ windows s n"
  using assms(3)
proof (induction n)
  case 0
  then show ?case using assms(1) by (simp add: same_setup_def)
next
  case (Suc n)
  define left where "left = s_ulSampleLength s - s_ulTotalLen s"
  have lt: "65536 * n + 65536 < unat left" using Suc.prems by (simp add: left_def)
  with Suc.IH obtain t where t: "deliver_n n s = Inr t" "s_ucIsReady t = TRUE" "same_setup s t"
    "s_uiFlag t = s_uiFlag s + of_nat n" "s_ulTotalLen t = s_ulTotalLen s + of_nat (65536 * n)"
    "stream_of (effects t) = stream_of (effects s) @ windows s n"
    by (auto simp: left_def)
  have d: "s_ulSampleLength t - s_ulTotalLen t = left - of_nat (65536 * n)"
    using t(3,5) by (simp add: same_setup_def left_def)
  have "unat (of_nat (65536 * n) :: u64) = 65536 * n"
    using lt by (intro unat_of_nat_upto [of _ left]) simp
  then have "unat (left - of_nat (65536 * n)) = unat left - 65536 * n"
    using lt by (simp only: unat_sub word_le_nat_alt)
  then have "BRAM_SIZE < s_ulSampleLength t - s_ulTotalLen t"
    using lt package_numbers by (simp add: d word_less_nat_alt)
  moreover have "sink_ok t" using assms(2) t(3) by (simp add: sink_ok_def same_setup_def)
  ultimately obtain t' where t': "DeliverData_s 1 t = Inr t'" "s_ucIsReady t' = TRUE" "same_setup t t'"
    "s_uiFlag t' = s_uiFlag t + 1" "s_ulTotalLen t' = s_ulTotalLen t + BRAM_SIZE"
    "stream_of (effects t') = stream_of (effects t) @ map (Pair (next_window t)) [0..<65536]"
    using deliver_more [OF t(2)] by blast
  have "next_window t = window s n" using t(3,4) by (simp add: next_window_def window_def same_setup_def)
  with t t' show ?case by (simp add: same_setup_def BRAM_SIZE_def algebra_simps)
qed

lemma deliver_n_finishes:
  assumes "s_ucIsReady s = TRUE" "sink_ok s" "n = (unat (s_ulSampleLength s - s_ulTotalLen s) - 1) div 65536"
  shows "\<exists>t. deliver_n (Suc n) s = Inr t \<and> s_ucIsReady t = FALSE \<and> s_ucDeliveredDone t = 1
    \<and> stream_of (effects t) = stream_of (effects s)
        @ take (unat (s_ulSampleLength s - s_ulTotalLen s)) (windows s (Suc n))"
proof -
  define left where "left = s_ulSampleLength s - s_ulTotalLen s"
  have n: "n = 0 \<or> 65536 * n < unat left" "65536 * n \<le> unat left" "unat left \<le> 65536 * n + 65536"
    using assms(3) by (auto simp: left_def)
  obtain t where t: "deliver_n n s = Inr t" "s_ucIsReady t = TRUE" "same_setup s t"
    "s_uiFlag t = s_uiFlag s + of_nat n" "s_ulTotalLen t = s_ulTotalLen s + of_nat (65536 * n)"
    "stream_of (effects t) = stream_of (effects s) @ windows s n"
    using deliver_n_goes_on [OF assms(1,2)] n(1) unfolding left_def by blast
  have "unat (of_nat (65536 * n) :: u64) = 65536 * n"
    by (rule unat_of_nat_upto [OF n(2)])
  moreover have "s_ulSampleLength t - s_ulTotalLen t = left - of_nat (65536 * n)"
    using t(3,5) by (simp add: same_setup_def left_def)
  ultimately have d: "unat (s_ulSampleLength t - s_ulTotalLen t) = unat left - 65536 * n"
    using n(2) by (simp only: unat_sub word_le_nat_alt)
  then have "s_ulSampleLength t - s_ulTotalLen t \<le> BRAM_SIZE"
    using n(3) package_numbers by (simp add: word_le_nat_alt)
  moreover have "sink_ok t" using assms(2) t(3) by (simp add: sink_ok_def same_setup_def)
  ultimately obtain t' where t': "DeliverData_s 1 t = Inr t'" "s_ucIsReady t' = FALSE" "s_ucDeliveredDone t' = 1"
    "stream_of (effects t') = stream_of (effects t)
        @ map (Pair (next_window t)) [0..<unat (s_ulSampleLength t - s_ulTotalLen t)]"
    using deliver_last [OF t(2)] by blast
  have "next_window t = window s n" using t(3,4) by (simp add: next_window_def window_def same_setup_def)
  moreover have "take (unat left) (windows s (Suc n)) = windows s n @ map (Pair (window s n)) [0..<unat left - 65536 * n]"
    using n(2,3) by (simp add: take_map min_def)
  ultimately show ?thesis using t(1,6) t' d by (simp add: left_def)
qed

text \<open>Two runs that differ in the destination only.\<close>

definition twins :: "app_state \<Rightarrow> app_state \<Rightarrow> bool" where
  "twins t u \<longleftrightarrow> s_ucIsReady t = s_ucIsReady u \<and> s_uiFlag t = s_uiFlag u \<and> s_ulTotalLen t = s_ulTotalLen u
     \<and> s_ulSampleLength t = s_ulSampleLength u \<and> s_puiAddr_A t = s_puiAddr_A u \<and> s_puiAddr_B t = s_puiAddr_B u
     \<and> sink_ok t \<and> sink_ok u"

lemma twins_step:
  assumes "twins t u" "stream_of (effects t) = stream_of (effects u)"
  shows "\<exists>t' u'. DeliverData_s 1 t = Inr t' \<and> DeliverData_s 1 u = Inr u' \<and> twins t' u'
    \<and> stream_of (effects t') = stream_of (effects u')"
proof (cases "s_ucIsReady t = TRUE")
  case False
  with assms show ?thesis by (auto simp: deliver_idle twins_def)
next
  case True
  then have u: "s_ucIsReady u = TRUE" "sink_ok t" "sink_ok u" "next_window t = next_window u"
    "s_ulSampleLength t - s_ulTotalLen t = s_ulSampleLength u - s_ulTotalLen u"
    using assms(1) by (simp_all add: twins_def next_window_def)
  have k: "sink_ok t' = sink_ok t" if "same_setup t t'" for t t' using that by (simp add: sink_ok_def same_setup_def)
  show ?thesis
  proof (cases "BRAM_SIZE < s_ulSampleLength t - s_ulTotalLen t")
    case more: True
    obtain t' where t': "DeliverData_s 1 t = Inr t'" "s_ucIsReady t' = TRUE" "same_setup t t'"
      "s_uiFlag t' = s_uiFlag t + 1" "s_ulTotalLen t' = s_ulTotalLen t + BRAM_SIZE"
      "stream_of (effects t') = stream_of (effects t) @ map (Pair (next_window t)) [0..<65536]"
      using deliver_more [OF True u(2) more] by blast
    obtain u' where u': "DeliverData_s 1 u = Inr u'" "s_ucIsReady u' = TRUE" "same_setup u u'"
      "s_uiFlag u' = s_uiFlag u + 1" "s_ulTotalLen u' = s_ulTotalLen u + BRAM_SIZE"
      "stream_of (effects u') = stream_of (effects u) @ map (Pair (next_window u)) [0..<65536]"
      using deliver_more [OF u(1,3) more [unfolded u(5)]] by blast
    have "twins t' u'" using assms(1) t'(2-5) u'(2-5) k [OF t'(3)] k [OF u'(3)] by (simp add: twins_def same_setup_def)
    then show ?thesis using t'(1,6) u'(1,6) assms(2) u(4) by simp
  next
    case False
    then have last: "s_ulSampleLength t - s_ulTotalLen t \<le> BRAM_SIZE" by simp
    obtain t' where t': "DeliverData_s 1 t = Inr t'" "s_ucIsReady t' = FALSE" "same_setup t t'"
      "s_uiFlag t' = s_uiFlag t + 1" "s_ulTotalLen t' = s_ulTotalLen t"
      "stream_of (effects t') = stream_of (effects t) @ map (Pair (next_window t)) [0..<unat (s_ulSampleLength t - s_ulTotalLen t)]"
      using deliver_last [OF True u(2) last] by blast
    obtain u' where u': "DeliverData_s 1 u = Inr u'" "s_ucIsReady u' = FALSE" "same_setup u u'"
      "s_uiFlag u' = s_uiFlag u + 1" "s_ulTotalLen u' = s_ulTotalLen u"
      "stream_of (effects u') = stream_of (effects u) @ map (Pair (next_window u)) [0..<unat (s_ulSampleLength u - s_ulTotalLen u)]"
      using deliver_last [OF u(1,3) last [unfolded u(5)]] by blast
    have "twins t' u'" using assms(1) t'(2-5) u'(2-5) k [OF t'(3)] k [OF u'(3)] by (simp add: twins_def same_setup_def)
    then show ?thesis using t'(1,6) u'(1,6) assms(2) u(4,5) by simp
  qed
qed

section \<open>Polling\<close>

lemma prog_full_label: "REG_OFFSET CSR_PROG_FULL = 10" "REG_SHIFT CSR_PROG_FULL = 0" "REG_BITNUM CSR_PROG_FULL = 1"
  by (simp_all add: CSR_PROG_FULL_def REG_OFFSET_def REG_SHIFT_def REG_BITNUM_def)

lemma RegRead_prog_full:
  assumes "axi_csr_ready fd"
  shows "RegRead (axi_csr_fops hw) fd CSR_PROG_FULL =
    (reg_field CSR_PROG_FULL (hw (c_log fd) (axi_csr_addr fd 10)),
     fd\<lparr>c_f_pos := 10, c_log := c_log fd @ [IoRead (axi_csr_addr fd 10)]\<rparr>)"
  using assms
  by (simp add: RegRead_def prog_full_label axi_csr_fops_def axi_csr_io_defs reg_field_def Let_def)

lemma prog_full_bit: "reg_field CSR_PROG_FULL w AND 1 = 1 \<longleftrightarrow> bit w 0"
proof -
  have "bit (reg_field CSR_PROG_FULL w) 0 \<longleftrightarrow> bit w 0"
    by (simp add: reg_field_def prog_full_label bit_and_iff bit_GetRegMask)
  then show ?thesis by (simp add: and_one_eq bit_0 odd_iff_mod_2_eq_one)
qed

lemma poll_ready_iff:
  assumes "axi_csr_ready fd" "a = axi_csr_addr fd 10"
  shows "poll_ready hw k fd \<noteq> None \<longleftrightarrow> (\<exists>i<k. bit (hw (c_log fd @ replicate i (IoRead a)) a) 0)"
  using assms
proof (induction k arbitrary: fd)
  case (Suc k)
  define fd' where "fd' = fd\<lparr>c_f_pos := 10, c_log := c_log fd @ [IoRead a]\<rparr>"
  have r: "axi_csr_ready fd'" "a = axi_csr_addr fd' 10"
    using Suc.prems by (simp_all add: fd'_def axi_csr_ready_def axi_csr_addr_def)
  have l: "c_log fd' @ replicate i (IoRead a) = c_log fd @ replicate (Suc i) (IoRead a)" for i
    by (simp add: fd'_def)
  have p: "poll_ready hw (Suc k) fd = (if bit (hw (c_log fd) a) 0 then Some fd' else poll_ready hw k fd')"
    using Suc.prems(1) by (simp add: RegRead_prog_full prog_full_bit fd'_def Suc.prems(2))
  show ?case
  proof (cases "bit (hw (c_log fd) a) 0")
    case True
    then show ?thesis using p by (auto intro!: exI [of _ 0])
  next
    case False
    have "(\<exists>i<Suc k. bit (hw (c_log fd @ replicate i (IoRead a)) a) 0) \<longleftrightarrow>
        (\<exists>i<k. bit (hw (c_log fd @ replicate (Suc i) (IoRead a)) a) 0)"
      using False by (auto simp: less_Suc_eq_0_disj)
    with False p Suc.IH [OF r] show ?thesis by (simp only: l) simp
  qed
qed simp

section \<open>Properties\<close>

text \<open>
  C3. The samples are delivered completely and in order: an acquisition of \<open>L\<close> bytes that is ready
  and has a sink stays ready over the first \<open>(L - 1) div 65536\<close> data interrupts and is finished by the
  next one; by then the code has sent, or written to the file, exactly the first \<open>L\<close> bytes that the
  two windows held in turn, whatever the packets in which it did so.
\<close>

theorem DeliverData_s_delivers:
  assumes "s_ucIsReady s = TRUE" "sink_ok s" "s_ulTotalLen s = 0" "L = unat (s_ulSampleLength s)"
  shows "(\<forall>n \<le> (L - 1) div 65536. \<exists>t. deliver_n n s = Inr t \<and> s_ucIsReady t = TRUE)
    \<and> (\<exists>t. deliver_n (Suc ((L - 1) div 65536)) s = Inr t \<and> s_ucIsReady t = FALSE \<and> s_ucDeliveredDone t = 1
        \<and> stream_of (effects t) = stream_of (effects s) @ take L (windows s (Suc ((L - 1) div 65536))))"
proof -
  have L: "unat (s_ulSampleLength s - s_ulTotalLen s) = L" using assms(3,4) by simp
  have "n = 0 \<or> 65536 * n < unat (s_ulSampleLength s - s_ulTotalLen s)" if "n \<le> (L - 1) div 65536" for n
    using that unfolding L by auto
  then show ?thesis
    using deliver_n_goes_on [OF assms(1,2)] deliver_n_finishes [OF assms(1,2) refl] unfolding L by blast
qed

theorem DeliverData_s_delivers_witness:
  "\<exists>t. deliver_n 2 (sample_app\<lparr>s_ucIsReady := TRUE, s_uiSavePC := 1, s_ulSampleLength := 98304\<rparr>) = Inr t
    \<and> s_ucIsReady t = FALSE \<and> stream_of (effects t) =
      take 98304 (windows (sample_app\<lparr>s_ucIsReady := TRUE, s_uiSavePC := 1, s_ulSampleLength := 98304\<rparr>) 2)"
proof -
  let ?s = "sample_app\<lparr>s_ucIsReady := TRUE, s_uiSavePC := 1, s_ulSampleLength := 98304\<rparr>"
  have "s_ucIsReady ?s = TRUE" "sink_ok ?s" "s_ulTotalLen ?s = 0" "98304 = unat (s_ulSampleLength ?s)"
    by (simp_all add: sink_ok_def sample_app_def)
  moreover have "stream_of (effects ?s) = []" by (simp add: sample_app_def)
  moreover have "Suc ((98304 - 1) div 65536) = 2" by simp
  ultimately show ?thesis using DeliverData_s_delivers [of ?s 98304] by (metis append_Nil)
qed

text \<open>
  The two destinations are equivalent: after any number of data interrupts, an acquisition
  that is saved to the card has transferred the same bytes as one that is sent to the PC.
\<close>

theorem DeliverData_s_same_bytes:
  assumes "s_pSdHPFd s = Some path"
  shows "\<exists>t u. deliver_n n (s\<lparr>s_uiSavePC := 0\<rparr>) = Inr t \<and> deliver_n n (s\<lparr>s_uiSavePC := 1\<rparr>) = Inr u
    \<and> s_ucIsReady t = s_ucIsReady u \<and> stream_of (effects t) = stream_of (effects u)"
proof -
  have "\<exists>t u. deliver_n n (s\<lparr>s_uiSavePC := 0\<rparr>) = Inr t \<and> deliver_n n (s\<lparr>s_uiSavePC := 1\<rparr>) = Inr u
    \<and> twins t u \<and> stream_of (effects t) = stream_of (effects u)"
  proof (induction n)
    case 0
    show ?case using assms by (simp add: twins_def sink_ok_def)
  next
    case (Suc n)
    then obtain t u where t: "deliver_n n (s\<lparr>s_uiSavePC := 0\<rparr>) = Inr t" "deliver_n n (s\<lparr>s_uiSavePC := 1\<rparr>) = Inr u"
      "twins t u" "stream_of (effects t) = stream_of (effects u)" by blast
    with twins_step [OF t(3,4)] show ?case by auto
  qed
  then show ?thesis by (fastforce simp: twins_def)
qed

theorem DeliverData_s_same_bytes_witness:
  "\<exists>t u. deliver_n 5 (sample_app\<lparr>s_pSdHPFd := Some ''f'', s_ucIsReady := TRUE, s_ulSampleLength := 98304, s_uiSavePC := 0\<rparr>) = Inr t
    \<and> deliver_n 5 (sample_app\<lparr>s_pSdHPFd := Some ''f'', s_ucIsReady := TRUE, s_ulSampleLength := 98304, s_uiSavePC := 1\<rparr>) = Inr u
    \<and> stream_of (effects t) = stream_of (effects u)"
proof -
  let ?s = "sample_app\<lparr>s_pSdHPFd := Some ''f'', s_ucIsReady := TRUE, s_ulSampleLength := 98304\<rparr>"
  have "s_pSdHPFd ?s = Some ''f''" by simp
  from DeliverData_s_same_bytes [OF this, of 5] show ?thesis by blast
qed

text \<open>
  A new configuration with fewer samples than have already been delivered makes the count of
  bytes left wrap around: the acquisition is still ready after every one of the next \<open>2 ^ 46\<close>
  interrupts, and all the windows they announce are delivered.
\<close>

theorem DeliverData_s_underflow:
  assumes "s_ucIsReady s = TRUE" "sink_ok s" "s_ulSampleLength s < s_ulTotalLen s" "s_ulTotalLen s < 2 ^ 63" "n \<le> 2 ^ 46"
  shows "\<exists>t. deliver_n n s = Inr t \<and> s_ucIsReady t = TRUE
    \<and> stream_of (effects t) = stream_of (effects s) @ windows s n"
proof -
  have "unat (s_ulSampleLength s - s_ulTotalLen s) = 2 ^ 64 + unat (s_ulSampleLength s) - unat (s_ulTotalLen s)"
    using assms(3) by (subst unat_sub_if') (auto simp: word_less_nat_alt not_le)
  moreover have "unat (s_ulTotalLen s) < 2 ^ 63" using assms(4) by (simp add: word_less_nat_alt)
  ultimately have "65536 * n < unat (s_ulSampleLength s - s_ulTotalLen s)" using assms(5) by simp
  with deliver_n_goes_on [OF assms(1,2), of n] show ?thesis by blast
qed

theorem DeliverData_s_underflow_witness:
  "\<exists>t. deliver_n 1000 (sample_app\<lparr>s_ucIsReady := TRUE, s_uiSavePC := 1, s_ulSampleLength := 4000, s_ulTotalLen := 65536\<rparr>) = Inr t
    \<and> s_ucIsReady t = TRUE"
  using DeliverData_s_underflow [of "sample_app\<lparr>s_ucIsReady := TRUE, s_uiSavePC := 1, s_ulSampleLength := 4000, s_ulTotalLen := 65536\<rparr>" 1000]
  by (simp add: sink_ok_def) blast



end
