(* ===== verification/AppCmd.thy ===== *)
theory AppCmd
  imports AppConfig AppDeliver
begin

text \<open>
  The commands of \<^verbatim>\<open>application/app.c\<close> (\<^verbatim>\<open>App\<close>, \<^verbatim>\<open>AcqStart\<close>, \<^verbatim>\<open>AcqStop\<close>), the thread that reacts to the
  pulse per second (\<^verbatim>\<open>MesgThread\<close>), the mapping of the sample windows, the copy of a data
  file and the speed test of the card.
\<close>

section \<open>Commands\<close>

text \<open>The command header at the start of the buffer, little endian.\<close>

record CmdHeader =
  usCmd :: u16
  usLength :: u16
  uiReserved :: "u8 list"

definition le16 :: "u8 \<Rightarrow> u8 \<Rightarrow> u16" where
  "le16 lo hi = ucast lo OR push_bit 8 (ucast hi)"

definition s_pCmdHead :: "u8 list \<Rightarrow> CmdHeader" where
  "s_pCmdHead buf = \<lparr>usCmd = le16 (buf ! 0) (buf ! 1), usLength = le16 (buf ! 2) (buf ! 3),
     uiReserved = take 4 (drop 4 buf)\<rparr>"

definition bytes16 :: "u16 \<Rightarrow> u8 list" where
  "bytes16 w = [ucast w, ucast (drop_bit 8 w)]"

text \<open>\<^verbatim>\<open>s_pAckHead->usCmd = cmd; s_pAckHead->usLength = len;\<close>\<close>

definition put_ack :: "u16 \<Rightarrow> u16 \<Rightarrow> u8 list \<Rightarrow> u8 list" where
  "put_ack cmd len buf = bytes16 cmd @ bytes16 len @ drop 4 buf"

datatype CmdHandler = H_AcqStart | H_AcqStop

definition s_CmdHandler :: "(u16 \<times> CmdHandler) list" where
  "s_CmdHandler = [(ACQ_START_CMD, H_AcqStart), (ACQ_STOP_CMD, H_AcqStop)]"

fun find_handler :: "(u16 \<times> CmdHandler) list \<Rightarrow> u16 \<Rightarrow> CmdHandler option" where
  "find_handler [] cmd = None"
| "find_handler ((c, h) # tab) cmd = (if cmd = c then Some h else find_handler tab cmd)"

definition GetCmdHandler :: "u16 \<Rightarrow> CmdHandler option" where
  "GetCmdHandler cmd = find_handler s_CmdHandler cmd"

definition AcqStart :: "app_env \<Rightarrow> app_state \<Rightarrow> (int \<times> app_state) res" where
  "AcqStart env s =
     andThen (Configuration env s) (\<lambda>(_, s).
       let s = s\<lparr>s_uiFlag := 0\<rparr>;
           s = reg_set (csr_hw env) CSR_REC_EN 1 s
       in Inr (RET_OK, s\<lparr>s_pTcpBuff := put_ack ACQ_START_ACK 0 (s_pTcpBuff s), s_uiTcpSendLen := CMDHEADER_SIZE\<rparr>))"

definition AcqStop :: "app_env \<Rightarrow> app_state \<Rightarrow> int \<times> app_state" where
  "AcqStop env s =
     (let s = reg_set (csr_hw env) CSR_REC_EN 0 s;
          s = reg_set (csr_hw env) CSR_T_ACQ 0 s;
          s = reg_set (csr_hw env) CSR_T_DELTA 0 s;
          s = reg_set (csr_hw env) CSR_T_START 0 s;
          s = s\<lparr>s_pTcpBuff := put_ack ACQ_STOP_ACK 0 (s_pTcpBuff s), s_uiTcpSendLen := CMDHEADER_SIZE,
                s_ucIsReady := FALSE, s_uiFlag := 0\<rparr>
      in (RET_OK,
          if s_uiSavePC s = 0 then
            (case s_pSdHPFd s of None \<Rightarrow> s
             | Some path \<Rightarrow> (effect [FileRemove (cstr (s_SD_FILE_NAME s)), FileClose path] s)\<lparr>s_pSdHPFd := None\<rparr>)
          else s))"

definition run_handler :: "app_env \<Rightarrow> CmdHandler \<Rightarrow> app_state \<Rightarrow> (int \<times> app_state) res" where
  "run_handler env h s = (case h of H_AcqStart \<Rightarrow> AcqStart env s | H_AcqStop \<Rightarrow> Inr (AcqStop env s))"

text \<open>
  \<open>recv\<close> is what \<^verbatim>\<open>recvfrom\<close> stored, at most the size of the buffer; it is empty when the call
  returned 0 or failed.
\<close>

definition App :: "app_env \<Rightarrow> u8 list \<Rightarrow> app_state \<Rightarrow> (int \<times> app_state) res" where
  "App env recv s =
     (let recv = take TCP_BUFF_SIZE recv in
      if recv = [] then Inr (RET_OK, s)
      else
        let s = s\<lparr>s_pTcpBuff := recv @ drop (length recv) (s_pTcpBuff s)\<rparr> in
        andThen (case GetCmdHandler (usCmd (s_pCmdHead (s_pTcpBuff s))) of
                   None \<Rightarrow> Inr s
                 | Some h \<Rightarrow> andThen (run_handler env h s) (\<lambda>(_, s). Inr s))
          (\<lambda>s. Inr (RET_OK, effect [SendCmd (take (unat (s_uiTcpSendLen s)) (s_pTcpBuff s))] s)))"

definition AppStart :: "app_state \<Rightarrow> int \<times> app_state" where
  "AppStart s = (RET_OK, s)"

section \<open>The pulse per second\<close>

fun dec_nat :: "nat \<Rightarrow> char list" where
  "dec_nat n = (if n < 10 then [char_of (48 + n)] else dec_nat (n div 10) @ [char_of (48 + n mod 10)])"

declare dec_nat.simps [simp del]

text \<open>\<^verbatim>\<open>%d\<close> with an unsigned argument prints it as a signed number.\<close>

definition printf_d :: "u32 \<Rightarrow> char list" where
  "printf_d w = (if sint w < 0 then CHR ''-'' # dec_nat (nat (- sint w)) else dec_nat (nat (sint w)))"

definition sd_file_name :: "char list \<Rightarrow> u32 \<Rightarrow> char list" where
  "sd_file_name dir uiSeconds = ''/mnt/'' @ dir @ ''/'' @ printf_d uiSeconds @ ''_tx.dat''"

text \<open>
  The file for a new acquisition. A stream that could not be opened is null, and is passed to
  \<^verbatim>\<open>fwrite\<close> all the same.
\<close>

definition open_sd_file :: "app_env \<Rightarrow> app_state \<Rightarrow> app_state res" where
  "open_sd_file env s =
     (let s = (case s_pSdHPFd s of None \<Rightarrow> s | Some old \<Rightarrow> (effect [FileClose old] s)\<lparr>s_pSdHPFd := None\<rparr>);
          path = sd_file_name (cstr (s_SdDataDIR s)) (now env)
      in need (length path < length (s_SD_FILE_NAME s)) OutOfBounds
           (let s = s\<lparr>s_SD_FILE_NAME := path @ NUL # drop (length path + 1) (s_SD_FILE_NAME s)\<rparr> in
            need (fopen_ok env path) NullPointer
              (Inr ((effect [FileOpen path, FileWriteConfig path (s_puiConfigBuf s)] s)\<lparr>s_pSdHPFd := Some path\<rparr>))))"

text \<open>
  One round of \<^verbatim>\<open>MesgThread\<close>: \<open>iRet\<close> is the result of reading the second-pulse device. The message
  is the 68 bytes of \<^verbatim>\<open>struct gps_data_t\<close>.
\<close>

definition MesgThread_round :: "app_env \<Rightarrow> int \<Rightarrow> app_state \<Rightarrow> app_state res" where
  "MesgThread_round env iRet s =
     (if iRet \<noteq> 1 then Inr s
      else
        let s = s\<lparr>s_ucIntHappend := 1, s_ucIsReady := TRUE, s_uiFlag := 0, s_ulTotalLen := 0, s_uiCheck := 1\<rparr> in
        andThen (if s_uiSavePC s = 0 then open_sd_file env s else Inr s)
          (\<lambda>s. Inr (effect [SendMesg GpsTimeMesg 68 (gps_info env)] s)))"

section \<open>Memory and files\<close>

text \<open>
  \<open>fd\<close> is the result of opening \<^verbatim>\<open>/dev/mem\<close>, \<open>mmap_ok\<close> says for a physical address whether it can be
  mapped. A failing \<^verbatim>\<open>mmap\<close> returns \<^verbatim>\<open>MAP_FAILED\<close>, which is not the null pointer the code checks for.
\<close>

definition InitMem :: "int \<Rightarrow> (u32 \<Rightarrow> bool) \<Rightarrow> app_state \<Rightarrow> int \<times> app_state" where
  "InitMem fd mmap_ok s =
     (if fd < 0 then (-1, s)
      else
        let s = s\<lparr>s_puiAddr_A := (if mmap_ok 0x34000000 then Block_A else MapFailed)\<rparr> in
        if s_puiAddr_A s = NullAddr then (-1, s)
        else
          let s = s\<lparr>s_puiAddr_B := (if mmap_ok 0x34010000 then Block_B else MapFailed)\<rparr> in
          if s_puiAddr_B s = NullAddr then (-1, s) else (RET_OK, s))"

definition s_pDataFile :: "char list" where "s_pDataFile = ''/tmp/acquistion.dat''"
definition s_pSdFile :: "char list" where "s_pSdFile = ''acquistion.dat''"

text \<open>
  The loop counter has 32 bits and the bound 64; \<open>None\<close> means that the loop does not end. A stream
  that could not be opened is used by the loop, if it runs, and closed in any case.
\<close>

definition SaveFileToSd :: "app_env \<Rightarrow> app_state \<Rightarrow> (int \<times> app_state) option res" where
  "SaveFileToSd env s =
     (let rounds = s_ulDataSize s div BRAM_SIZE in
      need (fopen_ok env s_pDataFile \<and> fopen_ok env s_pSdFile) NullPointer
        (if 2 ^ 32 \<le> unat rounds then Inr None
         else
           let s = effect ([FileOpen s_pDataFile, FileOpen s_pSdFile]
             @ concat (replicate (unat rounds) [FileRead s_pDataFile 65536, FileWrite s_pSdFile DataBuff 65536])
             @ [FileClose s_pDataFile, FileClose s_pSdFile]) s
           in Inr (Some (RET_OK, s\<lparr>s_ulDataSize := 0\<rparr>))))"

text \<open>
  \<^verbatim>\<open>TestSd\<close> writes the 40 MB of \<^verbatim>\<open>s_pSimuData\<close> five times; the speed it prints is not modelled. The
  null stream is not recognised by the test \<^verbatim>\<open>s_pDataFd < 0\<close>.
\<close>

definition TestSd :: "app_env \<Rightarrow> app_state \<Rightarrow> app_state res" where
  "TestSd env s =
     need (fopen_ok env s_pDataFile) NullPointer
       (Inr (effect ([FileOpen s_pDataFile]
          @ replicate 5 (FileWrite s_pDataFile SimuData (4 * 10485760)) @ [FileClose s_pDataFile]) s))"

end
