(* ===== verification/NetLink.thy ===== *)
theory NetLink
  imports AppCmd
begin

text \<open>
  The sockets of \<^verbatim>\<open>application/app.c\<close> (\<^verbatim>\<open>InitNetLink\<close>, \<^verbatim>\<open>UdpInitNetLink\<close>, \<^verbatim>\<open>AcceptLink\<close>) and the main
  program of \<^verbatim>\<open>application/main.c\<close>: opening the devices, the initialisation, and the loop that handles
  commands and delivers data.
\<close>

section \<open>Sockets\<close>

text \<open>
  The socket calls leave events; the kernel is a parameter that answers each call from the history.
  \<open>nonblocking\<close> is the value given to \<^verbatim>\<open>FIONBIO\<close>.
\<close>

datatype sock_type = SOCK_STREAM | SOCK_DGRAM

datatype net_event =
    Socket sock_type int                  \<comment> \<open>kind, result\<close>
  | Bind int u16
  | Listen int
  | Accept int int                        \<comment> \<open>listening socket, result\<close>
  | Nonblocking int bool
  | SendBuffer int u32
  | SendTimeout int u32                   \<comment> \<open>seconds\<close>
  | CloseSock int

record net_kernel =
  k_socket :: "net_event list \<Rightarrow> int"
  k_bind :: "net_event list \<Rightarrow> int \<Rightarrow> u16 \<Rightarrow> int"
  k_listen :: "net_event list \<Rightarrow> int \<Rightarrow> int"
  k_accept :: "net_event list \<Rightarrow> int \<Rightarrow> int"

text \<open>The descriptors of \<^verbatim>\<open>app.c\<close>; -1 at start. \<open>peer_udp\<close> is the port of the remote side of \<^verbatim>\<open>DataAddrPeer\<close>.\<close>

record net_state =
  s_iCmdConnSock :: int
  s_iCmdAcqSock :: int
  s_iDataConnSock :: int
  s_iDataAcqSock :: int
  s_iMesgConnSock :: int
  s_iMesgAcqSock :: int
  peer_udp :: u16
  net_log :: "net_event list"

definition net_start :: net_state where
  "net_start = \<lparr>s_iCmdConnSock = -1, s_iCmdAcqSock = -1, s_iDataConnSock = -1, s_iDataAcqSock = -1,
     s_iMesgConnSock = -1, s_iMesgAcqSock = -1, peer_udp = 0, net_log = []\<rparr>"

definition log_net :: "net_event list \<Rightarrow> net_state \<Rightarrow> net_state" where
  "log_net es s = s\<lparr>net_log := net_log s @ es\<rparr>"

text \<open>
  The part the three listeners share: socket, blocking mode, bind, listen. \<open>store\<close> sets the
  variable of the descriptor. Only a failing \<^verbatim>\<open>listen\<close> closes the socket.
\<close>

definition open_listener ::
  "net_kernel \<Rightarrow> (int \<Rightarrow> net_state \<Rightarrow> net_state) \<Rightarrow> u16 \<Rightarrow> net_state \<Rightarrow> bool \<times> net_state" where
  "open_listener k store port s =
     (let fd = k_socket k (net_log s);
          s = log_net [Socket SOCK_STREAM fd] (store fd s)
      in if fd < 0 then (False, s)
         else
           let s = log_net [Nonblocking fd False] s;
               iRet = k_bind k (net_log s) fd port;
               s = log_net [Bind fd port] s
           in if iRet < 0 then (False, s)
              else
                let iRet = k_listen k (net_log s) fd;
                    s = log_net [Listen fd] s
                in if iRet < 0 then (False, log_net [CloseSock fd] s) else (True, s))"

definition InitNetLink :: "net_kernel \<Rightarrow> net_state \<Rightarrow> int \<times> net_state" where
  "InitNetLink k s =
     (let (ok, s) = open_listener k (\<lambda>fd. s_iDataConnSock_update (\<lambda>_. fd)) LOCAL_DATA_PORT s in
      if \<not> ok then (RET_FAIL, s)
      else
        let (ok, s) = open_listener k (\<lambda>fd. s_iCmdConnSock_update (\<lambda>_. fd)) LOCAL_CMD_PORT s in
        if \<not> ok then (RET_FAIL, s)
        else
          let (ok, s) = open_listener k (\<lambda>fd. s_iMesgConnSock_update (\<lambda>_. fd)) LOCAL_MSG_PORG s in
          if \<not> ok then (RET_FAIL, s) else (RET_OK, s))"

definition UdpInitNetLink :: "net_kernel \<Rightarrow> net_state \<Rightarrow> int \<times> net_state" where
  "UdpInitNetLink k s =
     (let fd = k_socket k (net_log s);
          s = log_net [Socket SOCK_DGRAM fd] (s\<lparr>s_iDataConnSock := fd\<rparr>)
      in if fd < 0 then (RET_FAIL, s)
         else
           let s = log_net [Nonblocking fd True] (s\<lparr>peer_udp := REMOTE_UDP_PORT\<rparr>);
               iRet = k_bind k (net_log s) fd LOCAL_DATA_PORT;
               s = log_net [Bind fd LOCAL_DATA_PORT] s
           in if iRet < 0 then (RET_FAIL, s)
              else
                let (ok, s) = open_listener k (\<lambda>fd. s_iCmdConnSock_update (\<lambda>_. fd)) LOCAL_CMD_PORT s in
                if \<not> ok then (RET_FAIL, s)
                else
                  let acq = k_accept k (net_log s) (s_iCmdConnSock s);
                      s = log_net [Accept (s_iCmdConnSock s) acq] (s\<lparr>s_iCmdAcqSock := acq\<rparr>)
                  in (RET_OK, if 0 < acq then log_net [Nonblocking acq True, SendBuffer acq 65536] s else s))"

definition accept_one ::
  "net_kernel \<Rightarrow> int \<Rightarrow> (int \<Rightarrow> net_state \<Rightarrow> net_state) \<Rightarrow> bool \<Rightarrow> net_state \<Rightarrow> net_state" where
  "accept_one k listener store nonblocking s =
     (let acq = k_accept k (net_log s) listener;
          s = log_net [Accept listener acq] (store acq s)
      in if 0 < acq
         then log_net [Nonblocking acq nonblocking, SendBuffer acq (256 * 1024), SendTimeout acq 15] s else s)"

definition AcceptLink :: "net_kernel \<Rightarrow> net_state \<Rightarrow> int \<times> net_state" where
  "AcceptLink k s =
     (let s = accept_one k (s_iDataConnSock s) (\<lambda>fd. s_iDataAcqSock_update (\<lambda>_. fd)) False s;
          s = accept_one k (s_iCmdConnSock s) (\<lambda>fd. s_iCmdAcqSock_update (\<lambda>_. fd)) True s;
          s = accept_one k (s_iMesgConnSock s) (\<lambda>fd. s_iMesgAcqSock_update (\<lambda>_. fd)) True s
      in (RET_OK, s))"

section \<open>The main program\<close>

text \<open>The descriptors of the devices. \<^verbatim>\<open>s_iBramFd\<close> stays 0: the code that opened its device is a comment.\<close>

record main_fds =
  s_csrFd :: int
  s_iBramFd :: int
  s_iRamFd :: int
  s_iIrqFd :: int
  s_iDataIrqFd :: int

definition GetCsrFd :: "main_fds \<Rightarrow> int" where "GetCsrFd m = s_csrFd m"
definition GetBramFd :: "main_fds \<Rightarrow> int" where "GetBramFd m = s_iBramFd m"
definition GetRamFd :: "main_fds \<Rightarrow> int" where "GetRamFd m = s_iRamFd m"
definition GetIrqFd :: "main_fds \<Rightarrow> int" where "GetIrqFd m = s_iIrqFd m"
definition GetDataIrqFd :: "main_fds \<Rightarrow> int" where "GetDataIrqFd m = s_iDataIrqFd m"

text \<open>What the environment answers while the program starts.\<close>

record start_env =
  open_dev :: "char list \<Rightarrow> int"
  mem_fd :: int
  mmap_ok :: "u32 \<Rightarrow> bool"
  tty_fd :: int
  tty_get :: int
  tty_set :: int
  tty_stream :: bool
  network :: net_kernel
  create_mesg_thread :: int
  create_gps_thread :: int

text \<open>
  The start of \<^verbatim>\<open>main\<close>: \<open>Inl\<close> the exit status, or \<open>Inr\<close> the state in which the loop begins. The
  results of the four initialisations are not looked at.
\<close>

definition main_start ::
  "start_env \<Rightarrow> gps_state \<Rightarrow> app_state \<Rightarrow> (int + main_fds \<times> gps_state \<times> net_state \<times> app_state) res" where
  "main_start e g s =
     (let m = \<lparr>s_csrFd = open_dev e ''/dev/axi_csr0'', s_iBramFd = 0, s_iRamFd = 0, s_iIrqFd = 0, s_iDataIrqFd = 0\<rparr> in
      if s_csrFd m < 0 then Inr (Inl (-1))
      else let m = m\<lparr>s_iRamFd := open_dev e ''/dev/bram0''\<rparr> in
      if s_iRamFd m < 0 then Inr (Inl (-1))
      else let m = m\<lparr>s_iIrqFd := open_dev e ''/dev/counter_irq0''\<rparr> in
      if s_iIrqFd m < 0 then Inr (Inl (-1))
      else let m = m\<lparr>s_iDataIrqFd := open_dev e ''/dev/data_irq0''\<rparr> in
      if s_iDataIrqFd m < 0 then Inr (Inl (-1))
      else
        let (_, s) = InitMem (mem_fd e) (mmap_ok e) s in
        andThen (InitGps (tty_fd e) (tty_get e) (tty_set e) (tty_stream e) g) (\<lambda>(_, g).
          let (_, n) = InitNetLink (network e) net_start;
              (_, n) = AcceptLink (network e) n
          in if create_mesg_thread e \<noteq> 0 then Inr (Inl (-1))
             else if create_gps_thread e \<noteq> 0 then Inr (Inl (-1))
             else Inr (Inr (m, g, n, s))))"

text \<open>
  One round of the loop: \<open>recv\<close> is what the command socket has, \<open>irq\<close> what the read of the data
  device returns if it is called.
\<close>

definition main_round :: "app_env \<Rightarrow> u8 list \<Rightarrow> int \<Rightarrow> app_state \<Rightarrow> app_state res" where
  "main_round env recv irq s =
     andThen (App env recv s) (\<lambda>(_, s).
       if GetReadyFlag s = TRUE then DeliverData_s irq s else Inr s)"

section \<open>What the sockets are good for\<close>

text \<open>The calls that make a listening socket.\<close>

definition listener_calls :: "int \<Rightarrow> u16 \<Rightarrow> net_event list" where
  "listener_calls fd port = [Socket SOCK_STREAM fd, Nonblocking fd False, Bind fd port, Listen fd]"

lemma open_listener_ok:
  assumes "open_listener k store port s = (ok, s')" "\<And>fd s. net_log (store fd s) = net_log s"
  shows "\<exists>fd. if ok then 0 \<le> fd \<and> s' = log_net (listener_calls fd port) (store fd s)
    else \<exists>es. s' = log_net es (store fd s)"
proof -
  define fd where "fd = k_socket k (net_log s)"
  have a: "log_net es (log_net es' s) = log_net (es' @ es) s" for es es' s by (simp add: log_net_def)
  show ?thesis
    using assms by (intro exI [of _ fd]) (auto simp: open_listener_def Let_def fd_def [symmetric] a listener_calls_def split: if_splits)
qed

text \<open>
  \<^verbatim>\<open>InitNetLink\<close> reports success only with three blocking sockets that listen on the data, command and
  message ports.
\<close>

theorem InitNetLink_listens:
  assumes "InitNetLink k net_start = (r, s)"
  shows "r = RET_OK \<longrightarrow> 0 \<le> s_iDataConnSock s \<and> 0 \<le> s_iCmdConnSock s \<and> 0 \<le> s_iMesgConnSock s
    \<and> net_log s = listener_calls (s_iDataConnSock s) LOCAL_DATA_PORT @ listener_calls (s_iCmdConnSock s) LOCAL_CMD_PORT
        @ listener_calls (s_iMesgConnSock s) LOCAL_MSG_PORG"
proof
  assume ok: "r = RET_OK"
  obtain d s1 where d: "open_listener k (\<lambda>fd. s_iDataConnSock_update (\<lambda>_. fd)) LOCAL_DATA_PORT net_start = (d, s1)" by fastforce
  obtain c s2 where c: "open_listener k (\<lambda>fd. s_iCmdConnSock_update (\<lambda>_. fd)) LOCAL_CMD_PORT s1 = (c, s2)" by fastforce
  obtain m s3 where m: "open_listener k (\<lambda>fd. s_iMesgConnSock_update (\<lambda>_. fd)) LOCAL_MSG_PORG s2 = (m, s3)" by fastforce
  have t: "d" "c" "m" "s = s3"
    using assms ok d c m by (auto simp: InitNetLink_def RET_OK_def RET_FAIL_def split: if_splits)
  from open_listener_ok [OF d] open_listener_ok [OF c] open_listener_ok [OF m] t
  show "0 \<le> s_iDataConnSock s \<and> 0 \<le> s_iCmdConnSock s \<and> 0 \<le> s_iMesgConnSock s
    \<and> net_log s = listener_calls (s_iDataConnSock s) LOCAL_DATA_PORT @ listener_calls (s_iCmdConnSock s) LOCAL_CMD_PORT
        @ listener_calls (s_iMesgConnSock s) LOCAL_MSG_PORG"
    by (auto simp: log_net_def net_start_def)
qed

text \<open>
  The main program does not look at the result of \<^verbatim>\<open>InitNetLink\<close>: when no socket can be made it starts
  its threads and its loop, with accepts on the descriptor -1.
\<close>

theorem main_ignores_network_failure:
  assumes "\<forall>dev. 0 \<le> open_dev e dev" "tty_fd e < 0" "create_mesg_thread e = 0" "create_gps_thread e = 0"
    "\<forall>log. k_socket (network e) log = -1" "\<forall>log fd. k_accept (network e) log fd = -1"
  shows "\<exists>m n s'. main_start e g s = Inr (Inr (m, g, n, s'))
    \<and> net_log n = [Socket SOCK_STREAM (-1), Accept (-1) (-1), Accept (-1) (-1), Accept (-1) (-1)]"
  using assms
  by (simp add: main_start_def Let_def split_def InitGps_def InitNetLink_def AcceptLink_def accept_one_def
      open_listener_def log_net_def net_start_def not_less)

end
