(* ===== verification/AppShape.thy ===== *)
theory AppShape
  imports NetLink ConfigSpec
begin

text \<open>
  The shape of the application state: which sizes and relations hold in every state that rounds of the
  main loop and of \<^verbatim>\<open>MesgThread\<close> can reach.
\<close>

section \<open>Shape of the state\<close>

text \<open>
  The well-formedness of the application state: open devices, buffers of their declared sizes, a
  terminated directory name, and a file name that is the name of the open stream.
\<close>

definition app_ok :: "app_state \<Rightarrow> bool" where
  "app_ok s \<longleftrightarrow> axi_csr_ready (csr s) \<and> bram_ready (ram s)
     \<and> length (s_pTcpBuff s) = TCP_BUFF_SIZE \<and> s_uiTcpSendLen s \<in> {0, CMDHEADER_SIZE}
     \<and> s_ucIsReady s \<in> {TRUE, FALSE}
     \<and> length (s_SdDataDIR s) = 64 \<and> NUL \<in> set (s_SdDataDIR s)
     \<and> length (s_puiConfigBuf s) = 87 \<and> length (s_puiPrbsBuff s) = 64 \<and> length (s_SD_FILE_NAME s) = 32
     \<and> (\<forall>p. s_pSdHPFd s = Some p \<longrightarrow> cstr (s_SD_FILE_NAME s) = p)"

lemma RegWrite_ready:
  assumes "axi_csr_ready f"
  shows "axi_csr_ready (snd (RegWrite (axi_csr_fops hw) f l v))"
proof -
  obtain n f' where w: "RegWrite (axi_csr_fops hw) f l v = (n, f')" by fastforce
  show ?thesis
  proof (cases "REG_OFFSET l < AXI_CSR_PHY_SIZE")
    case True
    from axi.RegWrite_steps [OF assms this w] w show ?thesis by (metis snd_conv)
  next
    case False
    from axi.RegWrite_outside [OF assms this w] w show ?thesis by simp
  qed
qed

lemma run_script_ready: "axi_csr_ready f \<Longrightarrow> axi_csr_ready (run_script hw ws f)"
  by (induction hw ws f rule: run_script.induct) (auto simp: RegWrite_ready)

lemma SetSampleRate_ready: "\<lbrakk>SetSampleRate hw r f = Inr (n, f'); axi_csr_ready f\<rbrakk> \<Longrightarrow> axi_csr_ready f'"
  by (auto simp: SetSampleRate_def Let_def split_def RegWrite_ready)

lemma bram_step_ready: "bram_ready f \<Longrightarrow> bram_ready (snd (bram_lseek f off w))" "bram_ready f \<Longrightarrow> bram_ready (snd (bram_write f v))"
  by (simp_all add: bram_lseek_def bram_write_def bram_ready_def Let_def)

lemma set_ram_ready: "\<lbrakk>set_ram hw buf i m n fd = Inr (n', fd'); bram_ready fd\<rbrakk> \<Longrightarrow> bram_ready fd'"
proof (induction hw buf i m n fd rule: set_ram.induct)
  case (1 hw buf i m n fd)
  obtain p f1 where s: "bram_lseek fd (of_nat i) 0 = (p, f1)" by fastforce
  obtain k f2 where w: "bram_write f1 (buf ! i) = (k, f2)" by fastforce
  have "bram_ready f2" using bram_step_ready(1) [of fd "of_nat i" 0] bram_step_ready(2) [of f1 "buf ! i"] s w "1.prems"(2)
    by simp
  moreover have "i < length buf \<and> set_ram hw buf (i + 1) m k f2 = Inr (n', fd')" if "i < m"
    using "1.prems"(1) that s w by (subst (asm) set_ram.simps) (simp add: Let_def)
  moreover have "fd' = fd" if "\<not> i < m" using "1.prems"(1) that by (subst (asm) set_ram.simps) simp
  ultimately show ?case using "1.IH" [OF _ _ s [symmetric] refl w [symmetric] refl] "1.prems"(2) by (cases "i < m") auto
qed

lemma GetLfsrUint_length: "GetLfsrUint stack seed poly buf n = Inr buf' \<Longrightarrow> length buf' = length buf"
proof -
  assume a: "GetLfsrUint stack seed poly buf n = Inr buf'"
  have f: "fold (\<lambda>k r. andThen r (\<lambda>b. andThen (g k) (\<lambda>h. need (q k < length b) OutOfBounds (Inr (b[q k := h]))))) xs (Inr b0) = Inr b1
      \<Longrightarrow> length b1 = length b0" for g :: "nat \<Rightarrow> u32 res" and q xs and b0 b1 :: "u32 list"
  proof (induction xs arbitrary: b1 rule: rev_induct)
    case (snoc x xs)
    then show ?case by (auto simp: andThen_Inr_iff)
  qed simp
  show ?thesis
    using a by (auto simp: GetLfsrUint_def Let_def for_word_0 split: if_splits dest!: f)
qed

lemma SetDataToRam_shape:
  "\<lbrakk>SetDataToRam hw stack seed poly n buf fd = Inr (r, buf', fd'); bram_ready fd\<rbrakk>
     \<Longrightarrow> length buf' = length buf \<and> bram_ready fd'"
  by (auto simp: SetDataToRam_def andThen_Inr_iff Let_def GetLfsrUint_length dest: set_ram_ready)

lemma read_profile_string_shape:
  assumes "read_profile_string fs sec key value n None file = Inr (r, v)" "nat n = length value" "NUL \<in> set value"
  shows "length v = length value \<and> NUL \<in> set v"
proof (cases "v = value")
  case True
  with assms show ?thesis by simp
next
  case False
  from assms(1) have n: "0 < n" by (simp add: read_profile_string_def Let_def)
  from assms(1) False obtain buf size p ks ke vs ve where
    p: "parse_file sec key buf = Inr p" "key_pos p = Some (ks, ke, vs, ve)"
      "v = take (min (nat n - 1) (ve - vs)) (drop vs buf) @ replicate (nat n - min (nat n - 1) (ve - vs)) NUL @ drop (nat n) value"
    by (auto simp: read_profile_string_def andThen_Inr_iff Let_def split: option.splits)
  have "vs \<le> ve" "ve < length buf"
    using parse_loop_found [of buf sec key 0 None p] p(1,2) lines_loop_KeyAt by (fastforce simp: parse_file_def)+
  moreover define m where "m = min (nat n - 1) (ve - vs)"
  ultimately have l: "length (take m (drop vs buf)) = m" "m < length value" using n assms(2) by auto
  have "v = take m (drop vs buf) @ replicate (length value - m) NUL"
    using p(3) assms(2) by (simp add: m_def)
  with l show ?thesis by (simp only: length_append length_replicate set_append) auto
qed

text \<open>What \<^verbatim>\<open>Configuration\<close> leaves alone, and the sizes it keeps.\<close>

definition same_rest :: "app_state \<Rightarrow> app_state \<Rightarrow> bool" where
  "same_rest s s' \<longleftrightarrow> s_pTcpBuff s' = s_pTcpBuff s \<and> s_uiTcpSendLen s' = s_uiTcpSendLen s
     \<and> s_ucIsReady s' = s_ucIsReady s \<and> s_SD_FILE_NAME s' = s_SD_FILE_NAME s \<and> s_pSdHPFd s' = s_pSdHPFd s
     \<and> effects s' = effects s \<and> s_uiFlag s' = s_uiFlag s \<and> s_ulTotalLen s' = s_ulTotalLen s
     \<and> s_puiAddr_A s' = s_puiAddr_A s \<and> s_puiAddr_B s' = s_puiAddr_B s"

lemma same_rest_reg_set [simp]: "same_rest s (reg_set hw l v s') = same_rest s s'"
  by (simp add: reg_set_def same_rest_def)

lemma words_of_length: "length (words_of v) = length v div 4"
  by (simp add: words_of_def)

lemma config_buf_length: "\<lbrakk>length v = 64; length b = 87\<rbrakk> \<Longrightarrow> length (config_buf c v b) = 87"
  by (simp add: config_buf_def words_of_length Let_def)

lemma Configuration_shape:
  assumes "Configuration env s = Inr (r, s')" "app_ok s"
  shows "same_rest s s' \<and> r = 0 \<and> axi_csr_ready (csr s') \<and> bram_ready (ram s') \<and> length (s_SdDataDIR s') = 64
    \<and> NUL \<in> set (s_SdDataDIR s') \<and> length (s_puiConfigBuf s') = 87 \<and> length (s_puiPrbsBuff s') = 64"
proof -
  obtain c where c: "read_config (ini_files env) = Inr c"
    using assms(1) by (auto simp: Configuration_def andThen_Inr_iff)
  obtain k dir where d: "read_profile_string (ini_files env) ''Coinfiguration'' ''DataDirectory'' (s_SdDataDIR s)
      (int (length (s_SdDataDIR s))) None ''Configuration.ini'' = Inr (k, dir)"
    using assms(1) c by (auto simp: Configuration_def andThen_Inr_iff)
  obtain cr ds where cd: "CreateDir (access_ok env) (mkdir_ok env) (cstr dir) (made s) = Inr (cr, ds)"
    using assms(1) c d by (auto simp: Configuration_def andThen_Inr_iff)
  have dir: "length dir = 64" "NUL \<in> set dir"
    using read_profile_string_shape [OF d] assms(2) by (simp_all add: app_ok_def)
  define s1 where "s1 = set_modes (csr_hw env) c (s\<lparr>s_uiSavePC := word_of_int (SavePosition c), s_SdDataDIR := dir,
    made := ds, s_puiConfigBuf := config_buf c dir (s_puiConfigBuf s),
    s_WorkMode_TX := word_of_int (GetRealData s_WorkMode (WorkMode c))\<rparr>)"
  obtain m fd where rate: "SetSampleRate (csr_hw env) (word_of_int (AdcSamplingRates c)) (csr s1) = Inr (m, fd)"
    using assms(1) c d cd by (auto simp: Configuration_def andThen_Inr_iff s1_def Let_def)
  obtain len q buf rfd t3 delta where more: "sample_length c = Inr len"
    "SetDataToRam (ram_hw env) (lfsr_stack env) (word_of_int (InitialValue c))
       (word_of_int (GenerationPolymerization c)) (word_of_int (SequenceLength c)) (s_puiPrbsBuff s) (ram s) = Inr (q, buf, rfd)"
    "acq_period c = Inr t3" "acq_delta t3 (now env) = Inr delta"
    using assms(1) c d cd rate
    by (auto simp: Configuration_def andThen_Inr_iff s1_def Let_def set_modes_def)
  have fin: "r = 0" "s' = reg_set (csr_hw env) CSR_T_START 1 (reg_set (csr_hw env) CSR_T_DELTA delta
      (reg_set (csr_hw env) CSR_T_ACQ t3
        ((reg_set (csr_hw env) CSR_CODE_CLK_CYCLES (word_of_int (ImpulseWidth c * 40))
           ((reg_set (csr_hw env) CSR_CODE_LENGTH (Power (word_of_int (SequenceLength c)) - 1) (s1\<lparr>csr := fd\<rparr>))
              \<lparr>s_ulSampleLength := len\<rparr>))\<lparr>s_puiPrbsBuff := buf, ram := rfd\<rparr>)))"
    using assms(1) c d cd rate more by (auto simp: Configuration_def s1_def Let_def set_modes_def)
  have s1: "same_rest s s1" "axi_csr_ready (csr s1)" "s_SdDataDIR s1 = dir" "length (s_puiConfigBuf s1) = 87"
    using assms(2) dir(1) config_buf_length [OF dir(1)]
    by (simp_all add: s1_def set_modes_def app_ok_def RegWrite_ready reg_set_def same_rest_def)
  have fd: "axi_csr_ready fd" using SetSampleRate_ready [OF rate s1(2)] .
  have b: "length buf = 64" "bram_ready rfd"
    using SetDataToRam_shape [OF more(2)] assms(2) by (simp_all add: app_ok_def)
  show ?thesis
    using s1 fd b dir unfolding fin
    by (simp add: reg_set_def RegWrite_ready same_rest_def)
qed

section \<open>Steps of the program\<close>

text \<open>
  Between the start and the end of the program two threads act on the state: rounds of the main loop
  and rounds of \<^verbatim>\<open>MesgThread\<close>. A round is one step; inside a step the environment is fixed, between
  steps it may change.
\<close>

inductive app_step :: "app_state \<Rightarrow> app_state \<Rightarrow> bool" where
  step_main: "main_round env recv irq s = Inr s' \<Longrightarrow> app_step s s'"
| step_mesg: "MesgThread_round env iRet s = Inr s' \<Longrightarrow> app_step s s'"

inductive_cases app_stepE: "app_step s s'"

abbreviation app_reach :: "app_state \<Rightarrow> app_state \<Rightarrow> bool" where
  "app_reach \<equiv> app_step\<^sup>*\<^sup>*"

lemma put_ack_length: "4 \<le> length buf \<Longrightarrow> length (put_ack c n buf) = length buf"
  by (simp add: put_ack_def bytes16_def)

lemma app_ok_reg_set: "app_ok s \<Longrightarrow> app_ok (reg_set hw l v s)"
  by (simp add: app_ok_def reg_set_def RegWrite_ready)

lemma app_ok_effect [simp]: "app_ok (effect es s) = app_ok s"
  by (simp add: app_ok_def effect_def)

lemma AcqStart_ok: "\<lbrakk>AcqStart env s = Inr (r, s'); app_ok s\<rbrakk> \<Longrightarrow> app_ok s'"
proof -
  assume a: "AcqStart env s = Inr (r, s')" and ok: "app_ok s"
  obtain q t where t: "Configuration env s = Inr (q, t)" using a by (auto simp: AcqStart_def andThen_Inr_iff)
  note f = Configuration_shape [OF t ok]
  have "s' = (reg_set (csr_hw env) CSR_REC_EN 1 (t\<lparr>s_uiFlag := 0\<rparr>))
    \<lparr>s_pTcpBuff := put_ack ACQ_START_ACK 0 (s_pTcpBuff t), s_uiTcpSendLen := CMDHEADER_SIZE\<rparr>"
    using a t by (simp add: AcqStart_def reg_set_def Let_def)
  with f ok show "app_ok s'"
    by (simp add: app_ok_def same_rest_def reg_set_def RegWrite_ready put_ack_length TCP_BUFF_SIZE_def)
qed

lemma AcqStop_ok: "app_ok s \<Longrightarrow> app_ok (snd (AcqStop env s))"
  by (auto simp: AcqStop_def app_ok_def reg_set_def RegWrite_ready put_ack_length TCP_BUFF_SIZE_def effect_def
      Let_def split: option.split)

lemma App_ok: "\<lbrakk>App env recv s = Inr (r, s'); app_ok s\<rbrakk> \<Longrightarrow> app_ok s'"
proof -
  assume a: "App env recv s = Inr (r, s')" and ok: "app_ok s"
  define b where "b = take TCP_BUFF_SIZE recv"
  define t where "t = s\<lparr>s_pTcpBuff := b @ drop (length b) (s_pTcpBuff s)\<rparr>"
  have t: "app_ok t" using ok by (simp add: t_def app_ok_def b_def)
  show "app_ok s'"
  proof (cases "b = []")
    case True
    with a ok show ?thesis by (simp add: App_def b_def)
  next
    case False
    with a obtain u where u: "(case GetCmdHandler (usCmd (s_pCmdHead (s_pTcpBuff t))) of
                   None \<Rightarrow> Inr t
                 | Some h \<Rightarrow> andThen (run_handler env h t) (\<lambda>(_, s). Inr s)) = Inr u"
      "s' = effect [SendCmd (take (unat (s_uiTcpSendLen u)) (s_pTcpBuff u))] u"
      unfolding App_def Let_def b_def [symmetric] t_def [symmetric] by (auto simp: andThen_Inr_iff)
    have "app_ok u"
      using u(1) t AcqStart_ok AcqStop_ok
      by (auto simp: run_handler_def andThen_Inr_iff split: option.splits CmdHandler.splits) (metis snd_conv)
    with u(2) show ?thesis by simp
  qed
qed

lemma fwrite_sd_ok: "\<lbrakk>fwrite_sd n s = Inr s'; app_ok s\<rbrakk> \<Longrightarrow> app_ok s'"
  by (auto simp: fwrite_sd_def split: option.splits)

lemma app_ok_ready: "app_ok s \<Longrightarrow> app_ok (s\<lparr>s_ucDeliveredDone := d, s_ucIsReady := FALSE\<rparr>)"
  "app_ok s \<Longrightarrow> app_ok (s\<lparr>s_ulTotalLen := n\<rparr>)" "app_ok s \<Longrightarrow> app_ok (s\<lparr>s_uiFlag := f, s_puiAddr := b\<rparr>)"
  by (simp_all add: app_ok_def)

lemma deliver_window_ok: "\<lbrakk>deliver_window s = Inr s'; app_ok s\<rbrakk> \<Longrightarrow> app_ok s'"
  by (auto simp: deliver_window_def Let_def andThen_Inr_iff app_ok_ready dest: fwrite_sd_ok split: if_splits)

lemma DeliverData_s_ok: "\<lbrakk>DeliverData_s irq s = Inr s'; app_ok s\<rbrakk> \<Longrightarrow> app_ok s'"
  by (auto simp: DeliverData_s_def Let_def app_ok_ready intro: deliver_window_ok split: if_splits)

lemma digit_no_NUL: "d < 10 \<Longrightarrow> (char_of (48 + d) :: char) \<noteq> NUL" for d :: nat
proof
  assume "d < 10" "(char_of (48 + d) :: char) = NUL"
  then have "of_char (char_of (48 + d) :: char) = (of_char NUL :: nat)" by simp
  with \<open>d < 10\<close> show False by simp
qed

lemma dec_nat_no_NUL: "c \<in> set (dec_nat n) \<Longrightarrow> c \<noteq> NUL"
proof (induction n rule: dec_nat.induct)
  case (1 n)
  show ?case
  proof (cases "n < 10")
    case True
    with "1.prems" digit_no_NUL [of n] show ?thesis by (subst (asm) dec_nat.simps) auto
  next
    case False
    with "1.prems" have "c \<in> set (dec_nat (n div 10)) \<or> c = char_of (48 + n mod 10)"
      by (subst (asm) dec_nat.simps) auto
    with "1.IH" [OF False] digit_no_NUL [of "n mod 10"] show ?thesis by auto
  qed
qed

lemma sd_file_name_no_NUL: "NUL \<notin> set (sd_file_name (cstr d) w)"
  using dec_nat_no_NUL by (auto simp: sd_file_name_def printf_d_def cstr_def dest: set_takeWhileD)

lemma open_sd_file_ok:
  assumes "open_sd_file env s = Inr s'" "app_ok s"
  shows "app_ok s'"
proof -
  define path where "path = sd_file_name (cstr (s_SdDataDIR s)) (now env)"
  define t where "t = (case s_pSdHPFd s of None \<Rightarrow> s | Some old \<Rightarrow> (effect [FileClose old] s)\<lparr>s_pSdHPFd := None\<rparr>)"
  have t: "s_SdDataDIR t = s_SdDataDIR s" "s_SD_FILE_NAME t = s_SD_FILE_NAME s" "app_ok t"
    using assms(2) by (auto simp: t_def app_ok_def effect_def split: option.split)
  from assms(1) t(1,2) have l: "length path < length (s_SD_FILE_NAME s)"
    and s': "s' = (effect [FileOpen path, FileWriteConfig path (s_puiConfigBuf t)]
      (t\<lparr>s_SD_FILE_NAME := path @ NUL # drop (length path + 1) (s_SD_FILE_NAME t)\<rparr>))\<lparr>s_pSdHPFd := Some path\<rparr>"
    unfolding open_sd_file_def t_def [symmetric] by (auto simp: Let_def path_def)
  have "cstr (path @ NUL # drop (Suc (length path)) (s_SD_FILE_NAME t)) = path"
    using sd_file_name_no_NUL by (intro cstr_NUL) (simp add: path_def)
  with l t(2,3) show ?thesis by (simp add: s' app_ok_def effect_def)
qed

lemma MesgThread_round_ok: "\<lbrakk>MesgThread_round env iRet s = Inr s'; app_ok s\<rbrakk> \<Longrightarrow> app_ok s'"
proof -
  assume a: "MesgThread_round env iRet s = Inr s'" and ok: "app_ok s"
  define t where "t = s\<lparr>s_ucIntHappend := 1, s_ucIsReady := TRUE, s_uiFlag := 0, s_ulTotalLen := 0, s_uiCheck := 1\<rparr>"
  have "app_ok t" using ok by (simp add: t_def app_ok_def)
  with a ok show "app_ok s'"
    unfolding MesgThread_round_def Let_def t_def [symmetric]
    by (auto simp: andThen_Inr_iff intro: open_sd_file_ok split: if_splits)
qed

lemma app_step_ok: "app_step s s' \<Longrightarrow> app_ok s \<Longrightarrow> app_ok s'"
proof (induction rule: app_step.induct)
  case (step_main env recv irq s s')
  then obtain r t where t: "App env recv s = Inr (r, t)"
    "(if GetReadyFlag t = TRUE then DeliverData_s irq t else Inr t) = Inr s'"
    by (auto simp: main_round_def andThen_Inr_iff)
  from App_ok [OF t(1) step_main.prems] t(2) DeliverData_s_ok [of irq t s'] show ?case by (auto split: if_splits)
next
  case (step_mesg env iRet s s')
  then show ?case by (blast intro: MesgThread_round_ok)
qed

text \<open>
  C4. The state of the application keeps its shape in every reachable state, whatever the commands,
  interrupts and files are: the devices stay open, all buffers keep their sizes, the directory name
  stays terminated, the ready flag is TRUE or FALSE, the length of a reply is 0 or 8, and the file
  name is that of the open stream, so that \<^verbatim>\<open>AcqStop\<close> removes the file it closes.
\<close>

theorem app_reachable_ok:
  assumes "app_ok s0" "app_reach s0 s"
  shows "app_ok s \<and> (\<forall>env path. s_uiSavePC s = 0 \<longrightarrow> s_pSdHPFd s = Some path \<longrightarrow>
    effects (snd (AcqStop env s)) = effects s @ [FileRemove path, FileClose path])"
proof -
  from assms(2,1) have ok: "app_ok s"
    by (induction rule: rtranclp_induct) (auto intro: app_step_ok)
  moreover have "effects (snd (AcqStop env s)) = effects s @ [FileRemove path, FileClose path]"
    if "s_uiSavePC s = 0" "s_pSdHPFd s = Some path" for env path
    using ok that by (simp add: AcqStop_def Let_def reg_set_def effect_def app_ok_def)
  ultimately show ?thesis by blast
qed

lemma sample_app_ok: "app_ok sample_app"
  by (simp add: app_ok_def sample_app_def sample_csr_ready bram_ready_def sample_bram_def BRAM_PHY_SIZE_def
      TCP_BUFF_SIZE_def TRUE_def FALSE_def)

theorem app_reachable_ok_witness:
  "\<exists>s. app_reach sample_app s \<and> app_ok s \<and> s_ucIsReady s = TRUE"
proof -
  define env where "env = sample_app_env"
  obtain t where t: "MesgThread_round env 1 sample_app = Inr t" "s_ucIsReady t = TRUE"
    by (simp add: MesgThread_round_def open_sd_file_def env_def sample_app_env_def sample_app_def sd_file_name_def
        printf_d_def dec_nat.simps cstr_def effect_def Let_def)
  then have "app_reach sample_app t" by (blast intro: step_mesg)
  with app_reachable_ok [OF sample_app_ok this] t(2) show ?thesis by blast
qed

end
