(* ===== verification/AppSpec.thy ===== *)
theory AppSpec
  imports AppShape
begin

text \<open>
  What the commands and the pulse per second achieve, and the lemmas about a start command and a pulse
  from which the property of a whole acquisition is composed.
\<close>

section \<open>Commands\<close>

lemma le16_bytes: "bytes16 w = [lo, hi] \<Longrightarrow> le16 lo hi = w"
proof -
  assume "bytes16 w = [lo, hi]"
  then have "lo = ucast w" "hi = ucast (drop_bit 8 w)" by (simp_all add: bytes16_def)
  then show "le16 lo hi = w"
    by (intro bit_word_eqI) (auto simp: le16_def bit_or_iff bit_push_bit_iff bit_ucast_iff bit_drop_bit_eq)
qed

text \<open>A command as the peer sends it, and the reply.\<close>

definition command :: "u16 \<Rightarrow> u8 list \<Rightarrow> u8 list" where
  "command c rest = bytes16 c @ rest"

lemma command_received:
  assumes "length rest = 6"
  shows "take TCP_BUFF_SIZE (command c rest) = command c rest" "command c rest \<noteq> []"
    "usCmd (s_pCmdHead (command c rest @ buf)) = c"
  using assms le16_bytes [of c] by (auto simp: command_def bytes16_def s_pCmdHead_def TCP_BUFF_SIZE_def)

definition stop_labels :: "u32 list" where
  "stop_labels = [CSR_REC_EN, CSR_T_ACQ, CSR_T_DELTA, CSR_T_START]"

definition stop_script :: "(u32 \<times> u32) list" where
  "stop_script = [(CSR_REC_EN, 0), (CSR_T_ACQ, 0), (CSR_T_DELTA, 0), (CSR_T_START, 0)]"

lemma AcqStop_script: "csr (snd (AcqStop env s)) = run_script (csr_hw env) stop_script (csr s)"
  by (auto simp: AcqStop_def stop_script_def Let_def reg_set_def effect_def split: option.split)

lemma stop_script_reads:
  assumes "storage_for hw f (set stop_labels)"
  shows "reads hw (run_script hw stop_script f) stop_labels = [0, 0, 0, 0]"
proof -
  have ws: "fst ` set stop_script \<subseteq> set stop_labels" by (simp add: stop_script_def stop_labels_def)
  have r: "fst (RegRead (axi_csr_fops hw) (run_script hw stop_script f) l) = 0" if "l \<in> set stop_labels" for l
    using run_script_reads [OF assms ws that] that
    by (auto simp: stop_script_def stop_labels_def csr_label_defs)
  then show ?thesis by (simp add: reads_def stop_labels_def)
qed

text \<open>
  C29. The stop command does all it has to: \<^verbatim>\<open>App\<close> switches the receiver, the schedule and its start
  bit off, withdraws the ready flag so that no later data interrupt delivers anything, removes and
  closes the file of an acquisition to the card, and acknowledges with the stop code, length 0 and
  the reserved bytes of the request.
\<close>

theorem App_stops:
  assumes "app_ok s" "storage_for (csr_hw env) (csr s) (set stop_labels)" "length rest = 6"
  shows "\<exists>s'. App env (command ACQ_STOP_CMD rest) s = Inr (RET_OK, s')
    \<and> reads (csr_hw env) (csr s') stop_labels = [0, 0, 0, 0]
    \<and> s_ucIsReady s' = FALSE \<and> (\<forall>irq. DeliverData_s irq s' = Inr s')
    \<and> (s_uiSavePC s = 0 \<longrightarrow> s_pSdHPFd s' = None)
    \<and> effects s' = effects s
        @ (if s_uiSavePC s = 0 then (case s_pSdHPFd s of None \<Rightarrow> [] | Some path \<Rightarrow> [FileRemove path, FileClose path]) else [])
        @ [SendCmd (bytes16 ACQ_STOP_ACK @ [0, 0] @ drop 2 rest)]"
proof -
  let ?buf = "command ACQ_STOP_CMD rest @ drop (length (command ACQ_STOP_CMD rest)) (s_pTcpBuff s)"
  define t where "t = s\<lparr>s_pTcpBuff := ?buf\<rparr>"
  define u where "u = snd (AcqStop env t)"
  have ok: "cstr (s_SD_FILE_NAME s) = p" if "s_pSdHPFd s = Some p" for p
    using assms(1) that by (simp add: app_ok_def)
  have "GetCmdHandler (usCmd (s_pCmdHead ?buf)) = Some H_AcqStop"
    by (simp add: command_received [OF assms(3)] GetCmdHandler_def s_CmdHandler_def ACQ_START_CMD_def ACQ_STOP_CMD_def)
  then have a: "App env (command ACQ_STOP_CMD rest) s = Inr (RET_OK, effect [SendCmd (take (unat (s_uiTcpSendLen u)) (s_pTcpBuff u))] u)"
    by (simp add: App_def command_received [OF assms(3)] Let_def run_handler_def u_def t_def split_def)
  have b: "s_uiTcpSendLen u = 8" "s_pTcpBuff u = put_ack ACQ_STOP_ACK 0 ?buf" "s_ucIsReady u = FALSE"
    "s_uiSavePC s = 0 \<longrightarrow> s_pSdHPFd u = None"
    "effects u = effects s @ (if s_uiSavePC s = 0 then (case s_pSdHPFd s of None \<Rightarrow> [] | Some path \<Rightarrow> [FileRemove path, FileClose path]) else [])"
    using ok by (auto simp: u_def t_def AcqStop_def Let_def reg_set_def effect_def CMDHEADER_SIZE_def split: option.splits)
  have "take 8 (put_ack ACQ_STOP_ACK 0 ?buf) = bytes16 ACQ_STOP_ACK @ [0, 0] @ drop 2 rest"
    using assms(3) by (simp add: put_ack_def command_def bytes16_def)
  moreover have "reads (csr_hw env) (csr u) stop_labels = [0, 0, 0, 0]"
    using stop_script_reads [OF assms(2)] by (simp add: u_def AcqStop_script t_def)
  ultimately show ?thesis
    using a b by (auto simp: deliver_idle TRUE_def FALSE_def)
qed

lemma sample_stop_storage: "storage_for (csr_hw sample_app_env) (csr sample_app) (set stop_labels)"
  by (simp add: storage_for_def stop_labels_def csr_labels_def sample_app_env_def sample_app_def sample_csr_ready
      axi_csr_stable_def storage_at_bank_hw)

theorem App_stops_witness:
  "\<exists>s'. App sample_app_env (command ACQ_STOP_CMD [0, 0, 1, 2, 3, 4]) sample_app = Inr (RET_OK, s')
    \<and> effects s' = [SendCmd [0x04, 0x10, 0, 0, 1, 2, 3, 4]]"
  using App_stops [OF sample_app_ok sample_stop_storage, of "[0, 0, 1, 2, 3, 4]"]
  by (auto simp: sample_app_def bytes16_def ACQ_STOP_ACK_def)

text \<open>
  A command that is not known changes nothing but the buffer, and is answered with its own
  bytes: as many as the last acknowledgement had, and none before the first one.
\<close>

theorem App_unknown_echoes:
  assumes "length rest = 6" "c \<noteq> ACQ_START_CMD" "c \<noteq> ACQ_STOP_CMD" "app_ok s"
  shows "App env (command c rest) s = Inr (RET_OK, (effect
      [SendCmd (if s_uiTcpSendLen s = 0 then [] else command c rest)] s)
        \<lparr>s_pTcpBuff := command c rest @ drop 8 (s_pTcpBuff s)\<rparr>)"
proof -
  have "GetCmdHandler (usCmd (s_pCmdHead (command c rest @ buf))) = None" for buf
    using assms(2,3) by (simp add: command_received [OF assms(1)] GetCmdHandler_def s_CmdHandler_def)
  moreover have "length (command c rest) = 8" using assms(1) by (simp add: command_def bytes16_def)
  moreover have "s_uiTcpSendLen s = 0 \<or> s_uiTcpSendLen s = 8" using assms(4) by (simp add: app_ok_def CMDHEADER_SIZE_def)
  ultimately show ?thesis
    by (auto simp: App_def command_received [OF assms(1)] Let_def effect_def)
qed

theorem App_unknown_echoes_witness:
  "\<exists>s'. App sample_app_env (command 0x1005 [0, 0, 1, 2, 3, 4]) (sample_app\<lparr>s_uiTcpSendLen := 8\<rparr>) = Inr (RET_OK, s')
    \<and> effects s' = [SendCmd (command 0x1005 [0, 0, 1, 2, 3, 4])]"
proof -
  have "app_ok (sample_app\<lparr>s_uiTcpSendLen := 8\<rparr>)"
    using sample_app_ok by (simp add: app_ok_def CMDHEADER_SIZE_def)
  from App_unknown_echoes [OF _ _ _ this, of "[0, 0, 1, 2, 3, 4]" "0x1005"] show ?thesis
    by (simp add: ACQ_START_CMD_def ACQ_STOP_CMD_def sample_app_def effect_def)
qed

section \<open>The pulse per second\<close>

lemma dec_nat_length_le: "\<lbrakk>n < 10 ^ k; 0 < k\<rbrakk> \<Longrightarrow> length (dec_nat n) \<le> k"
proof (induction n arbitrary: k rule: dec_nat.induct)
  case (1 n)
  show ?case
  proof (cases "n < 10")
    case True
    then show ?thesis using "1.prems" by (subst dec_nat.simps) simp
  next
    case False
    then obtain k' where k: "k = Suc k'" "0 < k'"
      using "1.prems" by (cases k; cases "k - 1") auto
    with "1.prems" have "n div 10 < 10 ^ k'" by (simp add: less_mult_imp_div_less mult.commute)
    from "1.IH" [OF False this k(2)] False k(1) show ?thesis by (subst dec_nat.simps) simp
  qed
qed

lemma dec_nat_length_gt: "10 ^ k \<le> n \<Longrightarrow> k < length (dec_nat n)"
proof (induction n arbitrary: k rule: dec_nat.induct)
  case (1 n)
  show ?case
  proof (cases "n < 10")
    case True
    then have "(10::nat) ^ k < 10 ^ 1" using "1.prems" by simp
    then have "k = 0" using power_less_imp_less_exp [of "10::nat" k 1] by simp
    then show ?thesis using True by (subst dec_nat.simps) simp
  next
    case False
    show ?thesis
    proof (cases k)
      case 0
      then show ?thesis using False by (subst dec_nat.simps) simp
    next
      case (Suc k')
      with "1.prems" have "10 ^ k' \<le> n div 10" by (simp add: less_eq_div_iff_mult_less_eq mult.commute)
      from "1.IH" [OF False this] False Suc show ?thesis by (subst dec_nat.simps) simp
    qed
  qed
qed

lemma sd_file_name_length:
  assumes "w < 2 ^ 31"
  shows "length (sd_file_name d w) \<le> length d + 23" "10 ^ 9 \<le> unat w \<Longrightarrow> length (sd_file_name d w) = length d + 23"
proof -
  have p: "printf_d w = dec_nat (unat w)" using sint_below [OF assms] by (simp add: printf_d_def)
  have "unat w < 10 ^ 10" using assms by (simp add: word_less_nat_alt)
  then have le: "length (dec_nat (unat w)) \<le> 10" by (rule dec_nat_length_le) simp
  then show "length (sd_file_name d w) \<le> length d + 23" by (simp add: sd_file_name_def p)
  assume "10 ^ 9 \<le> unat w"
  from dec_nat_length_gt [OF this] le show "length (sd_file_name d w) = length d + 23"
    by (simp add: sd_file_name_def p)
qed

text \<open>
  C38. The name of the data file does not fit its buffer of 32 bytes: with a directory of more than 8
  characters, at any time from September 2001 to January 2038, the first pulse after a start command
  writes past it.
\<close>

theorem MesgThread_file_name_overruns:
  assumes "app_ok s" "s_uiSavePC s = 0" "8 < length (cstr (s_SdDataDIR s))" "10 ^ 9 \<le> unat (now env)" "now env < 2 ^ 31"
  shows "MesgThread_round env 1 s = Inl OutOfBounds"
proof -
  define t where "t = s\<lparr>s_ucIntHappend := 1, s_ucIsReady := TRUE, s_uiFlag := 0, s_ulTotalLen := 0, s_uiCheck := 1\<rparr>"
  have "length (sd_file_name (cstr (s_SdDataDIR s)) (now env)) = length (cstr (s_SdDataDIR s)) + 23"
    using sd_file_name_length(2) [OF assms(5,4)] .
  then have "\<not> length (sd_file_name (cstr (s_SdDataDIR s)) (now env)) < 32" using assms(3) by simp
  moreover have "length (s_SD_FILE_NAME s) = 32" using assms(1) by (simp add: app_ok_def)
  ultimately have "open_sd_file env t = Inl OutOfBounds"
    by (cases "s_pSdHPFd s") (simp_all add: open_sd_file_def t_def Let_def need_def effect_def)
  then show ?thesis
    unfolding MesgThread_round_def Let_def t_def [symmetric] using assms(2) by (simp add: t_def)
qed

theorem MesgThread_file_name_overruns_witness:
  "MesgThread_round (sample_app_env\<lparr>now := 1400000000\<rparr>) 1
     (sample_app\<lparr>s_SdDataDIR := ''recordings'' @ replicate 54 NUL\<rparr>) = Inl OutOfBounds"
proof (rule MesgThread_file_name_overruns)
  show "app_ok (sample_app\<lparr>s_SdDataDIR := ''recordings'' @ replicate 54 NUL\<rparr>)"
    using sample_app_ok by (simp add: app_ok_def)
qed (simp_all add: sample_app_def cstr_def)

text \<open>A pulse with a short directory name and a working card.\<close>

lemma MesgThread_round_starts:
  assumes "app_ok s" "s_uiSavePC s \<noteq> 0 \<or> length (cstr (s_SdDataDIR s)) \<le> 8 \<and> (\<forall>p. fopen_ok env p)" "now env < 2 ^ 31"
  shows "\<exists>s'. MesgThread_round env 1 s = Inr s' \<and> s_ucIsReady s' = TRUE \<and> sink_ok s' \<and> s_uiFlag s' = 0
    \<and> s_ulTotalLen s' = 0 \<and> s_ulSampleLength s' = s_ulSampleLength s \<and> s_puiAddr_A s' = s_puiAddr_A s
    \<and> s_puiAddr_B s' = s_puiAddr_B s \<and> stream_of (effects s') = stream_of (effects s)"
proof (cases "s_uiSavePC s = 0")
  case False
  then show ?thesis by (simp add: MesgThread_round_def sink_ok_def effect_def)
next
  case True
  with assms(2) have a: "length (cstr (s_SdDataDIR s)) \<le> 8" "\<forall>p. fopen_ok env p" by auto
  define t where "t = s\<lparr>s_ucIntHappend := 1, s_ucIsReady := TRUE, s_uiFlag := 0, s_ulTotalLen := 0, s_uiCheck := 1\<rparr>"
  define path where "path = sd_file_name (cstr (s_SdDataDIR s)) (now env)"
  have l: "length path < 32"
    using sd_file_name_length(1) [OF assms(3), of "cstr (s_SdDataDIR s)"] a(1) by (simp add: path_def)
  have n: "length (s_SD_FILE_NAME s) = 32" using assms(1) by (simp add: app_ok_def)
  obtain u where u: "open_sd_file env t = Inr u" "s_ucIsReady u = TRUE" "sink_ok u" "s_uiFlag u = 0" "s_ulTotalLen u = 0"
    "s_ulSampleLength u = s_ulSampleLength s" "s_puiAddr_A u = s_puiAddr_A s" "s_puiAddr_B u = s_puiAddr_B s"
    "stream_of (effects u) = stream_of (effects s)"
    using l n a(2) by (cases "s_pSdHPFd s")
      (simp_all add: open_sd_file_def t_def Let_def effect_def path_def [symmetric] sink_ok_def)
  have "MesgThread_round env 1 s = Inr (effect [SendMesg GpsTimeMesg 68 (gps_info env)] u)"
    unfolding MesgThread_round_def Let_def t_def [symmetric] using True u(1) by (simp add: t_def)
  with u show ?thesis by (simp add: sink_ok_def)
qed

section \<open>A whole acquisition\<close>

lemma windows_cong:
  "\<lbrakk>s_uiFlag s = s_uiFlag t; s_puiAddr_A s = s_puiAddr_A t; s_puiAddr_B s = s_puiAddr_B t\<rbrakk> \<Longrightarrow> windows s n = windows t n"
  by (induction n) (auto simp: window_def)

lemma App_starts:
  assumes "Configuration env (s\<lparr>s_pTcpBuff := command ACQ_START_CMD rest @ drop 8 (s_pTcpBuff s)\<rparr>) = Inr (r, t)"
    "app_ok s" "length rest = 6"
  shows "\<exists>s'. App env (command ACQ_START_CMD rest) s = Inr (RET_OK, s')
    \<and> effects s' = effects s @ [SendCmd (bytes16 ACQ_START_ACK @ [0, 0] @ drop 2 rest)]
    \<and> csr s' = run_script (csr_hw env) [(CSR_REC_EN, 1)] (csr t)
    \<and> s_uiSavePC s' = s_uiSavePC t \<and> s_SdDataDIR s' = s_SdDataDIR t \<and> s_ulSampleLength s' = s_ulSampleLength t
    \<and> s_puiAddr_A s' = s_puiAddr_A s \<and> s_puiAddr_B s' = s_puiAddr_B s \<and> s_pSdHPFd s' = s_pSdHPFd t"
proof -
  let ?buf = "command ACQ_START_CMD rest @ drop 8 (s_pTcpBuff s)"
  have l: "length (command ACQ_START_CMD rest) = 8" using assms(3) by (simp add: command_def bytes16_def)
  have ok: "app_ok (s\<lparr>s_pTcpBuff := ?buf\<rparr>)" using assms(2) l by (simp add: app_ok_def TCP_BUFF_SIZE_def)
  note f = Configuration_shape [OF assms(1) ok]
  define u where "u = (reg_set (csr_hw env) CSR_REC_EN 1 (t\<lparr>s_uiFlag := 0\<rparr>))
    \<lparr>s_pTcpBuff := put_ack ACQ_START_ACK 0 ?buf, s_uiTcpSendLen := CMDHEADER_SIZE\<rparr>"
  have "AcqStart env (s\<lparr>s_pTcpBuff := ?buf\<rparr>) = Inr (RET_OK, u)"
    using assms(1) f by (simp add: AcqStart_def u_def same_rest_def reg_set_def Let_def)
  moreover have "GetCmdHandler (usCmd (s_pCmdHead ?buf)) = Some H_AcqStart"
    by (simp add: command_received [OF assms(3)] GetCmdHandler_def s_CmdHandler_def)
  ultimately have a: "App env (command ACQ_START_CMD rest) s =
      Inr (RET_OK, effect [SendCmd (take (unat (s_uiTcpSendLen u)) (s_pTcpBuff u))] u)"
    by (simp add: App_def command_received [OF assms(3)] Let_def run_handler_def l)
  have "take 8 (put_ack ACQ_START_ACK 0 ?buf) = bytes16 ACQ_START_ACK @ [0, 0] @ drop 2 rest"
    using assms(3) by (simp add: put_ack_def command_def bytes16_def)
  then show ?thesis
    using a f by (auto simp: u_def effect_def CMDHEADER_SIZE_def same_rest_def reg_set_def)
qed

lemma App_stop_same:
  assumes "length rest = 6" "app_ok s"
  shows "\<exists>t fs. App env (command ACQ_STOP_CMD rest) s = Inr (RET_OK, t) \<and> s_SdDataDIR t = s_SdDataDIR s
    \<and> s_ucIsReady t = FALSE \<and> effects t = effects s @ fs @ [SendCmd (bytes16 ACQ_STOP_ACK @ [0, 0] @ drop 2 rest)]"
proof -
  have "ACQ_STOP_CMD \<noteq> ACQ_START_CMD" by (simp add: ACQ_STOP_CMD_def ACQ_START_CMD_def)
  moreover have "take 8 (put_ack ACQ_STOP_ACK 0 (command ACQ_STOP_CMD rest @ buf)) = bytes16 ACQ_STOP_ACK @ [0, 0] @ drop 2 rest" for buf
    using assms(1) by (simp add: put_ack_def command_def bytes16_def)
  ultimately show ?thesis
    using command_received [OF assms(1), of ACQ_STOP_CMD]
    by (auto simp: App_def GetCmdHandler_def s_CmdHandler_def run_handler_def AcqStop_def reg_set_def effect_def Let_def
        CMDHEADER_SIZE_def split: option.split)
qed

lemma App_starts_ready:
  assumes "App env (command ACQ_START_CMD rest) s = Inr (r, s')" "app_ok s" "length rest = 6"
  shows "s_ucIsReady s' = s_ucIsReady s"
proof -
  let ?buf = "command ACQ_START_CMD rest @ drop 8 (s_pTcpBuff s)"
  have l: "length (command ACQ_START_CMD rest) = 8" using assms(3) by (simp add: command_def bytes16_def)
  have ok: "app_ok (s\<lparr>s_pTcpBuff := ?buf\<rparr>)" using assms(2) l by (simp add: app_ok_def TCP_BUFF_SIZE_def)
  have "GetCmdHandler (usCmd (s_pCmdHead ?buf)) = Some H_AcqStart"
    by (simp add: command_received [OF assms(3)] GetCmdHandler_def s_CmdHandler_def)
  then obtain q u where u: "AcqStart env (s\<lparr>s_pTcpBuff := ?buf\<rparr>) = Inr (q, u)"
    "s' = effect [SendCmd (take (unat (s_uiTcpSendLen u)) (s_pTcpBuff u))] u"
    using assms(1) by (auto simp: App_def command_received [OF assms(3)] Let_def run_handler_def l andThen_Inr_iff)
  from u(1) obtain p t where "Configuration env (s\<lparr>s_pTcpBuff := ?buf\<rparr>) = Inr (p, t)" "s_ucIsReady u = s_ucIsReady t"
    by (auto simp: AcqStart_def andThen_Inr_iff Let_def reg_set_def)
  with Configuration_shape [OF this(1) ok] u(2) show ?thesis by (simp add: same_rest_def)
qed

end
