(* ===== verification/AppAverage.thy ===== *)
theory AppAverage
  imports AppDeliver
begin

text \<open>
  What \<^verbatim>\<open>GetAverage\<close> of \<^verbatim>\<open>app.c\<close> computes: the sum in 64 bits never overflows, and the quotient is the mean
  of the samples as signed numbers, rounded towards 0 as in C.
\<close>

section \<open>The average\<close>

lemma sdiv_between:
  fixes t n lo hi :: int
  assumes "0 < n" "lo * n \<le> t" "t \<le> hi * n" "lo \<le> 0" "0 \<le> hi"
  shows "lo \<le> t sdiv n \<and> t sdiv n \<le> hi"
proof (cases "0 \<le> t")
  case True
  then have "t sdiv n = t div n" using assms(1) by (cases "t = 0") (simp_all add: signed_divide_int_def)
  moreover have "t div n \<le> hi" using assms(1,3) by (metis div_mult_self_is_m less_le zdiv_mono1 mult.commute nonzero_mult_div_cancel_right)
  moreover have "0 \<le> t div n" using True assms(1) by (simp add: pos_imp_zdiv_nonneg_iff)
  ultimately show ?thesis using assms(4) by simp
next
  case False
  then have "t sdiv n = - ((- t) div n)" using assms(1) by (simp add: signed_divide_int_def)
  moreover have "(- t) div n \<le> - lo"
  proof -
    have "- t \<le> (- lo) * n" using assms(2) by simp
    then have "(- t) div n \<le> ((- lo) * n) div n" using assms(1) by (intro zdiv_mono1)
    then show ?thesis using assms(1) by (simp only: nonzero_mult_div_cancel_right [of n "- lo"])
  qed
  moreover have "0 \<le> (- t) div n" using False assms(1) by (simp add: pos_imp_zdiv_nonneg_iff)
  ultimately show ?thesis using assms(5) by simp
qed

lemma sint_word32: "- (2 ^ 31) \<le> sint w \<and> sint w < 2 ^ 31" for w :: u32
  using sint_lt [of w] sint_ge [of w] by simp

lemma sum_sint_bounds:
  "- (2 ^ 31) * int (length ws) \<le> (\<Sum>w\<leftarrow>ws. sint w) \<and> (\<Sum>w\<leftarrow>ws. sint w) \<le> (2 ^ 31 - 1) * int (length ws)" for ws :: "u32 list"
proof (induction ws)
  case (Cons w ws)
  then show ?case using sint_word32 [of w] by (simp add: algebra_simps)
qed simp

lemma scast_sint: "(scast w :: u64) = word_of_int (sint w)" for w :: u32
  by (rule scast_eq)

lemma average_total:
  assumes "n \<le> length Data" "n < 2 ^ 32"
  shows "fold (\<lambda>k r. andThen r (\<lambda>t :: u64. need (unat (of_nat k :: u32) < length Data) OutOfBounds
      (Inr (t + scast (Data ! unat (of_nat k :: u32)))))) [0..<n] (Inr 0)
    = Inr (word_of_int (\<Sum>w\<leftarrow>take n Data. sint w))"
  using assms
proof (induction n)
  case (Suc n)
  have "unat (of_nat n :: u32) = n" using Suc.prems(2) by (simp add: unat_of_nat take_bit_nat_eq_self)
  with Suc show ?case by (simp add: need_def scast_sint take_Suc_conv_app_nth)
qed simp

text \<open>
  The mean of a buffer, which the application exports (the polling delivery itself calls \<^verbatim>\<open>GetAverageUnit\<close>).
  For any buffer of at least one sample \<^verbatim>\<open>GetAverage\<close> returns exactly the sum of its samples, read as signed 32-bit numbers, divided by their number and
  rounded towards 0: neither the 64-bit sum nor the conversion of the quotient to 32 bits loses anything.
\<close>

theorem GetAverage_mean:
  assumes "4 \<le> len" "unat len div 4 \<le> length Data"
  shows "\<exists>r. GetAverage Data len = Inr r \<and>
    sint r = (\<Sum>w\<leftarrow>take (unat len div 4) Data. sint w) sdiv int (unat len div 4)"
proof -
  define n where "n = unat len div 4"
  define t where "t = (\<Sum>w\<leftarrow>take n Data. sint w)"
  have u: "unat (len div 4) = n" by (simp add: n_def unat_div)
  have "unat len < 2 ^ LENGTH(32)" by (rule unsigned_less)
  then have n: "0 < n" "n < 2 ^ 30" "n \<le> length Data"
    using assms by (auto simp: n_def word_le_nat_alt)
  have b: "- (2 ^ 31) * int n \<le> t" "t \<le> (2 ^ 31 - 1) * int n"
    using sum_sint_bounds [of "take n Data"] n(3) by (simp_all add: t_def)
  have b': "- (2 ^ 63) \<le> t" "t < 2 ^ 63" using b n(2) by simp_all
  have st: "sint (word_of_int t :: u64) = t" using b' by (simp add: signed_take_bit_int_eq_self_iff sint_sbintrunc')
  have sn: "sint (ucast (len div 4) :: u64) = int n"
  proof -
    have "uint (len div 4) = int n" using u by (simp add: uint_nat)
    with n(2) show ?thesis by (simp add: sint_uint unsigned_ucast_eq signed_take_bit_int_eq_self_iff take_bit_int_eq_self)
  qed
  have q: "- (2 ^ 31) \<le> t sdiv int n \<and> t sdiv int n \<le> 2 ^ 31 - 1"
    using n(1) b by (intro sdiv_between) auto
  have "len div 4 \<noteq> 0" using u n(1) by auto
  then have "GetAverage Data len = Inr (ucast (word_of_int (t sdiv int n) :: u64))"
    using average_total [of n Data] n by (simp add: GetAverage_def for_word_0 u Let_def t_def [symmetric] st sn)
  moreover have "sint (ucast (word_of_int (t sdiv int n) :: u64) :: u32) = t sdiv int n"
  proof -
    have "(ucast (word_of_int (t sdiv int n) :: u64) :: u32) = word_of_int (t sdiv int n)"
      by (intro bit_word_eqI) (simp add: bit_ucast_iff bit_simps)
    with q show ?thesis by (simp add: signed_of_int signed_take_bit_int_eq_self_iff)
  qed
  ultimately show ?thesis by (simp add: n_def t_def)
qed

theorem GetAverage_mean_witness:
  "\<exists>r. GetAverage [5, -10, 2, 0] 16 = Inr r \<and> sint r = 0"
  using GetAverage_mean [of 16 "[5, -10, 2, 0]"] by (simp add: signed_divide_int_def)

end
