(* ===== verification/Threads.thy ===== *)
theory Threads
  imports AppSpec
begin

text \<open>
  The threads of the application at the level of single statements. The main thread and \<^verbatim>\<open>MesgThread\<close>
  share the static variables of \<^verbatim>\<open>app.c\<close> without a lock, so that between two statements of one of them the
  other can run. A round of a thread is a program whose atoms are the statements of the C code that
  touch shared variables; conditions are evaluated where the code evaluates them. Programs run alone
  are the rounds of \<open>AppDeliver\<close> and \<open>AppCmd\<close>.
\<close>

section \<open>Statements\<close>

datatype 's prog = Finished | Atom "'s \<Rightarrow> 's res" "'s prog" | Branch "'s \<Rightarrow> bool" "'s prog" "'s prog"

text \<open>
  The meaning of a program that runs alone, and one step of it.
\<close>

primrec run_prog :: "'s prog \<Rightarrow> 's \<Rightarrow> 's res" where
  "run_prog Finished s = Inr s"
| "run_prog (Atom f p) s = andThen (f s) (run_prog p)"
| "run_prog (Branch b p q) s = (if b s then run_prog p s else run_prog q s)"

fun next_stmt :: "'s prog \<Rightarrow> 's \<Rightarrow> ('s prog \<times> 's) res" where
  "next_stmt Finished s = Inr (Finished, s)"
| "next_stmt (Atom f p) s = andThen (f s) (\<lambda>s. Inr (p, s))"
| "next_stmt (Branch b p q) s = Inr (if b s then p else q, s)"

definition assign :: "('s \<Rightarrow> 's) \<Rightarrow> 's prog \<Rightarrow> 's prog" where
  "assign f p = Atom (\<lambda>s. Inr (f s)) p"

section \<open>Two threads\<close>

datatype thread = Main | Mesg

text \<open>
  Two threads over one state: a schedule says which thread takes the next step. \<open>threads_reach\<close> are the
  configurations of threads that start a new round when the old one is finished; \<open>A\<close> and \<open>B\<close> say which
  programs a round of either may be.
\<close>

fun schedule :: "thread list \<Rightarrow> 's prog \<times> 's prog \<times> 's \<Rightarrow> ('s prog \<times> 's prog \<times> 's) res" where
  "schedule [] c = Inr c"
| "schedule (Main # ts) (p, q, s) = andThen (next_stmt p s) (\<lambda>(p, s). schedule ts (p, q, s))"
| "schedule (Mesg # ts) (p, q, s) = andThen (next_stmt q s) (\<lambda>(q, s). schedule ts (p, q, s))"

inductive threads_reach :: "('s prog \<Rightarrow> bool) \<Rightarrow> ('s prog \<Rightarrow> bool) \<Rightarrow> 's \<Rightarrow> 's prog \<times> 's prog \<times> 's \<Rightarrow> bool"
  for A B s0 where
  reach_start: "threads_reach A B s0 (Finished, Finished, s0)"
| reach_main: "\<lbrakk>threads_reach A B s0 (p, q, s); next_stmt p s = Inr (p', s')\<rbrakk> \<Longrightarrow> threads_reach A B s0 (p', q, s')"
| reach_mesg: "\<lbrakk>threads_reach A B s0 (p, q, s); next_stmt q s = Inr (q', s')\<rbrakk> \<Longrightarrow> threads_reach A B s0 (p, q', s')"
| reach_main_round: "\<lbrakk>threads_reach A B s0 (Finished, q, s); A p\<rbrakk> \<Longrightarrow> threads_reach A B s0 (p, q, s)"
| reach_mesg_round: "\<lbrakk>threads_reach A B s0 (p, Finished, s); B q\<rbrakk> \<Longrightarrow> threads_reach A B s0 (p, q, s)"

text \<open>
  An invariant of the state that every statement of a program keeps, and under which none faults,
  whatever the other thread does in between. A branch that the invariant excludes does not count.
\<close>

primrec keeps :: "('s \<Rightarrow> bool) \<Rightarrow> 's prog \<Rightarrow> bool" where
  "keeps I Finished = True"
| "keeps I (Atom f p) = ((\<forall>s. I s \<longrightarrow> (\<exists>s'. f s = Inr s' \<and> I s')) \<and> keeps I p)"
| "keeps I (Branch b p q) = (((\<exists>s. I s \<and> b s) \<longrightarrow> keeps I p) \<and> ((\<exists>s. I s \<and> \<not> b s) \<longrightarrow> keeps I q))"

lemma keeps_assign [simp]: "keeps I (assign f p) = ((\<forall>s. I s \<longrightarrow> I (f s)) \<and> keeps I p)"
  by (simp add: assign_def)

lemma keeps_next: "\<lbrakk>keeps I p; I s\<rbrakk> \<Longrightarrow> \<exists>p' s'. next_stmt p s = Inr (p', s') \<and> keeps I p' \<and> I s'"
  by (cases p) (auto simp: andThen_Inr_iff)

lemma keeps_AtomI: "\<lbrakk>\<And>s. I s \<Longrightarrow> \<exists>t. f s = Inr t \<and> I t; keeps I p\<rbrakk> \<Longrightarrow> keeps I (Atom f p)"
  by simp

lemma keeps_assignI: "\<lbrakk>\<And>s. I s \<Longrightarrow> I (f s); keeps I p\<rbrakk> \<Longrightarrow> keeps I (assign f p)"
  by simp

lemma keeps_run: "\<lbrakk>keeps I p; I s\<rbrakk> \<Longrightarrow> \<exists>t. run_prog p s = Inr t \<and> I t"
proof (induction p arbitrary: s)
  case (Atom f p)
  then obtain t where "f s = Inr t" "I t" "keeps I p" by auto
  with Atom.IH show ?case by simp
next
  case (Branch b p q)
  then show ?case by (cases "b s") auto
qed simp

text \<open>
  Two threads that respect a common invariant: it holds in every configuration and no statement faults.
\<close>

locale two_threads =
  fixes A B :: "'s prog \<Rightarrow> bool" and I :: "'s \<Rightarrow> bool"
  assumes keeps_main: "A p \<Longrightarrow> keeps I p"
    and keeps_mesg: "B p \<Longrightarrow> keeps I p"
begin

lemma reach_inv:
  assumes "threads_reach A B s0 c" "I s0"
  shows "keeps I (fst c) \<and> keeps I (fst (snd c)) \<and> I (snd (snd c))"
  using assms(1)
proof (induction rule: threads_reach.induct)
  case (reach_main p q s p' s')
  then show ?case using keeps_next [of I p s] by auto
next
  case (reach_mesg p q s q' s')
  then show ?case using keeps_next [of I q s] by auto
qed (use assms(2) keeps_main keeps_mesg in auto)

lemma never_stuck:
  assumes "threads_reach A B s0 (p, q, s)" "I s0"
  shows "I s \<and> (\<exists>c. next_stmt p s = Inr c) \<and> (\<exists>c. next_stmt q s = Inr c)"
  using reach_inv [OF assms] keeps_next [of I p s] keeps_next [of I q s] by auto

end

section \<open>The threads of the application\<close>

definition bytes_left :: "app_state \<Rightarrow> u64" where
  "bytes_left s = s_ulSampleLength s - s_ulTotalLen s"

text \<open>
  \<^verbatim>\<open>send\<close> and \<^verbatim>\<open>fwrite\<close> of a span whose offset and length are computed when the call is made.
\<close>

definition send_data :: "(app_state \<Rightarrow> u32) \<Rightarrow> (app_state \<Rightarrow> u64) \<Rightarrow> app_state prog \<Rightarrow> app_state prog" where
  "send_data off len = assign (\<lambda>s. effect [SendData (s_puiAddr s) (off s) (ucast (len s))] s)"

definition write_data :: "(app_state \<Rightarrow> u64) \<Rightarrow> app_state prog \<Rightarrow> app_state prog" where
  "write_data len = Atom (\<lambda>s. fwrite_sd (len s) s)"

text \<open>
  What follows the transfer: the end of the acquisition, or the count of a full window.
\<close>

definition end_acquisition :: "app_state prog" where
  "end_acquisition = assign (\<lambda>s. s\<lparr>s_ucDeliveredDone := 1\<rparr>) (assign (\<lambda>s. s\<lparr>s_ucIsReady := FALSE\<rparr>) Finished)"

definition end_window :: "app_state prog" where
  "end_window = assign (\<lambda>s. s\<lparr>s_ulTotalLen := s_ulTotalLen s + BRAM_SIZE\<rparr>) Finished"

definition deliver_stmts :: "app_state prog" where
  "deliver_stmts =
     Branch (\<lambda>s. bytes_left s \<le> PACKAGE_SIZE)
       (Branch (\<lambda>s. s_uiSavePC s = 0) (write_data bytes_left end_acquisition)
         (send_data (\<lambda>_. 0) bytes_left end_acquisition))
       (Branch (\<lambda>s. bytes_left s \<le> BRAM_SIZE)
         (Branch (\<lambda>s. s_uiSavePC s = 0) (write_data bytes_left end_acquisition)
           (send_data (\<lambda>_. 0) (\<lambda>_. PACKAGE_SIZE)
             (send_data (\<lambda>_. ucast PACKAGE_SIZE) (\<lambda>s. bytes_left s - PACKAGE_SIZE) end_acquisition)))
         (Branch (\<lambda>s. s_uiSavePC s = 0) (write_data (\<lambda>_. BRAM_SIZE) end_window)
           (send_data (\<lambda>_. 0) (\<lambda>_. PACKAGE_SIZE)
             (send_data (\<lambda>_. ucast PACKAGE_SIZE) (\<lambda>_. PACKAGE_SIZE) end_window))))"

text \<open>
  \<^verbatim>\<open>DeliverData_s\<close> after its read has returned 1.
\<close>

definition DeliverData_prog :: "app_state prog" where
  "DeliverData_prog =
     Branch (\<lambda>s. s_ucIsReady s = TRUE)
       (assign (\<lambda>s. s\<lparr>s_uiFlag := s_uiFlag s + 1\<rparr>)
         (Branch (\<lambda>s. s_uiFlag s mod 2 = 1)
           (assign (\<lambda>s. s\<lparr>s_puiAddr := s_puiAddr_A s\<rparr>) deliver_stmts)
           (assign (\<lambda>s. s\<lparr>s_puiAddr := s_puiAddr_B s\<rparr>) deliver_stmts)))
       Finished"

text \<open>
  The statements of \<^verbatim>\<open>MesgThread\<close> on the data file. A stream that is closed but not yet set to null is
  still in \<open>s_pSdHPFd\<close>; that it is closed is visible in the effects.
\<close>

definition close_sd :: "app_state \<Rightarrow> app_state res" where
  "close_sd s = (case s_pSdHPFd s of None \<Rightarrow> Inl NullPointer | Some old \<Rightarrow> Inr (effect [FileClose old] s))"

definition print_name :: "app_env \<Rightarrow> app_state \<Rightarrow> app_state res" where
  "print_name env s =
     (let path = sd_file_name (cstr (s_SdDataDIR s)) (now env) in
      need (length path < length (s_SD_FILE_NAME s)) OutOfBounds
        (Inr (s\<lparr>s_SD_FILE_NAME := path @ NUL # drop (length path + 1) (s_SD_FILE_NAME s)\<rparr>)))"

definition open_sd :: "app_env \<Rightarrow> app_state \<Rightarrow> app_state" where
  "open_sd env s =
     (let path = cstr (s_SD_FILE_NAME s) in
      if fopen_ok env path then (effect [FileOpen path] s)\<lparr>s_pSdHPFd := Some path\<rparr> else s\<lparr>s_pSdHPFd := None\<rparr>)"

definition write_config :: "app_state \<Rightarrow> app_state res" where
  "write_config s =
     (case s_pSdHPFd s of None \<Rightarrow> Inl NullPointer
      | Some path \<Rightarrow> Inr (effect [FileWriteConfig path (s_puiConfigBuf s)] s))"

definition send_mesg :: "app_env \<Rightarrow> app_state prog" where
  "send_mesg env = assign (effect [SendMesg GpsTimeMesg 68 (gps_info env)]) Finished"

definition open_stmts :: "app_env \<Rightarrow> app_state prog" where
  "open_stmts env = Atom (print_name env) (assign (open_sd env) (Atom write_config (send_mesg env)))"

text \<open>
  \<^verbatim>\<open>MesgThread\<close> after its read has returned 1.
\<close>

definition MesgThread_prog :: "app_env \<Rightarrow> app_state prog" where
  "MesgThread_prog env =
     assign (\<lambda>s. s\<lparr>s_ucIntHappend := 1\<rparr>)
       (assign (\<lambda>s. s\<lparr>s_ucIsReady := TRUE\<rparr>)
         (assign (\<lambda>s. s\<lparr>s_uiFlag := 0\<rparr>)
           (assign (\<lambda>s. s\<lparr>s_ulTotalLen := 0\<rparr>)
             (assign (\<lambda>s. s\<lparr>s_uiCheck := 1\<rparr>)
               (Branch (\<lambda>s. s_uiSavePC s = 0)
                 (Branch (\<lambda>s. s_pSdHPFd s \<noteq> None)
                   (Atom close_sd (assign (\<lambda>s. s\<lparr>s_pSdHPFd := None\<rparr>) (open_stmts env)))
                   (open_stmts env))
                 (send_mesg env))))))"

text \<open>
  \<^verbatim>\<open>Configuration\<close>, with what follows it. Local variables are computed without a statement of their own, and faults
  where the code computes them. A register write is one statement, as is the transfer to the code memory: only the main
  thread has their devices. The words of the settings are stored one by one; \<open>dir_words\<close> is the size of the
  directory name in words.
\<close>

definition compute :: "'a res \<Rightarrow> ('a \<Rightarrow> 's prog) \<Rightarrow> 's prog" where
  "compute x k = (case x of Inl e \<Rightarrow> Atom (\<lambda>_. Inl e) Finished | Inr y \<Rightarrow> k y)"

definition new_dir :: "app_env \<Rightarrow> app_state \<Rightarrow> app_state res" where
  "new_dir env s =
     andThen (read_profile_string (ini_files env) ''Coinfiguration'' ''DataDirectory'' (s_SdDataDIR s)
                (int (length (s_SdDataDIR s))) None ''Configuration.ini'') (\<lambda>(diReadCheck, dir).
     andThen (CreateDir (access_ok env) (mkdir_ok env) (cstr dir) (made s)) (\<lambda>(creatDirCheck, ds).
       Inr (s\<lparr>s_SdDataDIR := dir, made := ds\<rparr>)))"

definition dir_words :: "app_state \<Rightarrow> nat" where
  "dir_words s = length (s_SdDataDIR s) div 4"

definition put_words :: "nat \<Rightarrow> u32 list \<Rightarrow> app_state \<Rightarrow> app_state" where
  "put_words i ws s =
     s\<lparr>s_puiConfigBuf := take i (s_puiConfigBuf s) @ ws @ drop (i + length ws) (s_puiConfigBuf s)\<rparr>"

fun store_words :: "nat \<Rightarrow> u32 list \<Rightarrow> app_state prog \<Rightarrow> app_state prog" where
  "store_words k [] p = p"
| "store_words k (w # ws) p = assign (\<lambda>s. put_words (2 + dir_words s + k) [w] s) (store_words (Suc k) ws p)"

definition buf_more :: "config \<Rightarrow> app_state prog \<Rightarrow> app_state prog" where
  "buf_more c p =
     assign (put_words 1 [word_of_int (SyncMode c)])
       (assign (\<lambda>s. put_words 2 (words_of (s_SdDataDIR s)) s)
         (store_words 0 (map word_of_int [FullScalRange c, InputSource c, LpfFilter c, AdcSamplingRates c, ImpulseWidth c,
             SequenceLength c, GenerationPolymerization c, InitialValue c])
           (assign (\<lambda>s. put_words (2 + dir_words s + 8) [s_uiSavePC s] s) p)))"

definition buf_stmts :: "config \<Rightarrow> app_state prog \<Rightarrow> app_state prog" where
  "buf_stmts c p = assign (put_words 0 [word_of_int (WorkMode c)]) (buf_more c p)"

definition set_reg :: "app_env \<Rightarrow> u32 \<Rightarrow> u32 \<Rightarrow> app_state prog \<Rightarrow> app_state prog" where
  "set_reg env l v = assign (reg_set (csr_hw env) l v)"

definition schedule_stmts :: "app_env \<Rightarrow> config \<Rightarrow> app_state prog \<Rightarrow> app_state prog" where
  "schedule_stmts env c p =
     compute (acq_period c) (\<lambda>t3. compute (acq_delta t3 (now env)) (\<lambda>tDelta.
       set_reg env CSR_T_ACQ t3 (set_reg env CSR_T_DELTA tDelta (set_reg env CSR_T_START 1 p))))"

definition control_stmts :: "app_env \<Rightarrow> config \<Rightarrow> app_state prog \<Rightarrow> app_state prog" where
  "control_stmts env c p =
     set_reg env CSR_INPUT_SEL (word_of_int (GetRealData s_InputSouce (InputSource c)))
       (set_reg env CSR_TRANS_EN (word_of_int (GetRealData s_WorkMode (WorkMode c)))
         (set_reg env CSR_SYNC_MODE (word_of_int (GetRealData s_SyncMode (SyncMode c)))
           (set_reg env CSR_FLL_SCALE_SET (word_of_int (GetRealData s_FullRange (FullScalRange c)))
             (set_reg env CSR_FLT_SEL (word_of_int (GetRealData s_Filter (LpfFilter c)))
               (Atom (\<lambda>s. andThen (SetSampleRate (csr_hw env) (word_of_int (AdcSamplingRates c)) (csr s)) (\<lambda>(_, fd). Inr (s\<lparr>csr := fd\<rparr>)))
                 (set_reg env CSR_CODE_LENGTH (Power (word_of_int (SequenceLength c)) - 1)
                   (compute (sample_length c) (\<lambda>len.
                     assign (\<lambda>s. s\<lparr>s_ulSampleLength := len\<rparr>)
                       (set_reg env CSR_CODE_CLK_CYCLES (word_of_int (ImpulseWidth c * 40))
                         (Atom (\<lambda>s. andThen (SetDataToRam (ram_hw env) (lfsr_stack env) (word_of_int (InitialValue c))
                              (word_of_int (GenerationPolymerization c)) (word_of_int (SequenceLength c)) (s_puiPrbsBuff s) (ram s))
                              (\<lambda>(_, buf, rfd). Inr (s\<lparr>s_puiPrbsBuff := buf, ram := rfd\<rparr>)))
                           (schedule_stmts env c p)))))))))))"

definition config_stmts :: "app_env \<Rightarrow> app_state prog \<Rightarrow> app_state prog" where
  "config_stmts env p =
     compute (read_config (ini_files env)) (\<lambda>c.
       assign (\<lambda>s. s\<lparr>s_uiSavePC := word_of_int (SavePosition c)\<rparr>)
         (Atom (new_dir env)
           (buf_stmts c
             (assign (\<lambda>s. s\<lparr>s_WorkMode_TX := word_of_int (GetRealData s_WorkMode (WorkMode c))\<rparr>)
               (control_stmts env c p)))))"

text \<open>
  The handlers of \<^verbatim>\<open>App\<close>, each followed by the reply that \<^verbatim>\<open>App\<close> sends.
\<close>

definition reply :: "app_state prog" where
  "reply = assign (\<lambda>s. effect [SendCmd (take (unat (s_uiTcpSendLen s)) (s_pTcpBuff s))] s) Finished"

definition ack :: "u16 \<Rightarrow> app_state prog \<Rightarrow> app_state prog" where
  "ack cmd p =
     assign (\<lambda>s. s\<lparr>s_pTcpBuff := bytes16 cmd @ drop 2 (s_pTcpBuff s)\<rparr>)
       (assign (\<lambda>s. s\<lparr>s_pTcpBuff := take 2 (s_pTcpBuff s) @ bytes16 0 @ drop 4 (s_pTcpBuff s)\<rparr>)
         (assign (\<lambda>s. s\<lparr>s_uiTcpSendLen := CMDHEADER_SIZE\<rparr>) p))"

definition start_stmts :: "app_env \<Rightarrow> app_state prog" where
  "start_stmts env =
     config_stmts env (assign (\<lambda>s. s\<lparr>s_uiFlag := 0\<rparr>) (set_reg env CSR_REC_EN 1 (ack ACQ_START_ACK reply)))"

definition remove_stmts :: "app_state prog" where
  "remove_stmts =
     assign (\<lambda>s. effect [FileRemove (cstr (s_SD_FILE_NAME s))] s)
       (Atom close_sd (assign (\<lambda>s. s\<lparr>s_pSdHPFd := None\<rparr>) reply))"

definition stop_stmts :: "app_env \<Rightarrow> app_state prog" where
  "stop_stmts env =
     set_reg env CSR_REC_EN 0 (set_reg env CSR_T_ACQ 0 (set_reg env CSR_T_DELTA 0 (set_reg env CSR_T_START 0
       (ack ACQ_STOP_ACK
         (assign (\<lambda>s. s\<lparr>s_ucIsReady := FALSE\<rparr>)
           (assign (\<lambda>s. s\<lparr>s_uiFlag := 0\<rparr>)
             (Branch (\<lambda>s. s_uiSavePC s = 0) (Branch (\<lambda>s. s_pSdHPFd s \<noteq> None) remove_stmts reply) reply)))))))"

definition App_prog :: "app_env \<Rightarrow> u8 list \<Rightarrow> app_state prog" where
  "App_prog env recv =
     (let recv = take TCP_BUFF_SIZE recv in
      if recv = [] then Finished
      else assign (\<lambda>s. s\<lparr>s_pTcpBuff := recv @ drop (length recv) (s_pTcpBuff s)\<rparr>)
        (Branch (\<lambda>s. GetCmdHandler (usCmd (s_pCmdHead (s_pTcpBuff s))) = Some H_AcqStart) (start_stmts env)
          (Branch (\<lambda>s. GetCmdHandler (usCmd (s_pCmdHead (s_pTcpBuff s))) = Some H_AcqStop) (stop_stmts env) reply)))"

section \<open>Rounds\<close>

lemma run_assign [simp]: "run_prog (assign f p) s = run_prog p (f s)"
  by (simp add: assign_def)

lemma run_deliver_stmts: "run_prog deliver_stmts s = deliver_window s"
  by (simp add: deliver_stmts_def deliver_window_def bytes_left_def send_data_def write_data_def end_acquisition_def
      end_window_def effect_def fwrite_sd_def package_numbers Let_def split: option.split)

lemma run_DeliverData: "run_prog DeliverData_prog s = DeliverData_s 1 s"
  by (simp add: DeliverData_prog_def DeliverData_s_def run_deliver_stmts Let_def)

lemma cstr_path: "NUL \<notin> set p \<Longrightarrow> cstr (p @ NUL # r) = p"
  by (simp add: cstr_NUL)

lemma run_open_stmts:
  "run_prog (open_stmts env) s =
    andThen (open_sd_file env (s\<lparr>s_pSdHPFd := None\<rparr>)) (\<lambda>s. Inr (effect [SendMesg GpsTimeMesg 68 (gps_info env)] s))"
  by (auto simp: open_stmts_def print_name_def open_sd_file_def open_sd_def write_config_def send_mesg_def Let_def
      need_def cstr_path sd_file_name_no_NUL effect_def)

lemma run_MesgThread: "run_prog (MesgThread_prog env) s = MesgThread_round env 1 s"
  by (cases "s_pSdHPFd s")
    (auto simp: MesgThread_prog_def MesgThread_round_def run_open_stmts close_sd_def open_sd_file_def send_mesg_def
      effect_def Let_def need_def)

lemma run_reply: "run_prog reply s = Inr (effect [SendCmd (take (unat (s_uiTcpSendLen s)) (s_pTcpBuff s))] s)"
  by (simp add: reply_def)

lemma run_ack: "run_prog (ack c p) s = run_prog p (s\<lparr>s_pTcpBuff := put_ack c 0 (s_pTcpBuff s), s_uiTcpSendLen := CMDHEADER_SIZE\<rparr>)"
  by (simp add: ack_def bytes16_def put_ack_def)

lemma run_compute [simp]: "run_prog (compute x k) s = andThen x (\<lambda>y. run_prog (k y) s)"
  by (simp add: compute_def split: sum.split)

lemma put_words_append: "i \<le> length (s_puiConfigBuf s) \<Longrightarrow> put_words (i + length vs) ws (put_words i vs s) = put_words i (vs @ ws) s"
  by (simp add: put_words_def ac_simps)

lemma dir_words_put [simp]: "dir_words (put_words i ws s) = dir_words s"
  by (simp add: dir_words_def put_words_def)

lemma run_store_words:
  "2 + dir_words s + k \<le> length (s_puiConfigBuf s) \<Longrightarrow>
     run_prog (store_words k ws p) s = run_prog p (put_words (2 + dir_words s + k) ws s)"
proof (induction k ws p arbitrary: s rule: store_words.induct)
  case (2 k w ws p)
  let ?i = "2 + dir_words s + k"
  have "?i + 1 \<le> length (s_puiConfigBuf (put_words ?i [w] s))" using 2(2) by (simp add: put_words_def)
  with 2(1) [of "put_words ?i [w] s"] put_words_append [OF 2(2), of "[w]" ws] show ?case by simp
qed (simp add: put_words_def)

lemma put_words_next: "i = length vs \<Longrightarrow> put_words i ws (put_words 0 vs s) = put_words 0 (vs @ ws) s"
  using put_words_append [of 0 s vs ws] by simp

lemma put_words_simps [simp]:
  "s_SdDataDIR (put_words i ws s) = s_SdDataDIR s" "s_uiSavePC (put_words i ws s) = s_uiSavePC s"
  "length vs \<le> length (s_puiConfigBuf (put_words 0 vs s))"
  by (simp_all add: put_words_def)

lemma run_buf_stmts:
  assumes "s_uiSavePC s = word_of_int (SavePosition c)"
  shows "run_prog (buf_stmts c p) s = run_prog p (s\<lparr>s_puiConfigBuf := config_buf c (s_SdDataDIR s) (s_puiConfigBuf s)\<rparr>)"
proof -
  let ?a = "[word_of_int (WorkMode c), word_of_int (SyncMode c)] :: u32 list"
  let ?b = "map word_of_int [FullScalRange c, InputSource c, LpfFilter c, AdcSamplingRates c, ImpulseWidth c,
    SequenceLength c, GenerationPolymerization c, InitialValue c] :: u32 list"
  let ?d = "words_of (s_SdDataDIR s)"
  have 1: "put_words 2 ?d (put_words 1 [?a ! 1] (put_words 0 [?a ! 0] s)) = put_words 0 (?a @ ?d) s"
    by (simp add: put_words_next)
  have l: "2 + dir_words s = length (?a @ ?d)" by (simp add: words_of_length dir_words_def)
  have "length (?a @ ?d) \<le> length (s_puiConfigBuf (put_words 0 (?a @ ?d) s))" by (rule put_words_simps)
  then have 2: "run_prog (store_words 0 ?b q) (put_words 0 (?a @ ?d) s) = run_prog q (put_words 0 ((?a @ ?d) @ ?b) s)" for q
    using run_store_words [of "put_words 0 (?a @ ?d) s" 0 ?b q] put_words_next [of "length (?a @ ?d)" "?a @ ?d" ?b s] l
    by (simp only: dir_words_put add_0_right)
  have 3: "put_words (2 + dir_words s + 8) [w] (put_words 0 ((?a @ ?d) @ ?b) s) = put_words 0 (((?a @ ?d) @ ?b) @ [w]) s" for w
    unfolding l by (rule put_words_next) simp
  have 4: "put_words 0 (((?a @ ?d) @ ?b) @ [s_uiSavePC s]) s = s\<lparr>s_puiConfigBuf := config_buf c (s_SdDataDIR s) (s_puiConfigBuf s)\<rparr>"
    using assms by (simp add: put_words_def config_buf_def Let_def)
  from 1 have 1: "put_words 2 ?d (put_words 1 [word_of_int (SyncMode c)] (put_words 0 [word_of_int (WorkMode c)] s)) = put_words 0 (?a @ ?d) s"
    by simp
  show ?thesis
    unfolding buf_stmts_def buf_more_def run_assign put_words_simps 1 2 dir_words_put 3 4 ..
qed

lemma run_config: "run_prog (config_stmts env p) s = andThen (Configuration env s) (\<lambda>(_, s). run_prog p s)"
  by (simp add: config_stmts_def Configuration_def new_dir_def control_stmts_def schedule_stmts_def set_reg_def run_buf_stmts
      andThen_assoc split_def Let_def set_modes_def)

lemma run_start: "run_prog (start_stmts env) s = andThen (AcqStart env s) (\<lambda>(_, s). run_prog reply s)"
  by (auto simp: start_stmts_def run_config AcqStart_def run_ack set_reg_def andThen_assoc split_def Let_def intro!: andThen_cong)

lemma run_stop: "run_prog (stop_stmts env) s = run_prog reply (snd (AcqStop env s))"
  by (cases "s_pSdHPFd (snd (AcqStop env s))")
    (auto simp: stop_stmts_def AcqStop_def run_ack set_reg_def reg_set_def remove_stmts_def close_sd_def run_reply effect_def Let_def
      split: option.split)

lemma run_App: "run_prog (App_prog env recv) s = andThen (App env recv s) (\<lambda>(_, s). Inr s)"
proof (cases "take TCP_BUFF_SIZE recv = []")
  case False
  let ?t = "s\<lparr>s_pTcpBuff := take TCP_BUFF_SIZE recv @ drop (length (take TCP_BUFF_SIZE recv)) (s_pTcpBuff s)\<rparr>"
  consider (none) "GetCmdHandler (usCmd (s_pCmdHead (s_pTcpBuff ?t))) = None"
    | (start) "GetCmdHandler (usCmd (s_pCmdHead (s_pTcpBuff ?t))) = Some H_AcqStart"
    | (stop) "GetCmdHandler (usCmd (s_pCmdHead (s_pTcpBuff ?t))) = Some H_AcqStop"
    by (cases "GetCmdHandler (usCmd (s_pCmdHead (s_pTcpBuff ?t)))") (use CmdHandler.exhaust in auto)
  then show ?thesis
    using False unfolding App_prog_def App_def Let_def
    by cases (simp_all add: run_start run_stop run_reply run_handler_def andThen_assoc split_def)
qed (simp add: App_prog_def App_def)

lemma schedule_append: "schedule (ts @ us) c = andThen (schedule ts c) (schedule us)"
proof (induction ts c rule: schedule.induct)
  case (2 ts p q s)
  then show ?case by (cases "next_stmt p s") auto
next
  case (3 ts p q s)
  then show ?case by (cases "next_stmt q s") auto
qed simp

lemma next_assign [simp]: "next_stmt (assign f p) s = Inr (p, f s)"
  by (simp add: assign_def)

text \<open>A thread that runs without interruption.\<close>

fun alone :: "nat \<Rightarrow> 's prog \<Rightarrow> 's \<Rightarrow> ('s prog \<times> 's) res" where
  "alone 0 p s = Inr (p, s)"
| "alone (Suc n) p s = andThen (next_stmt p s) (\<lambda>(p, s). alone n p s)"

lemma alone_run: "\<exists>n. alone n p s = andThen (run_prog p s) (\<lambda>s. Inr (Finished, s))"
proof (induction p arbitrary: s)
  case Finished
  show ?case by (intro exI [of _ 0]) simp
next
  case (Atom f p)
  show ?case
  proof (cases "f s")
    case (Inl e)
    then show ?thesis by (intro exI [of _ 1]) simp
  next
    case (Inr t)
    with Atom [of t] obtain n where "alone n p t = andThen (run_prog p t) (\<lambda>s. Inr (Finished, s))" by blast
    with Inr show ?thesis by (intro exI [of _ "Suc n"]) simp
  qed
next
  case (Branch b p q)
  from Branch(1) [of s] Branch(2) [of s] obtain n m where
    "alone n p s = andThen (run_prog p s) (\<lambda>s. Inr (Finished, s))"
    "alone m q s = andThen (run_prog q s) (\<lambda>s. Inr (Finished, s))" by blast
  then show ?case by (intro exI [of _ "Suc (if b s then n else m)"]) simp
qed

lemma schedule_alone:
  "schedule (replicate n Main) (p, q, s) = andThen (alone n p s) (\<lambda>(p, s). Inr (p, q, s))"
  "schedule (replicate n Mesg) (q, p, s) = andThen (alone n p s) (\<lambda>(p, s). Inr (q, p, s))"
  by (induction n arbitrary: p s) (auto simp: andThen_assoc intro!: andThen_cong)

lemma schedule_run:
  "\<exists>n. schedule (replicate n Main) (p, q, s) = andThen (run_prog p s) (\<lambda>s. Inr (Finished, q, s))"
  "\<exists>n. schedule (replicate n Mesg) (q, p, s) = andThen (run_prog p s) (\<lambda>s. Inr (q, Finished, s))"
proof -
  obtain n where n: "alone n p s = andThen (run_prog p s) (\<lambda>s. Inr (Finished, s))" using alone_run [of p s] by (elim exE)
  show "\<exists>n. schedule (replicate n Main) (p, q, s) = andThen (run_prog p s) (\<lambda>s. Inr (Finished, q, s))"
    "\<exists>n. schedule (replicate n Mesg) (q, p, s) = andThen (run_prog p s) (\<lambda>s. Inr (q, Finished, s))"
    by (intro exI [of _ n]; simp only: schedule_alone n andThen_assoc andThen.simps prod.case)+
qed


end
