(* ===== verification/ThreadSpec.thy ===== *)
theory ThreadSpec
  imports Threads
begin

text \<open>
  What the missing lock costs: while an acquisition is saved to the card a pulse races with a delivery and with a stop
  command for the stream, and a pulse during a delivery spoils the next acquisition.
\<close>

section \<open>Races\<close>

text \<open>The control points of the two rounds.\<close>

definition pulse_flags :: "app_state \<Rightarrow> app_state" where
  "pulse_flags s = s\<lparr>s_ucIntHappend := 1, s_ucIsReady := TRUE, s_uiFlag := 0, s_ulTotalLen := 0, s_uiCheck := 1\<rparr>"

lemma pulse_flags_simps [simp]:
  "s_uiSavePC (pulse_flags s) = s_uiSavePC s" "s_pSdHPFd (pulse_flags s) = s_pSdHPFd s"
  "s_ucIsReady (pulse_flags s) = TRUE" "effects (pulse_flags s) = effects s" "s_uiFlag (pulse_flags s) = 0"
  "s_ulTotalLen (pulse_flags s) = 0" "s_ulSampleLength (pulse_flags s) = s_ulSampleLength s"
  "s_puiAddr_A (pulse_flags s) = s_puiAddr_A s" "s_puiAddr_B (pulse_flags s) = s_puiAddr_B s"
  by (simp_all add: pulse_flags_def)

lemma Mesg_flags:
  "schedule (replicate 5 Mesg) (p, MesgThread_prog env, s) =
    Inr (p, Branch (\<lambda>s. s_uiSavePC s = 0)
           (Branch (\<lambda>s. s_pSdHPFd s \<noteq> None)
             (Atom close_sd (assign (\<lambda>s. s\<lparr>s_pSdHPFd := None\<rparr>) (open_stmts env)))
             (open_stmts env))
           (send_mesg env), pulse_flags s)"
  by (simp add: MesgThread_prog_def pulse_flags_def numeral_eq_Suc)

lemma Mesg_closes:
  assumes "s_uiSavePC s = 0" "s_pSdHPFd s = Some path"
  shows "schedule (replicate 8 Mesg) (p, MesgThread_prog env, s) =
    Inr (p, assign (\<lambda>s. s\<lparr>s_pSdHPFd := None\<rparr>) (open_stmts env), effect [FileClose path] (pulse_flags s))"
proof -
  have "replicate 8 Mesg = replicate 5 Mesg @ [Mesg, Mesg, Mesg]" by (simp add: numeral_eq_Suc)
  then show ?thesis using assms by (simp only: schedule_append Mesg_flags) (simp add: close_sd_def)
qed

lemma Mesg_PC:
  assumes "s_uiSavePC s \<noteq> 0"
  shows "schedule (replicate 7 Mesg) (p, MesgThread_prog env, s) =
    Inr (p, Finished, effect [SendMesg GpsTimeMesg 68 (gps_info env)] (pulse_flags s))"
proof -
  have "replicate 7 Mesg = replicate 5 Mesg @ [Mesg, Mesg]" by (simp add: numeral_eq_Suc)
  then show ?thesis using assms by (simp only: schedule_append Mesg_flags) (simp add: send_mesg_def)
qed

lemma Main_announces:
  assumes "s_ucIsReady s = TRUE"
  shows "schedule (replicate 4 Main) (DeliverData_prog, q, s) = Inr (deliver_stmts, q, announced s)"
  using assms by (simp add: DeliverData_prog_def numeral_eq_Suc announced_def next_window_def window_parity)

lemma Main_null:
  assumes "s_ucIsReady s = TRUE" "s_uiSavePC s = 0" "s_pSdHPFd s = None"
  shows "schedule (replicate 8 Main) (DeliverData_prog, q, s) = Inl NullPointer"
proof -
  have "replicate 8 Main = replicate 4 Main @ [Main, Main, Main, Main]" by (simp add: numeral_eq_Suc)
  then show ?thesis using assms
    by (simp only: schedule_append Main_announces) (simp add: deliver_stmts_def write_data_def fwrite_sd_def)
qed

lemma Main_writes:
  assumes "s_ucIsReady s = TRUE" "s_uiSavePC s = 0" "s_pSdHPFd s = Some path"
  shows "\<exists>ts p n t. schedule ts (DeliverData_prog, q, s) = Inr (p, q, t)
    \<and> effects t = effects s @ [FileWrite path (next_window s) n]"
proof -
  have "\<exists>p n t. schedule (replicate 4 Main @ replicate (if bytes_left (announced s) \<le> PACKAGE_SIZE then 3 else 4) Main) (DeliverData_prog, q, s) = Inr (p, q, t)
    \<and> effects t = effects s @ [FileWrite path (next_window s) n]"
    unfolding schedule_append Main_announces [OF assms(1)] using assms
    by (simp add: deliver_stmts_def write_data_def fwrite_sd_def numeral_eq_Suc)
  then show ?thesis by blast
qed

lemma DeliverData_s_dir: "DeliverData_s n s = Inr s' \<Longrightarrow> s_SdDataDIR s' = s_SdDataDIR s"
  by (auto simp: DeliverData_s_def deliver_window_def fwrite_sd_def effect_def andThen_Inr_iff Let_def
      split: if_split_asm option.split_asm)

text \<open>
  C21. The pulse per second and the delivery race for the stream of the data file: one after the other, in
  either order, the two rounds do no harm, but when the main thread delivers a window while \<^verbatim>\<open>MesgThread\<close>
  is between its statements, it writes to the null stream, or to the old file after it has been closed.
\<close>

theorem file_change_races:
  assumes "app_ok s" "s_uiSavePC s = 0" "sink_ok s" "s_ucIsReady s = TRUE"
    "length (cstr (s_SdDataDIR s)) \<le> 8" "\<forall>p. fopen_ok env p" "now env < 2 ^ 31"
  shows "(\<exists>t. andThen (DeliverData_s 1 s) (MesgThread_round env 1) = Inr t)
    \<and> (\<exists>t. andThen (MesgThread_round env 1 s) (DeliverData_s 1) = Inr t)
    \<and> (\<exists>ts. schedule ts (DeliverData_prog, MesgThread_prog env, s) = Inl NullPointer)
    \<and> (\<exists>ts p q t es path b n. schedule ts (DeliverData_prog, MesgThread_prog env, s) = Inr (p, q, t)
         \<and> effects t = es @ [FileClose path, FileWrite path b n])"
proof -
  obtain path where path: "s_pSdHPFd s = Some path" using assms(2,3) by (auto simp: sink_ok_def)
  obtain d where d: "DeliverData_s 1 s = Inr d" "same_setup s d" 
    using deliver_more [OF assms(4,3)] deliver_last [OF assms(4,3)] by (metis not_le)
  have "app_ok d" using DeliverData_s_ok [OF d(1) assms(1)] .
  moreover have "s_SdDataDIR d = s_SdDataDIR s" using DeliverData_s_dir [OF d(1)] .
  ultimately have 1: "\<exists>t. MesgThread_round env 1 d = Inr t"
    using MesgThread_round_starts [of d env] assms(5-7) by auto
  obtain m where m: "MesgThread_round env 1 s = Inr m" "s_ucIsReady m = TRUE" "sink_ok m"
    using MesgThread_round_starts [OF assms(1) _ assms(7)] assms(5,6) by blast
  have 2: "\<exists>t. DeliverData_s 1 m = Inr t"
    using deliver_more [OF m(2,3)] deliver_last [OF m(2,3)] by (metis not_le)
  let ?q = "assign (\<lambda>s. s\<lparr>s_pSdHPFd := None\<rparr>) (open_stmts env)"
  let ?c = "effect [FileClose path] (pulse_flags s)"
  have "schedule (replicate 8 Mesg @ [Mesg] @ replicate 8 Main) (DeliverData_prog, MesgThread_prog env, s) = Inl NullPointer"
    by (simp only: schedule_append Mesg_closes [OF assms(2) path]) (simp add: Main_null assms(2) effect_def)
  moreover obtain ts p n t where "schedule ts (DeliverData_prog, ?q, ?c) = Inr (p, ?q, t)"
    "effects t = effects ?c @ [FileWrite path (next_window ?c) n]"
    using Main_writes [of ?c path ?q] assms(2) path by (simp only: effect_simps pulse_flags_simps) blast
  then have "schedule (replicate 8 Mesg @ ts) (DeliverData_prog, MesgThread_prog env, s) =
      Inr (p, ?q, t)
    \<and> effects t = effects s @ [FileClose path, FileWrite path (next_window ?c) n]"
    by (simp only: schedule_append Mesg_closes [OF assms(2) path]) simp
  ultimately have 3: "\<exists>ts. schedule ts (DeliverData_prog, MesgThread_prog env, s) = Inl NullPointer"
    "\<exists>ts p q t es path b n. schedule ts (DeliverData_prog, MesgThread_prog env, s) = Inr (p, q, t)
       \<and> effects t = es @ [FileClose path, FileWrite path b n]" by blast+
  show ?thesis using 1 2 3 by (simp only: d(1) m(1) andThen.simps)
qed

theorem file_change_races_witness:
  "\<exists>ts. schedule ts (DeliverData_prog, MesgThread_prog sample_app_env,
     sample_app\<lparr>s_ucIsReady := TRUE, s_SD_FILE_NAME := ''f'' @ replicate 31 NUL, s_pSdHPFd := Some ''f''\<rparr>) = Inl NullPointer"
proof -
  let ?s = "sample_app\<lparr>s_ucIsReady := TRUE, s_SD_FILE_NAME := ''f'' @ replicate 31 NUL, s_pSdHPFd := Some ''f''\<rparr>"
  have "app_ok ?s" using sample_app_ok by (simp add: app_ok_def cstr_def)
  moreover have "s_uiSavePC ?s = 0" "sink_ok ?s" "s_ucIsReady ?s = TRUE" "length (cstr (s_SdDataDIR ?s)) \<le> 8"
    by (simp_all add: sample_app_def sink_ok_def cstr_def)
  moreover have "\<forall>p. fopen_ok sample_app_env p" "now sample_app_env < 2 ^ 31" by (simp_all add: sample_app_env_def)
  ultimately show ?thesis using file_change_races [of ?s sample_app_env] by blast
qed

lemma Main_stops:
  assumes "s_uiSavePC s = 0" "s_pSdHPFd s = Some path" "length rest = 6"
  shows "\<exists>t. schedule (replicate 14 Main) (App_prog env (command ACQ_STOP_CMD rest), q, s) = Inr (remove_stmts, q, t)
    \<and> s_uiSavePC t = 0 \<and> s_pSdHPFd t = Some path \<and> s_SD_FILE_NAME t = s_SD_FILE_NAME s \<and> effects t = effects s"
proof -
  have "ACQ_STOP_CMD \<noteq> ACQ_START_CMD" by (simp add: ACQ_STOP_CMD_def ACQ_START_CMD_def)
  then show ?thesis
    using assms(1,2) command_received [OF assms(3), of ACQ_STOP_CMD]
    by (simp add: App_prog_def Let_def stop_stmts_def set_reg_def ack_def reg_set_def GetCmdHandler_def s_CmdHandler_def numeral_eq_Suc)
qed

text \<open>
  C22. The stop command and the pulse race for the stream as well: one after the other, in either order, they do no
  harm, but when \<^verbatim>\<open>MesgThread\<close> closes the file after \<^verbatim>\<open>AcqStop\<close> has found it open, \<^verbatim>\<open>AcqStop\<close> closes the null
  stream, or closes the same stream a second time.
\<close>

theorem stop_command_races:
  assumes "app_ok s" "s_uiSavePC s = 0" "s_pSdHPFd s = Some path" "length rest = 6"
    "length (cstr (s_SdDataDIR s)) \<le> 8" "\<forall>p. fopen_ok env p" "now env < 2 ^ 31"
  shows "(\<exists>t. andThen (App env (command ACQ_STOP_CMD rest) s) (\<lambda>(_, s). MesgThread_round env 1 s) = Inr t)
    \<and> (\<exists>t. andThen (MesgThread_round env 1 s) (App env (command ACQ_STOP_CMD rest)) = Inr t)
    \<and> (\<exists>ts. schedule ts (App_prog env (command ACQ_STOP_CMD rest), MesgThread_prog env, s) = Inl NullPointer)
    \<and> (\<exists>ts p q t. schedule ts (App_prog env (command ACQ_STOP_CMD rest), MesgThread_prog env, s) = Inr (p, q, t)
         \<and> effects t = effects s @ [FileClose path, FileRemove path, FileClose path])"
proof -
  obtain a where a: "App env (command ACQ_STOP_CMD rest) s = Inr (RET_OK, a)" "s_SdDataDIR a = s_SdDataDIR s"
    using App_stop_same [OF assms(4,1)] by blast
  obtain u where 1: "MesgThread_round env 1 a = Inr u"
    using MesgThread_round_starts [OF App_ok [OF a(1) assms(1)] _ assms(7)] a(2) assms(5,6) by auto
  obtain m where m: "MesgThread_round env 1 s = Inr m"
    using MesgThread_round_starts [OF assms(1) _ assms(7)] assms(5,6) by blast
  obtain v where 2: "App env (command ACQ_STOP_CMD rest) m = Inr (RET_OK, v)"
    using App_stop_same [OF assms(4) MesgThread_round_ok [OF m assms(1)]] by blast
  let ?q = "MesgThread_prog env"
  obtain t where t: "schedule (replicate 14 Main) (App_prog env (command ACQ_STOP_CMD rest), ?q, s) = Inr (remove_stmts, ?q, t)"
    "s_uiSavePC t = 0" "s_pSdHPFd t = Some path" "s_SD_FILE_NAME t = s_SD_FILE_NAME s" "effects t = effects s"
    using Main_stops [OF assms(2-4), of env ?q] by blast
  let ?c = "effect [FileClose path] (pulse_flags t)"
  have 8: "schedule (replicate 14 Main @ replicate 8 Mesg) (App_prog env (command ACQ_STOP_CMD rest), MesgThread_prog env, s) =
      Inr (remove_stmts, assign (\<lambda>s. s\<lparr>s_pSdHPFd := None\<rparr>) (open_stmts env), ?c)"
    by (simp only: schedule_append t(1) andThen.simps Mesg_closes [OF t(2,3)])
  have "schedule ((replicate 14 Main @ replicate 8 Mesg) @ [Mesg, Main, Main])
      (App_prog env (command ACQ_STOP_CMD rest), MesgThread_prog env, s) = Inl NullPointer"
    by (subst schedule_append) (simp add: 8 remove_stmts_def close_sd_def effect_def)
  then have 3: "\<exists>ts. schedule ts (App_prog env (command ACQ_STOP_CMD rest), ?q, s) = Inl NullPointer" by (rule exI)
  have "cstr (s_SD_FILE_NAME ?c) = path"
    using assms(1,3) t(4) by (simp add: app_ok_def effect_def pulse_flags_def)
  then have "\<exists>p q u. schedule ((replicate 14 Main @ replicate 8 Mesg) @ [Main, Main])
      (App_prog env (command ACQ_STOP_CMD rest), MesgThread_prog env, s) = Inr (p, q, u)
      \<and> effects u = effects s @ [FileClose path, FileRemove path, FileClose path]"
    using t(3,5) by (subst schedule_append) (simp add: 8 remove_stmts_def close_sd_def effect_def pulse_flags_def)
  then have 4: "\<exists>ts p q u. schedule ts (App_prog env (command ACQ_STOP_CMD rest), ?q, s) = Inr (p, q, u)
      \<and> effects u = effects s @ [FileClose path, FileRemove path, FileClose path]" by (rule exI)
  show ?thesis
    unfolding a(1) m andThen.simps prod.case by (intro conjI exI [of _ u] exI [of _ "(RET_OK, v)"] 1 2 3 4)
qed

theorem stop_command_races_witness:
  "\<exists>ts. schedule ts (App_prog sample_app_env (command ACQ_STOP_CMD (replicate 6 0)), MesgThread_prog sample_app_env,
     sample_app\<lparr>s_SD_FILE_NAME := ''f'' @ replicate 31 NUL, s_pSdHPFd := Some ''f''\<rparr>) = Inl NullPointer"
proof -
  let ?s = "sample_app\<lparr>s_SD_FILE_NAME := ''f'' @ replicate 31 NUL, s_pSdHPFd := Some ''f''\<rparr>"
  have "app_ok ?s" using sample_app_ok by (simp add: app_ok_def cstr_def)
  moreover have "s_uiSavePC ?s = 0" "s_pSdHPFd ?s = Some ''f''" "length (cstr (s_SdDataDIR ?s)) \<le> 8" "length (replicate 6 (0::u8)) = 6"
    by (simp_all add: sample_app_def cstr_def)
  moreover have "\<forall>p. fopen_ok sample_app_env p" "now sample_app_env < 2 ^ 31" by (simp_all add: sample_app_env_def)
  ultimately show ?thesis using stop_command_races [of ?s "''f''" "replicate 6 0" sample_app_env] by blast
qed

lemma Main_last:
  assumes "s_ucIsReady s = TRUE" "s_uiSavePC s \<noteq> 0" "bytes_left s \<le> BRAM_SIZE"
  shows "\<exists>ts t. schedule ts (DeliverData_prog, q, s) = Inr (assign (\<lambda>s. s\<lparr>s_ucIsReady := FALSE\<rparr>) Finished, q, t)
    \<and> same_setup s t"
proof -
  have "\<exists>t. schedule (replicate 4 Main @ replicate (if bytes_left (announced s) \<le> PACKAGE_SIZE then 4 else 6) Main)
      (DeliverData_prog, q, s) = Inr (assign (\<lambda>s. s\<lparr>s_ucIsReady := FALSE\<rparr>) Finished, q, t)
    \<and> same_setup s t"
    unfolding schedule_append Main_announces [OF assms(1)] using assms(2,3)
    by (simp add: deliver_stmts_def send_data_def end_acquisition_def numeral_eq_Suc bytes_left_def effect_def
        announced_def same_setup_def)
  then show ?thesis by blast
qed

lemma Main_more:
  assumes "s_ucIsReady s = TRUE" "s_uiSavePC s \<noteq> 0" "BRAM_SIZE < bytes_left s"
  shows "\<exists>ts t. schedule ts (DeliverData_prog, q, s) =
      Inr (assign (\<lambda>s. s\<lparr>s_ulTotalLen := s_ulTotalLen s + BRAM_SIZE\<rparr>) Finished, q, t)
    \<and> same_setup s t"
proof -
  have "\<not> bytes_left (announced s) \<le> PACKAGE_SIZE" "\<not> bytes_left (announced s) \<le> BRAM_SIZE"
    using assms(3) by (simp_all add: bytes_left_def word_le_nat_alt word_less_nat_alt package_numbers)
  then have "\<exists>t. schedule (replicate 4 Main @ replicate 5 Main)
      (DeliverData_prog, q, s) = Inr (assign (\<lambda>s. s\<lparr>s_ulTotalLen := s_ulTotalLen s + BRAM_SIZE\<rparr>) Finished, q, t)
    \<and> same_setup s t"
    unfolding schedule_append Main_announces [OF assms(1)] using assms(2)
    by (simp add: deliver_stmts_def send_data_def end_window_def numeral_eq_Suc bytes_left_def effect_def
        announced_def same_setup_def)
  then show ?thesis by blast
qed

text \<open>
  C25. A pulse that falls into a delivery spoils the acquisition it starts: when all its statements come before
  the last statement of the round of the main thread, the new acquisition is lost if that was the last
  round of the old one, and otherwise starts with one window counted that it has not delivered.
\<close>

theorem late_delivery_spoils_next:
  assumes "s_uiSavePC s \<noteq> 0" "s_ucIsReady s = TRUE"
  shows "if s_ulSampleLength s - s_ulTotalLen s \<le> 65536
    then \<exists>ts t. schedule ts (DeliverData_prog, MesgThread_prog env, s) = Inr (Finished, Finished, t)
      \<and> s_ulTotalLen t = 0 \<and> (\<forall>n. deliver_n n t = Inr t)
    else \<exists>ts t. schedule ts (DeliverData_prog, MesgThread_prog env, s) = Inr (Finished, Finished, t)
      \<and> s_ucIsReady t = TRUE \<and> s_uiFlag t = 0 \<and> s_ulTotalLen t = 65536
      \<and> (\<forall>L. L = unat (s_ulSampleLength s) - 65536 \<longrightarrow> 0 < L \<longrightarrow>
           (\<exists>u. deliver_n (Suc ((L - 1) div 65536)) t = Inr u \<and> s_ucIsReady u = FALSE
             \<and> stream_of (effects u) = stream_of (effects t) @ take L (windows (s\<lparr>s_uiFlag := 0\<rparr>) (Suc ((L - 1) div 65536)))))"
proof (cases "bytes_left s \<le> BRAM_SIZE")
  case True
  obtain ts t where t: "schedule ts (DeliverData_prog, MesgThread_prog env, s) =
      Inr (assign (\<lambda>s. s\<lparr>s_ucIsReady := FALSE\<rparr>) Finished, MesgThread_prog env, t)"
    "same_setup s t" using Main_last [OF assms(2,1) True] by blast
  then have pc: "s_uiSavePC t \<noteq> 0" using assms(1) by (simp add: same_setup_def)
  define u where "u = (effect [SendMesg GpsTimeMesg 68 (gps_info env)] (pulse_flags t))\<lparr>s_ucIsReady := FALSE\<rparr>"
  have "schedule (ts @ replicate 7 Mesg @ [Main]) (DeliverData_prog, MesgThread_prog env, s) = Inr (Finished, Finished, u)"
    by (simp only: schedule_append t(1) andThen.simps Mesg_PC [OF pc]) (simp add: u_def)
  moreover have "s_ulTotalLen u = 0" by (simp add: u_def)
  moreover have "DeliverData_s 1 u = Inr u" by (rule deliver_idle) (simp add: u_def TRUE_def FALSE_def)
  then have "deliver_n n u = Inr u" for n by (induction n) simp_all
  moreover have "s_ulSampleLength s - s_ulTotalLen s \<le> 65536" using True by (simp add: bytes_left_def BRAM_SIZE_def)
  ultimately show ?thesis by (simp only: if_True) blast
next
  case False
  then have "BRAM_SIZE < bytes_left s" by simp
  from Main_more [OF assms(2,1) this]
  obtain ts t where t: "schedule ts (DeliverData_prog, MesgThread_prog env, s) =
      Inr (assign (\<lambda>s. s\<lparr>s_ulTotalLen := s_ulTotalLen s + BRAM_SIZE\<rparr>) Finished, MesgThread_prog env, t)"
    "same_setup s t" by blast
  then have pc: "s_uiSavePC t \<noteq> 0" using assms(1) by (simp add: same_setup_def)
  define u where "u = (effect [SendMesg GpsTimeMesg 68 (gps_info env)] (pulse_flags t))\<lparr>s_ulTotalLen := BRAM_SIZE\<rparr>"
  have sch: "schedule (ts @ replicate 7 Mesg @ [Main]) (DeliverData_prog, MesgThread_prog env, s) = Inr (Finished, Finished, u)"
    by (simp only: schedule_append t(1) andThen.simps Mesg_PC [OF pc]) (simp add: u_def)
  have u: "s_ucIsReady u = TRUE" "s_uiFlag u = 0" "s_ulTotalLen u = 65536" "sink_ok u"
    "s_ulSampleLength u = s_ulSampleLength s"
    using t(2) assms(1) by (simp_all add: u_def sink_ok_def same_setup_def BRAM_SIZE_def)
  have w: "windows u n = windows (s\<lparr>s_uiFlag := 0\<rparr>) n" for n
    using t(2) by (intro windows_cong) (simp_all add: u_def same_setup_def)
  have "\<exists>v. deliver_n (Suc ((L - 1) div 65536)) u = Inr v \<and> s_ucIsReady v = FALSE
       \<and> stream_of (effects v) = stream_of (effects u) @ take L (windows (s\<lparr>s_uiFlag := 0\<rparr>) (Suc ((L - 1) div 65536)))"
    if "L = unat (s_ulSampleLength s) - 65536" "0 < L" for L
  proof -
    have l: "unat (s_ulSampleLength u - s_ulTotalLen u) = L"
      using that u(3,5) by (subst unat_sub) (simp_all add: word_le_nat_alt)
    from deliver_n_finishes [OF u(1,4) refl] show ?thesis unfolding l w by blast
  qed
  then have "s_ucIsReady u = TRUE \<and> s_uiFlag u = 0 \<and> s_ulTotalLen u = 65536
      \<and> (\<forall>L. L = unat (s_ulSampleLength s) - 65536 \<longrightarrow> 0 < L \<longrightarrow>
           (\<exists>v. deliver_n (Suc ((L - 1) div 65536)) u = Inr v \<and> s_ucIsReady v = FALSE
             \<and> stream_of (effects v) = stream_of (effects u) @ take L (windows (s\<lparr>s_uiFlag := 0\<rparr>) (Suc ((L - 1) div 65536)))))"
    using u(1-3) by blast
  moreover have "\<not> s_ulSampleLength s - s_ulTotalLen s \<le> 65536" using False by (simp add: bytes_left_def BRAM_SIZE_def)
  ultimately show ?thesis using sch by (simp only: if_False) blast
qed

theorem late_delivery_spoils_next_witness:
  "\<exists>ts t. schedule ts (DeliverData_prog, MesgThread_prog sample_app_env,
       sample_app\<lparr>s_ucIsReady := TRUE, s_uiSavePC := 1, s_ulSampleLength := 1000\<rparr>) = Inr (Finished, Finished, t)
     \<and> (\<forall>n. deliver_n n t = Inr t)"
proof -
  let ?s = "sample_app\<lparr>s_ucIsReady := TRUE, s_uiSavePC := 1, s_ulSampleLength := 1000\<rparr>"
  have "s_uiSavePC ?s \<noteq> 0" "s_ucIsReady ?s = TRUE" "s_ulSampleLength ?s - s_ulTotalLen ?s \<le> 65536"
    by (simp_all add: sample_app_def)
  with late_delivery_spoils_next [of ?s sample_app_env] show ?thesis by (simp only: if_True) blast
qed

end
