(* ===== verification/ThreadSafety.thy ===== *)
theory ThreadSafety
  imports ThreadSpec
begin

text \<open>
  The statements of the start command under interleaving: they keep the state well-formed, a pulse between them tears
  the header of the data file, and transfers to the PC never fault. A start command that changes the destination during a
  transfer crashes the program without any interleaving.
\<close>

section \<open>Configuration under interleaving\<close>

text \<open>
  A configuration that can be programmed and names a directory. Its statements keep the well-formedness of the state, whatever
  runs in between, and a destination that is the PC in the file stays the PC.
\<close>

definition good_config :: "app_env \<Rightarrow> ini_line list \<Rightarrow> bool" where
  "good_config env ls \<longleftrightarrow> config_file ls (ini_files env) \<and> config_fits (settings ls) \<and> length (lfsr_stack env) = 2048
     \<and> (\<exists>dir. look ''Coinfiguration'' ''DataDirectory'' False ls = Some dir \<and> dir \<noteq> [])"

definition goes_ok :: "bool \<Rightarrow> app_state \<Rightarrow> bool" where
  "goes_ok pc s \<longleftrightarrow> app_ok s \<and> (pc \<longrightarrow> s_uiSavePC s \<noteq> 0)"

lemma goes_ok_updates [simp]:
  "goes_ok pc (effect es s) = goes_ok pc s" "goes_ok pc (s\<lparr>s_uiFlag := f\<rparr>) = goes_ok pc s"
  "goes_ok pc (s\<lparr>s_puiAddr := b\<rparr>) = goes_ok pc s" "goes_ok pc (s\<lparr>s_ulTotalLen := n\<rparr>) = goes_ok pc s"
  "goes_ok pc (s\<lparr>s_ucDeliveredDone := d\<rparr>) = goes_ok pc s" "goes_ok pc (s\<lparr>s_ucIntHappend := d\<rparr>) = goes_ok pc s"
  "goes_ok pc (s\<lparr>s_uiCheck := f\<rparr>) = goes_ok pc s" "goes_ok pc (s\<lparr>s_ulSampleLength := n\<rparr>) = goes_ok pc s"
  "goes_ok pc (s\<lparr>s_WorkMode_TX := w\<rparr>) = goes_ok pc s"
  by (simp_all add: goes_ok_def app_ok_def effect_def)

lemma goes_ok_ready: "\<lbrakk>goes_ok pc s; r \<in> {TRUE, FALSE}\<rbrakk> \<Longrightarrow> goes_ok pc (s\<lparr>s_ucIsReady := r\<rparr>)"
  by (simp add: goes_ok_def app_ok_def)

lemma goes_ok_reg: "goes_ok pc s \<Longrightarrow> goes_ok pc (reg_set hw l v s)"
  by (simp add: goes_ok_def app_ok_def reg_set_def RegWrite_ready)

lemma goes_ok_words: "\<lbrakk>goes_ok pc s; i + length ws \<le> 87\<rbrakk> \<Longrightarrow> goes_ok pc (put_words i ws s)"
  by (simp add: goes_ok_def app_ok_def put_words_def)

lemma goes_ok_dir: "goes_ok pc s \<Longrightarrow> dir_words s = 16"
  by (simp add: goes_ok_def app_ok_def dir_words_def)

lemma keeps_set_reg: "keeps (goes_ok pc) p \<Longrightarrow> keeps (goes_ok pc) (set_reg env l v p)"
  by (simp add: set_reg_def goes_ok_reg)

lemma keeps_store_words: "\<lbrakk>keeps (goes_ok pc) p; k + length ws \<le> 69\<rbrakk> \<Longrightarrow> keeps (goes_ok pc) (store_words k ws p)"
proof (induction k ws p rule: store_words.induct)
  case (2 k w ws p)
  have "goes_ok pc (put_words (2 + dir_words s + k) [w] s)" if "goes_ok pc s" for s
    using that 2(3) goes_ok_dir [OF that] by (intro goes_ok_words) simp_all
  with 2 show ?case by simp
qed simp

lemma keeps_buf_more:
  assumes "keeps (goes_ok pc) p"
  shows "keeps (goes_ok pc) (buf_more c p)"
proof -
  have d: "goes_ok pc (put_words 2 (words_of (s_SdDataDIR s)) s)" if "goes_ok pc s" for s
    using that goes_ok_dir [OF that] by (intro goes_ok_words) (simp_all add: words_of_length dir_words_def)
  have e: "goes_ok pc (put_words (2 + dir_words s + 8) [w] s)" if "goes_ok pc s" for s w
    using that goes_ok_dir [OF that] by (intro goes_ok_words) simp_all
  show ?thesis
    using assms d e by (simp add: buf_more_def goes_ok_words keeps_store_words del: store_words.simps)
qed

lemma set_ram_hw: "set_ram hw buf i m n fd = set_ram hw' buf i m n fd"
proof (induction hw buf i m n fd rule: set_ram.induct)
  case (1 hw buf i m n fd)
  note IH = 1 [OF _ _ refl prod.collapse refl prod.collapse, folded Suc_eq_plus1]
  show ?case
    by (subst (1 2) set_ram.simps) (auto simp: need_def split_def Let_def IH)
qed

lemma SetDataToRam_total:
  assumes "config_fits c" "length stack = 2048" "length buf = 64" "bram_ready fd"
  shows "\<exists>r. SetDataToRam hw stack seed poly (word_of_int (SequenceLength c)) buf fd = Inr r"
proof -
  have "SetDataToRam hw stack seed poly (word_of_int (SequenceLength c)) buf fd =
      SetDataToRam (bank_hw (\<lambda>_. 0)) stack seed poly (word_of_int (SequenceLength c)) buf fd"
    by (simp add: SetDataToRam_def set_ram_hw [of hw _ _ _ _ _ "bank_hw (\<lambda>_. 0)"])
  then show ?thesis
    using SetDataToRam_words [OF code_order(2,3) [OF assms(1)] assms(2-4), of "bank_hw (\<lambda>_. 0)" seed poly]
    unfolding bram_stable_def by (metis storage_at_bank_hw)
qed

lemma keeps_control_stmts:
  assumes "keeps (goes_ok pc) p" "config_fits c" "length (lfsr_stack env) = 2048"
  shows "keeps (goes_ok pc) (control_stmts env c p)"
proof -
  have rate: "\<exists>t. andThen (SetSampleRate (csr_hw env) (word_of_int (AdcSamplingRates c)) (csr s)) (\<lambda>(_, fd). Inr (s\<lparr>csr := fd\<rparr>)) = Inr t
      \<and> goes_ok pc t" if "goes_ok pc s" for s
  proof -
    have "unat (word_of_int (AdcSamplingRates c) :: u8) < length s_SampleRateReg"
    proof -
      have "0 \<le> AdcSamplingRates c" "AdcSamplingRates c < 6" using assms(2) by (auto simp: config_fits_def)
      then have "uint (word_of_int (AdcSamplingRates c) :: u8) < 6"
        by (simp add: uint_word_of_int)
      then have "nat (uint (word_of_int (AdcSamplingRates c) :: u8)) < 6" by (simp only: nat_less_iff uint_ge_0)
      then show ?thesis unfolding unat_eq_nat_uint [symmetric] by (simp add: s_SampleRateReg_def)
    qed
    then obtain n fd where "SetSampleRate (csr_hw env) (word_of_int (AdcSamplingRates c)) (csr s) = Inr (n, fd)"
      by (simp add: SetSampleRate_def need_def split_def)
    with SetSampleRate_ready [OF this] that show ?thesis by (auto simp: goes_ok_def app_ok_def)
  qed
  have code: "\<exists>t. andThen (SetDataToRam (ram_hw env) (lfsr_stack env) (word_of_int (InitialValue c))
        (word_of_int (GenerationPolymerization c)) (word_of_int (SequenceLength c)) (s_puiPrbsBuff s) (ram s))
        (\<lambda>(_, buf, rfd). Inr (s\<lparr>s_puiPrbsBuff := buf, ram := rfd\<rparr>)) = Inr t \<and> goes_ok pc t" if "goes_ok pc s" for s
  proof -
    have r: "length (s_puiPrbsBuff s) = 64" "bram_ready (ram s)" using that by (simp_all add: goes_ok_def app_ok_def)
    obtain n buf rfd where d: "SetDataToRam (ram_hw env) (lfsr_stack env) (word_of_int (InitialValue c))
        (word_of_int (GenerationPolymerization c)) (word_of_int (SequenceLength c)) (s_puiPrbsBuff s) (ram s) = Inr (n, buf, rfd)"
      using SetDataToRam_total [OF assms(2,3) r] by (metis prod_cases3)
    with SetDataToRam_shape [OF d r(2)] that show ?thesis by (simp add: goes_ok_def app_ok_def)
  qed
  obtain t3 delta where t: "acq_period c = Inr t3" "acq_delta t3 (now env) = Inr delta"
    using schedule [OF period_bound(1) [OF assms(2)] refl period_bound(2) [OF assms(2)]] by blast
  have "keeps (goes_ok pc) (schedule_stmts env c p)"
    using assms(1) by (simp add: schedule_stmts_def compute_def t keeps_set_reg)
  then show ?thesis
    unfolding control_stmts_def compute_def sample_length_exact(1) [OF assms(2)]
    by (simp only: sum.case) (intro keeps_set_reg keeps_AtomI keeps_assignI rate code, simp_all only: goes_ok_updates)
qed

lemma new_dir_file:
  assumes "config_file ls (ini_files env)" "look ''Coinfiguration'' ''DataDirectory'' False ls = Some dir" "dir \<noteq> []" "app_ok s"
  shows "\<exists>v ds. new_dir env s = Inr (s\<lparr>s_SdDataDIR := v, made := ds\<rparr>) \<and> length v = 64 \<and> NUL \<in> set v \<and> cstr v = take 63 dir"
proof -
  define v where "v = strncpy (take 63 dir) 64"
  have l: "length (s_SdDataDIR s) = 64" "NUL \<in> set (s_SdDataDIR s)" using assms(4) by (simp_all add: app_ok_def)
  have f: "read_profile_string (ini_files env) ''Coinfiguration'' ''DataDirectory'' (s_SdDataDIR s)
      (int (length (s_SdDataDIR s))) None ''Configuration.ini'' = Inr (1, v)"
    using file_value [OF assms(1), of "''DataDirectory''" 64 "s_SdDataDIR s"] assms(2) l(1) by (simp add: v_def)
  have c: "cstr v = take 63 dir"
    using cstr_strncpy [of dir 64] look_no_NUL [OF _ assms(2)] assms(1) by (simp add: config_file_def v_def)
  then have "cstr v \<noteq> []" "length (cstr v) < 255" using assms(3) by auto
  then obtain cr ds where "CreateDir (access_ok env) (mkdir_ok env) (cstr v) (made s) = Inr (cr, ds)"
    using CreateDir_result by blast
  with f read_profile_string_shape [OF f _ l(2)] l(1) c show ?thesis
    by (intro exI [of _ v] exI [of _ ds]) (simp add: new_dir_def)
qed

lemma keeps_config:
  assumes "keeps (goes_ok pc) p" "good_config env ls" "pc \<longrightarrow> (word_of_int (setting ls ''SavePosition'') :: u32) \<noteq> 0"
  shows "keeps (goes_ok pc) (config_stmts env p)"
proof -
  obtain dir where g: "config_file ls (ini_files env)" "config_fits (settings ls)" "length (lfsr_stack env) = 2048"
    "look ''Coinfiguration'' ''DataDirectory'' False ls = Some dir" "dir \<noteq> []"
    using assms(2) by (auto simp: good_config_def)
  have dir: "\<exists>t. new_dir env s = Inr t \<and> goes_ok pc t" if "goes_ok pc s" for s
    using new_dir_file [OF g(1,4,5), of s] that by (auto simp: goes_ok_def app_ok_def)
  have "goes_ok pc (s\<lparr>s_uiSavePC := word_of_int (SavePosition (settings ls))\<rparr>)" if "goes_ok pc s" for s
    using assms(3) that by (auto simp: goes_ok_def app_ok_def settings_def)
  moreover have "keeps (goes_ok pc) (buf_more (settings ls)
      (assign (\<lambda>s. s\<lparr>s_WorkMode_TX := word_of_int (GetRealData s_WorkMode (WorkMode (settings ls)))\<rparr>)
        (control_stmts env (settings ls) p)))"
    using keeps_control_stmts [OF assms(1) g(2,3)] by (intro keeps_buf_more) simp
  ultimately show ?thesis
    using dir by (simp add: config_stmts_def compute_def read_config_settings [OF g(1)] buf_stmts_def goes_ok_words)
qed

section \<open>Start commands\<close>

lemma keeps_reply: "keeps (goes_ok pc) reply"
  by (simp add: reply_def)

lemma keeps_ack:
  assumes "keeps (goes_ok pc) p"
  shows "keeps (goes_ok pc) (ack c p)"
  using assms by (simp add: ack_def goes_ok_def app_ok_def bytes16_def TCP_BUFF_SIZE_def)

lemma keeps_start:
  assumes "good_config env ls" "pc \<longrightarrow> (word_of_int (setting ls ''SavePosition'') :: u32) \<noteq> 0"
  shows "keeps (goes_ok pc) (start_stmts env)"
  unfolding start_stmts_def
  by (rule keeps_config [OF _ assms]) (simp add: keeps_set_reg keeps_ack keeps_reply)

lemma keeps_store:
  assumes "keeps (goes_ok pc) p"
  shows "keeps (goes_ok pc) (assign (\<lambda>s. s\<lparr>s_pTcpBuff := take TCP_BUFF_SIZE recv @ drop (length (take TCP_BUFF_SIZE recv)) (s_pTcpBuff s)\<rparr>) p)"
  using assms by (simp add: goes_ok_def app_ok_def)

definition config_rest :: "app_env \<Rightarrow> config \<Rightarrow> app_state prog" where
  "config_rest env c =
     buf_more c (assign (\<lambda>s. s\<lparr>s_WorkMode_TX := word_of_int (GetRealData s_WorkMode (WorkMode c))\<rparr>)
       (control_stmts env c (assign (\<lambda>s. s\<lparr>s_uiFlag := 0\<rparr>) (set_reg env CSR_REC_EN 1 (ack ACQ_START_ACK reply)))))"

lemma keeps_config_rest:
  "\<lbrakk>config_fits c; length (lfsr_stack env) = 2048\<rbrakk> \<Longrightarrow> keeps (goes_ok pc) (config_rest env c)"
  unfolding config_rest_def
  by (intro keeps_buf_more keeps_assignI keeps_control_stmts keeps_set_reg keeps_ack keeps_reply) simp_all

lemma Main_configures:
  assumes "config_file ls (ini_files env)" "look ''Coinfiguration'' ''DataDirectory'' False ls = Some dir" "dir \<noteq> []"
    "length rest = 6" "app_ok s"
  shows "\<exists>t. schedule (replicate 5 Main) (App_prog env (command ACQ_START_CMD rest), q, s) = Inr (config_rest env (settings ls), q, t)
    \<and> app_ok t \<and> s_uiSavePC t = word_of_int (setting ls ''SavePosition'') \<and> cstr (s_SdDataDIR t) = take 63 dir
    \<and> s_pSdHPFd t = s_pSdHPFd s \<and> effects t = effects s
    \<and> s_puiConfigBuf t = word_of_int (setting ls ''WorkMode'') # drop 1 (s_puiConfigBuf s)"
proof -
  let ?w = "word_of_int (SavePosition (settings ls)) :: u32"
  define u where "u = s\<lparr>s_pTcpBuff := command ACQ_START_CMD rest @ drop 8 (s_pTcpBuff s), s_uiSavePC := ?w\<rparr>"
  have l: "length (command ACQ_START_CMD rest) = 8" using assms(4) by (simp add: command_def bytes16_def)
  have ok: "app_ok u" using assms(5) l by (simp add: u_def app_ok_def TCP_BUFF_SIZE_def)
  obtain v ds where v: "new_dir env u = Inr (u\<lparr>s_SdDataDIR := v, made := ds\<rparr>)" "length v = 64" "NUL \<in> set v" "cstr v = take 63 dir"
    using new_dir_file [OF assms(1-3) ok] by blast
  define t where "t = put_words 0 [word_of_int (WorkMode (settings ls))] (u\<lparr>s_SdDataDIR := v, made := ds\<rparr>)"
  have "schedule (replicate 5 Main) (App_prog env (command ACQ_START_CMD rest), q, s) = Inr (config_rest env (settings ls), q, t)"
    using command_received [OF assms(4), of ACQ_START_CMD] l v(1)
    by (simp add: App_prog_def Let_def start_stmts_def config_stmts_def compute_def read_config_settings [OF assms(1)]
        buf_stmts_def GetCmdHandler_def s_CmdHandler_def numeral_eq_Suc config_rest_def t_def u_def)
  moreover have "app_ok t" using ok v(2,3) by (simp add: t_def put_words_def app_ok_def)
  ultimately show ?thesis
    using v(4) by (intro exI [of _ t]) (simp add: t_def u_def put_words_def settings_def)
qed

lemma Mesg_opens:
  assumes "app_ok s" "s_uiSavePC s = 0" "length (cstr (s_SdDataDIR s)) \<le> 8" "\<forall>p. fopen_ok env p" "now env < 2 ^ 31"
  shows "\<exists>ts t. schedule ts (p, MesgThread_prog env, s) = Inr (p, Finished, t) \<and> app_ok t
    \<and> effects t = effects s @ (case s_pSdHPFd s of None \<Rightarrow> [] | Some old \<Rightarrow> [FileClose old])
        @ [FileOpen (sd_file_name (cstr (s_SdDataDIR s)) (now env)),
           FileWriteConfig (sd_file_name (cstr (s_SdDataDIR s)) (now env)) (s_puiConfigBuf s), SendMesg GpsTimeMesg 68 (gps_info env)]"
proof -
  obtain t where t: "MesgThread_round env 1 s = Inr t"
    using MesgThread_round_starts [OF assms(1) _ assms(5)] assms(3,4) by blast
  obtain n where "schedule (replicate n Mesg) (p, MesgThread_prog env, s) = Inr (p, Finished, t)"
    using schedule_run(2) [of p "MesgThread_prog env" s] by (auto simp: run_MesgThread t)
  moreover have "effects t = effects s @ (case s_pSdHPFd s of None \<Rightarrow> [] | Some old \<Rightarrow> [FileClose old])
        @ [FileOpen (sd_file_name (cstr (s_SdDataDIR s)) (now env)),
           FileWriteConfig (sd_file_name (cstr (s_SdDataDIR s)) (now env)) (s_puiConfigBuf s), SendMesg GpsTimeMesg 68 (gps_info env)]"
    using t assms(2) by (cases "s_pSdHPFd s")
      (auto simp: MesgThread_round_def open_sd_file_def Let_def effect_def need_def andThen_Inr_iff split: if_splits)
  ultimately show ?thesis using MesgThread_round_ok [OF t assms(1)] by blast
qed

text \<open>
  C23. A pulse during a start command tears the header of the data file: when it comes after \<^verbatim>\<open>Configuration\<close> has stored the
  first word of the settings, the file is opened in the new directory, but its header holds the new work mode followed
  by the old settings, the old directory among them; both threads then run on without a fault.
\<close>

theorem start_command_tears_header:
  assumes "good_config env ls" "(word_of_int (setting ls ''SavePosition'') :: u32) = 0" "app_ok s" "length rest = 6"
    "look ''Coinfiguration'' ''DataDirectory'' False ls = Some dir" "dir \<noteq> []" "length dir \<le> 8"
    "\<forall>p. fopen_ok env' p" "now env' < 2 ^ 31"
  shows "\<exists>ts p t u. schedule ts (App_prog env (command ACQ_START_CMD rest), MesgThread_prog env', s) = Inr (p, Finished, t)
    \<and> effects t = effects s @ (case s_pSdHPFd s of None \<Rightarrow> [] | Some old \<Rightarrow> [FileClose old])
        @ [FileOpen (sd_file_name dir (now env')),
           FileWriteConfig (sd_file_name dir (now env')) (word_of_int (setting ls ''WorkMode'') # drop 1 (s_puiConfigBuf s)),
           SendMesg GpsTimeMesg 68 (gps_info env')]
    \<and> run_prog p t = Inr u \<and> app_ok u"
proof -
  have g: "config_file ls (ini_files env)" "config_fits (settings ls)" "length (lfsr_stack env) = 2048"
    using assms(1) by (auto simp: good_config_def)
  obtain t where t: "schedule (replicate 5 Main) (App_prog env (command ACQ_START_CMD rest), MesgThread_prog env', s) =
      Inr (config_rest env (settings ls), MesgThread_prog env', t)"
    "app_ok t" "s_uiSavePC t = word_of_int (setting ls ''SavePosition'')" "cstr (s_SdDataDIR t) = take 63 dir"
    "s_pSdHPFd t = s_pSdHPFd s" "effects t = effects s"
    "s_puiConfigBuf t = word_of_int (setting ls ''WorkMode'') # drop 1 (s_puiConfigBuf s)"
    using Main_configures [OF g(1) assms(5,6,4,3)] by blast
  have d: "s_uiSavePC t = 0" "cstr (s_SdDataDIR t) = dir" "length (cstr (s_SdDataDIR t)) \<le> 8" using t(3,4) assms(2,7) by simp_all
  obtain ts v where v: "schedule ts (config_rest env (settings ls), MesgThread_prog env', t) = Inr (config_rest env (settings ls), Finished, v)"
    "app_ok v" "effects v = effects t @ (case s_pSdHPFd t of None \<Rightarrow> [] | Some old \<Rightarrow> [FileClose old])
        @ [FileOpen (sd_file_name (cstr (s_SdDataDIR t)) (now env')),
           FileWriteConfig (sd_file_name (cstr (s_SdDataDIR t)) (now env')) (s_puiConfigBuf t), SendMesg GpsTimeMesg 68 (gps_info env')]"
    using Mesg_opens [OF t(2) d(1,3) assms(8,9)] by blast
  obtain u where u: "run_prog (config_rest env (settings ls)) v = Inr u" "app_ok u"
    using keeps_run [OF keeps_config_rest [OF g(2,3), of False], of v] v(2) by (auto simp: goes_ok_def)
  have "schedule (replicate 5 Main @ ts) (App_prog env (command ACQ_START_CMD rest), MesgThread_prog env', s) =
      Inr (config_rest env (settings ls), Finished, v)"
    by (simp only: schedule_append t(1) andThen.simps v(1))
  with v(3) t(5-7) d(2) u show ?thesis by (intro exI) auto
qed

theorem start_command_tears_header_witness:
  "\<exists>ts p t es. schedule ts (App_prog sample_app_env (command ACQ_START_CMD (replicate 6 0)), MesgThread_prog sample_app_env,
       sample_app\<lparr>s_puiConfigBuf := replicate 87 7\<rparr>) = Inr (p, Finished, t)
     \<and> FileWriteConfig ''/mnt/DATA/1000_tx.dat'' (0 # replicate 86 7) \<in> set (effects t)"
proof -
  let ?s = "sample_app\<lparr>s_puiConfigBuf := replicate 87 7\<rparr>"
  have g: "good_config sample_app_env sample_ini"
    using sample_ini_file sample_fits sample_settings(6) by (simp add: good_config_def sample_app_env_def)
  have ok: "app_ok ?s" using sample_app_ok by (simp add: app_ok_def)
  have w: "(word_of_int (setting sample_ini ''SavePosition'') :: u32) = 0"
    by (simp add: setting_def sample_ini_def)
  have e: "\<forall>p. fopen_ok sample_app_env p" "now sample_app_env < 2 ^ 31" by (simp_all add: sample_app_env_def)
  have l: "length (replicate 6 (0::u8)) = 6" "''DATA'' \<noteq> ([] :: char list)" "length ''DATA'' \<le> 8" by simp_all
  have p: "sd_file_name ''DATA'' (now sample_app_env) = ''/mnt/DATA/1000_tx.dat''"
    by (simp add: sd_file_name_def sample_app_env_def printf_d_def dec_nat.simps char_of_def bit_Suc_0_iff)
  have b: "word_of_int (setting sample_ini ''WorkMode'') # drop 1 (s_puiConfigBuf ?s) = 0 # replicate 86 7"
    by (simp add: sample_settings)
  from start_command_tears_header [OF g w ok l(1) sample_settings(6) l(2,3) e, unfolded p b]
  show ?thesis by fastforce
qed

section \<open>Transfers to the PC\<close>

text \<open>
  Rounds of the main thread, with any message, as long as the configuration file can be programmed and selects the PC, and
  rounds of \<^verbatim>\<open>MesgThread\<close>.
\<close>

definition pc_main :: "app_state prog \<Rightarrow> bool" where
  "pc_main p \<longleftrightarrow> p = DeliverData_prog \<or> (\<exists>env recv ls. p = App_prog env recv \<and> good_config env ls
     \<and> (word_of_int (setting ls ''SavePosition'') :: u32) \<noteq> 0)"

definition pc_mesg :: "app_state prog \<Rightarrow> bool" where
  "pc_mesg q \<longleftrightarrow> (\<exists>env. q = MesgThread_prog env)"

lemma keeps_end: "keeps (goes_ok pc) end_acquisition" "keeps (goes_ok pc) end_window"
  by (simp_all add: end_acquisition_def end_window_def goes_ok_ready)

lemma no_card: "goes_ok True s \<Longrightarrow> s_uiSavePC s \<noteq> 0"
  by (simp add: goes_ok_def)

lemma keeps_deliver: "keeps (goes_ok True) deliver_stmts"
  by (auto simp: deliver_stmts_def send_data_def keeps_end dest: no_card)

lemma keeps_stop: "keeps (goes_ok True) (stop_stmts env)"
proof -
  have "keeps (goes_ok True) (Branch (\<lambda>s. s_uiSavePC s = 0) (Branch (\<lambda>s. s_pSdHPFd s \<noteq> None) remove_stmts reply) reply)"
    by (auto simp: keeps_reply dest: no_card)
  then show ?thesis
    by (simp add: stop_stmts_def keeps_set_reg goes_ok_ready keeps_ack)
qed

lemma keeps_App:
  assumes "good_config env ls" "(word_of_int (setting ls ''SavePosition'') :: u32) \<noteq> 0"
  shows "keeps (goes_ok True) (App_prog env recv)"
  using keeps_store [of True _ recv] keeps_start [OF assms(1), of True] assms(2) keeps_stop [of env] keeps_reply
  unfolding App_prog_def Let_def by (simp del: keeps_assign)

interpretation pc: two_threads pc_main pc_mesg "goes_ok True"
proof unfold_locales
  show "keeps (goes_ok True) p" if "pc_main p" for p
    using that keeps_deliver keeps_App by (auto simp: pc_main_def DeliverData_prog_def)
  show "keeps (goes_ok True) q" if "pc_mesg q" for q
    using that by (auto simp: pc_mesg_def MesgThread_prog_def send_mesg_def goes_ok_ready dest: no_card)
qed


definition pc_ini :: "ini_line list" where
  "pc_ini = sample_ini @ [Pair ''SavePosition'' ''1'']"

definition pc_env :: app_env where
  "pc_env = sample_app_env\<lparr>ini_files := (\<lambda>_. Some (render pc_ini))\<rparr>"

lemma pc_env_good: "good_config pc_env pc_ini" "setting pc_ini ''SavePosition'' = 1"
proof -
  have "config_file pc_ini (ini_files pc_env)"
    by (simp add: config_file_def pc_ini_def sample_ini_def pc_env_def doc_ok_def ini_char_defs isspace_def MAX_FILE_SIZE_def)
  moreover have "config_fits (settings pc_ini)"
    by (simp add: config_fits_def settings_def pc_ini_def sample_ini_def setting_def atoi_def digits_val_def isspace_def
        isdigit_def digit_val_def saturate32_def)
  moreover have "look ''Coinfiguration'' ''DataDirectory'' False pc_ini = Some ''DATA''"
    by (simp add: pc_ini_def sample_ini_def)
  ultimately show "good_config pc_env pc_ini" by (simp add: good_config_def pc_env_def sample_app_env_def)
  show "setting pc_ini ''SavePosition'' = 1"
    by (simp add: pc_ini_def sample_ini_def setting_def atoi_def digits_val_def isspace_def isdigit_def digit_val_def saturate32_def)
qed


section \<open>A start command while data flows\<close>

lemma Configuration_destination:
  "\<lbrakk>Configuration env s = Inr (r, s'); read_config (ini_files env) = Inr c\<rbrakk> \<Longrightarrow> s_uiSavePC s' = word_of_int (SavePosition c)"
  by (auto simp: Configuration_def andThen_Inr_iff Let_def split_def set_modes_def reg_set_def)

lemma deliver_null: "\<lbrakk>s_ucIsReady s = TRUE; s_uiSavePC s = 0; s_pSdHPFd s = None\<rbrakk> \<Longrightarrow> DeliverData_s 1 s = Inl NullPointer"
  by (simp add: DeliverData_s_def deliver_window_def fwrite_sd_def Let_def)

text \<open>
  C24. A start command that moves the destination to the card in the middle of a transfer to the PC crashes the program: the
  command is acknowledged, the acquisition stays ready, but no file is open until the next pulse, so that the data interrupt that
  the main loop then waits for makes it write to the null stream.
\<close>

theorem switch_to_card_faults:
  assumes "good_config env ls" "(word_of_int (setting ls ''SavePosition'') :: u32) = 0" "app_ok s" "length rest = 6"
    "s_ucIsReady s = TRUE" "s_pSdHPFd s = None"
  shows "\<exists>s'. App env (command ACQ_START_CMD rest) s = Inr (RET_OK, s') \<and> s_ucIsReady s' = TRUE
    \<and> effects s' = effects s @ [SendCmd (bytes16 ACQ_START_ACK @ [0, 0] @ drop 2 rest)]
    \<and> main_round env (command ACQ_START_CMD rest) 1 s = Inl NullPointer"
proof -
  have g: "config_file ls (ini_files env)" using assms(1) by (simp add: good_config_def)
  let ?t = "s\<lparr>s_pTcpBuff := command ACQ_START_CMD rest @ drop 8 (s_pTcpBuff s)\<rparr>"
  have l: "length (command ACQ_START_CMD rest) = 8" using assms(4) by (simp add: command_def bytes16_def)
  have ok: "goes_ok False ?t" using assms(3) l by (simp add: goes_ok_def app_ok_def TCP_BUFF_SIZE_def)
  have "keeps (goes_ok False) (config_stmts env Finished)" by (rule keeps_config [OF _ assms(1)]) simp_all
  from keeps_run [OF this ok] obtain r c where c: "Configuration env ?t = Inr (r, c)"
    by (auto simp: run_config andThen_Inr_iff)
  have r: "r = 0" "same_rest ?t c" using Configuration_shape [OF c] ok by (simp_all add: goes_ok_def)
  obtain s' where s': "App env (command ACQ_START_CMD rest) s = Inr (RET_OK, s')"
    "effects s' = effects s @ [SendCmd (bytes16 ACQ_START_ACK @ [0, 0] @ drop 2 rest)]"
    "s_uiSavePC s' = s_uiSavePC c" "s_pSdHPFd s' = s_pSdHPFd c"
    using App_starts [OF c assms(3,4)] by blast
  have "s_ucIsReady s' = TRUE" using App_starts_ready [OF s'(1) assms(3,4)] assms(5) by simp
  moreover have "s_uiSavePC s' = 0"
    using Configuration_destination [OF c read_config_settings [OF g]] s'(3) assms(2) by (simp add: settings_def)
  moreover have "s_pSdHPFd s' = None" using s'(4) r(2) assms(6) by (simp add: same_rest_def)
  ultimately show ?thesis
    using s'(1,2) deliver_null [of s'] by (simp add: main_round_def GetReadyFlag_def)
qed

theorem switch_to_card_faults_witness:
  "main_round sample_app_env (command ACQ_START_CMD (replicate 6 0)) 1 (sample_app\<lparr>s_uiSavePC := 1, s_ucIsReady := TRUE\<rparr>) =
     Inl NullPointer"
proof -
  let ?s = "sample_app\<lparr>s_uiSavePC := 1, s_ucIsReady := TRUE\<rparr>"
  have g: "good_config sample_app_env sample_ini"
    using sample_ini_file sample_fits sample_settings(6) by (simp add: good_config_def sample_app_env_def)
  have w: "(word_of_int (setting sample_ini ''SavePosition'') :: u32) = 0" by (simp add: setting_def sample_ini_def)
  have ok: "app_ok ?s" using sample_app_ok by (simp add: app_ok_def)
  have "length (replicate 6 (0::u8)) = 6" "s_ucIsReady ?s = TRUE" "s_pSdHPFd ?s = None" by (simp_all add: sample_app_def)
  from switch_to_card_faults [OF g w ok this] show ?thesis by blast
qed

end
