(* ===== verification/Board.thy ===== *)
theory Board
  imports AppSpec GpsDecode IrqDrivers
begin

text \<open>
  The board as one system: the two interrupt drivers, the threads of the application and the GPS receiver
  in one step relation, with the lemmas on what a step and a run send.
\<close>

section \<open>The system\<close>

text \<open>
  \<open>waits\<close>: the main thread has found the acquisition ready and is in the read of the data device; otherwise it is
  at \<^verbatim>\<open>App\<close>.
\<close>

record board =
  pps_dev :: irq_state
  data_dev :: data_irq_state
  gps_rx :: gps_state
  app :: app_state
  waits :: bool

text \<open>
  The interrupts of the two lines, the two reads that return, a command round of the main thread (with what
  the socket has, which may be nothing), a line from the receiver.
\<close>

datatype board_event = Pulse | DataReady | PulseSeen | Command "u8 list" | DataSeen | GpsLine "char list"

text \<open>
  A round of a thread is one step. The environment of a step is arbitrary; only the GPS data that \<^verbatim>\<open>MesgThread\<close>
  copies is that of the receiver.
\<close>

inductive board_step :: "(gps_state \<Rightarrow> u32 \<times> u32) \<Rightarrow> board \<Rightarrow> board_event \<Rightarrow> board \<Rightarrow> bool" for junk where
  board_pulse: "board_step junk b Pulse (b\<lparr>pps_dev := IRQ (pps_dev b)\<rparr>)"
| board_data_ready: "board_step junk b DataReady (b\<lparr>data_dev := data_IRQ (data_dev b)\<rparr>)"
| board_pulse_seen: "\<lbrakk>counter_irq_read False (pps_dev b) = Some (n, d);
    MesgThread_round (env\<lparr>gps_info := GetGpsInfo (gps_rx b)\<rparr>) n (app b) = Inr s\<rbrakk>
    \<Longrightarrow> board_step junk b PulseSeen (b\<lparr>pps_dev := d, app := s\<rparr>)"
| board_command: "\<lbrakk>\<not> waits b; App env recv (app b) = Inr (r, s)\<rbrakk>
    \<Longrightarrow> board_step junk b (Command recv) (b\<lparr>app := s, waits := (GetReadyFlag s = TRUE)\<rparr>)"
| board_data_seen: "\<lbrakk>waits b; data_irq_read False (data_dev b) = Some (n, d); DeliverData_s n (app b) = Inr s\<rbrakk>
    \<Longrightarrow> board_step junk b DataSeen (b\<lparr>data_dev := d, app := s, waits := False\<rparr>)"
| board_gps_line: "GpsThread_round junk line (gps_rx b) = Inr g \<Longrightarrow> board_step junk b (GpsLine line) (b\<lparr>gps_rx := g\<rparr>)"

inductive_cases board_stepE: "board_step junk b e b'"

inductive board_run :: "(gps_state \<Rightarrow> u32 \<times> u32) \<Rightarrow> board \<Rightarrow> board_event list \<Rightarrow> board \<Rightarrow> bool" for junk b0 where
  board_start: "board_run junk b0 [] b0"
| board_next: "\<lbrakk>board_run junk b0 es b; board_step junk b e b'\<rbrakk> \<Longrightarrow> board_run junk b0 (es @ [e]) b'"

section \<open>The devices in a run\<close>

text \<open>
  A run of the board is a run of each of the two interrupt drivers.
\<close>

fun data_events :: "board_event \<Rightarrow> irq_event list" where
  "data_events DataReady = [Interrupt]"
| "data_events DataSeen = [ReadReturns]"
| "data_events _ = []"

fun pulse_events :: "board_event \<Rightarrow> irq_event list" where
  "pulse_events Pulse = [Interrupt]"
| "pulse_events PulseSeen = [ReadReturns]"
| "pulse_events _ = []"

lemma board_data_run:
  "board_run junk b0 es b \<Longrightarrow> irq_run data_IRQ data_irq_read (data_dev b0) (concat (map data_events es)) (data_dev b)"
proof (induction rule: board_run.induct)
  case (board_next es b e b')
  from board_next(2,3) show ?case
    by (cases rule: board_step.cases) (auto intro: run_interrupt run_read)
qed (simp add: run_start)

lemma board_pulse_run:
  "board_run junk b0 es b \<Longrightarrow> irq_run IRQ counter_irq_read (pps_dev b0) (concat (map pulse_events es)) (pps_dev b)"
proof (induction rule: board_run.induct)
  case (board_next es b e b')
  from board_next(2,3) show ?case
    by (cases rule: board_step.cases) (auto intro: run_interrupt run_read)
qed (simp add: run_start)

lemma occurs_events:
  "occurs Interrupt (concat (map data_events es)) = count_list es DataReady"
  "occurs ReadReturns (concat (map data_events es)) = count_list es DataSeen"
  "occurs Interrupt (concat (map pulse_events es)) = count_list es Pulse"
  "occurs ReadReturns (concat (map pulse_events es)) = count_list es PulseSeen"
proof -
  have a: "occurs x (xs @ ys) = occurs x xs + occurs x ys" for x xs ys by (simp add: occurs_def)
  have d: "occurs Interrupt (data_events e) = (if e = DataReady then 1 else 0)"
    "occurs ReadReturns (data_events e) = (if e = DataSeen then 1 else 0)"
    "occurs Interrupt (pulse_events e) = (if e = Pulse then 1 else 0)"
    "occurs ReadReturns (pulse_events e) = (if e = PulseSeen then 1 else 0)" for e
    by (cases e; simp add: occurs_def)+
  show "occurs Interrupt (concat (map data_events es)) = count_list es DataReady"
    "occurs ReadReturns (concat (map data_events es)) = count_list es DataSeen"
    "occurs Interrupt (concat (map pulse_events es)) = count_list es Pulse"
    "occurs ReadReturns (concat (map pulse_events es)) = count_list es PulseSeen"
    by (induction es) (simp_all add: a d)
qed

section \<open>What a step sends\<close>

fun is_mesg :: "app_effect \<Rightarrow> bool" where
  "is_mesg (SendMesg n l d) = True" | "is_mesg _ = False"

fun is_reply :: "app_effect \<Rightarrow> bool" where
  "is_reply (SendCmd bs) = True" | "is_reply _ = False"

lemma App_sends:
  assumes "App env recv s = Inr (r, s')" "app_ok s"
  shows "\<exists>es. effects s' = effects s @ es \<and> stream_of es = [] \<and> filter is_mesg es = [] "
proof -
  define b where "b = take TCP_BUFF_SIZE recv"
  define t where "t = s\<lparr>s_pTcpBuff := b @ drop (length b) (s_pTcpBuff s)\<rparr>"
  have t: "app_ok t" "effects t = effects s" using assms(2) by (simp_all add: t_def app_ok_def b_def)
  show ?thesis
  proof (cases "b = []")
    case True
    with assms show ?thesis by (simp add: App_def b_def)
  next
    case False
    with assms obtain u where u: "(case GetCmdHandler (usCmd (s_pCmdHead (s_pTcpBuff t))) of
                   None \<Rightarrow> Inr t
                 | Some h \<Rightarrow> andThen (run_handler env h t) (\<lambda>(_, s). Inr s)) = Inr u"
      "s' = effect [SendCmd (take (unat (s_uiTcpSendLen u)) (s_pTcpBuff u))] u"
      unfolding App_def Let_def b_def [symmetric] t_def [symmetric] by (auto simp: andThen_Inr_iff)
    have st: "\<exists>es. effects v = effects t @ es \<and> stream_of es = [] \<and> filter is_mesg es = []" if "AcqStart env t = Inr (q, v)" for q v
      using that t(1) by (auto simp: AcqStart_def andThen_Inr_iff Let_def reg_set_def same_rest_def dest: Configuration_shape)
    have sp: "\<exists>es. effects v = effects t @ es \<and> stream_of es = [] \<and> filter is_mesg es = []" if "AcqStop env t = (q, v)" for q v
      using that by (auto simp: AcqStop_def Let_def reg_set_def effect_def split: option.splits if_splits)
    have "\<exists>es. effects u = effects t @ es \<and> stream_of es = [] \<and> filter is_mesg es = []"
      using u(1) by (auto simp: run_handler_def andThen_Inr_iff dest: st sp split: option.splits CmdHandler.splits)
    then show ?thesis using u(2) t(2) by auto
  qed
qed

lemma fwrite_sd_sends: "fwrite_sd n s = Inr s' \<Longrightarrow> \<exists>path. s' = effect [FileWrite path (s_puiAddr s) (ucast n)] s"
  by (auto simp: fwrite_sd_def split: option.splits)

lemma span_sends:
  assumes "span n s = Inr s'" "n \<le> BRAM_SIZE"
  shows "\<exists>es. s' = effect es s \<and> length (stream_of es) \<le> 65536 \<and> filter is_mesg es = [] \<and> filter is_reply es = []"
proof -
  have n: "unat n \<le> 65536" using assms(2) package_numbers by (simp add: word_le_nat_alt)
  show ?thesis
  proof (cases "s_uiSavePC s = 0")
    case True
    with assms(1) fwrite_sd_sends [of n s s'] n show ?thesis by (auto simp: span_def ucast_small)
  next
    case False
    have "\<not> n \<le> PACKAGE_SIZE \<Longrightarrow> unat (n - PACKAGE_SIZE) = unat n - 32768"
      by (simp add: unat_sub package_numbers word_le_nat_alt)
    with False assms(1) n show ?thesis
      by (intro exI [of _ "sends_of n (s_puiAddr s)"]) (auto simp: span_def sends_of_def ucast_small package_numbers)
  qed
qed

lemma deliver_window_sends:
  "deliver_window s = Inr s' \<Longrightarrow> \<exists>es. effects s' = effects s @ es \<and> length (stream_of es) \<le> 65536
    \<and> filter is_mesg es = [] \<and> filter is_reply es = []"
  by (auto simp: deliver_window_span Let_def andThen_Inr_iff dest!: span_sends split: if_splits)

lemma DeliverData_s_sends:
  "DeliverData_s n s = Inr s' \<Longrightarrow> \<exists>es. effects s' = effects s @ es \<and> length (stream_of es) \<le> 65536
    \<and> filter is_mesg es = [] \<and> filter is_reply es = []"
  by (auto simp: DeliverData_s_def Let_def dest!: deliver_window_sends split: if_splits)

lemma MesgThread_sends:
  assumes "MesgThread_round env n s = Inr s'"
  shows "\<exists>es. effects s' = effects s @ es \<and> stream_of es = [] \<and> length (filter is_mesg es) \<le> 1
    \<and> filter is_reply es = [] \<and> csr s' = csr s \<and> (n = 1 \<longrightarrow> (\<exists>ds. es = ds @ [SendMesg GpsTimeMesg 68 (gps_info env)]))"
  using assms
  by (auto simp: MesgThread_round_def open_sd_file_def need_def effect_def Let_def andThen_Inr_iff
      split: if_splits option.splits)

lemma board_step_ok:
  assumes "board_step junk b e b'" "app_ok (app b)"
  shows "app_ok (app b')"
  using assms by (cases rule: board_step.cases) (auto intro: MesgThread_round_ok App_ok DeliverData_s_ok)

text \<open>What an event adds to the samples and to the messages.\<close>

lemma board_step_sends:
  assumes "board_step junk b e b'" "app_ok (app b)"
  shows "length (stream_of (effects (app b'))) \<le> length (stream_of (effects (app b))) + (if e = DataSeen then 65536 else 0)
    \<and> length (filter is_mesg (effects (app b'))) \<le> length (filter is_mesg (effects (app b))) + (if e = PulseSeen then 1 else 0)"
  using assms
proof (cases rule: board_step.cases)
  case (board_pulse_seen n d env s)
  from MesgThread_sends [OF this(4)] this(1,2) show ?thesis by auto
next
  case (board_command env recv r s)
  from App_sends [OF this(4) assms(2)] this(1,2) show ?thesis by auto
next
  case (board_data_seen n d s)
  from DeliverData_s_sends [OF this(5)] this(1,2) show ?thesis by auto
qed simp_all

lemma board_run_sends:
  assumes "board_run junk b0 es b" "app_ok (app b0)"
  shows "app_ok (app b)
    \<and> length (stream_of (effects (app b))) \<le> length (stream_of (effects (app b0))) + 65536 * count_list es DataSeen
    \<and> length (filter is_mesg (effects (app b))) \<le> length (filter is_mesg (effects (app b0))) + count_list es PulseSeen"
  using assms(1)
proof (induction rule: board_run.induct)
  case (board_next es b e b')
  with board_step_ok [OF board_next(2)] board_step_sends [OF board_next(2)] show ?case by (auto split: if_splits)
qed (simp add: assms(2))

section \<open>Waiting\<close>

lemma board_waiting:
  assumes "board_run junk b es b'" "waits b" "dataIrqHappend (data_dev b) = 0" "DataReady \<notin> set es"
  shows "waits b' \<and> dataIrqHappend (data_dev b') = 0 \<and> (\<forall>recv. Command recv \<notin> set es)
    \<and> csr (app b') = csr (app b) \<and> filter is_reply (effects (app b')) = filter is_reply (effects (app b))"
  using assms
proof (induction rule: board_run.induct)
  case (board_next es b1 e b2)
  then have w: "waits b1" "dataIrqHappend (data_dev b1) = 0" "e \<noteq> DataReady" by auto
  from board_next(2) w have "waits b2 \<and> dataIrqHappend (data_dev b2) = 0 \<and> (\<forall>recv. e \<noteq> Command recv)
    \<and> csr (app b2) = csr (app b1) \<and> filter is_reply (effects (app b2)) = filter is_reply (effects (app b1))"
  proof (cases rule: board_step.cases)
    case (board_pulse_seen n d env s)
    from MesgThread_sends [OF this(4)] this(1,2) w show ?thesis by auto
  qed (auto simp: data_irq_read_def)
  with board_next show ?case by auto
qed simp

section \<open>Time and position\<close>

lemma cstr_sentence:
  assumes "sentence_ok fs"
  shows "cstr (sentence fs) = sentence fs"
proof (rule cstr_NUL)
  have "\<forall>f \<in> set fs. \<forall>c \<in> set f. body_char c" using assms by (simp add: sentence_ok_def)
  from join_chars [OF this] have "NUL \<notin> set (join (CHR '','') fs)" by (auto simp: body_char_def)
  moreover have "NUL \<notin> set (hex2 b)" for b using hex2_chars [of b] by blast
  ultimately show "NUL \<notin> set (sentence fs)" by (simp add: sentence_def Let_def)
qed

lemma board_no_line:
  assumes "board_run junk b es b'" "\<forall>l. GpsLine l \<notin> set es"
  shows "gps_rx b' = gps_rx b"
  using assms
proof (induction rule: board_run.induct)
  case (board_next es b1 e b2)
  from board_next(2) board_next(3,4) show ?case by (cases rule: board_step.cases) auto
qed simp

lemma board_mesg:
  assumes "board_step junk b PulseSeen b'"
  shows "\<exists>es. effects (app b') = es @ [SendMesg GpsTimeMesg 68 (gps_data (gps_rx b))]"
  using assms
proof (cases rule: board_step.cases)
  case (board_pulse_seen n d env s)
  moreover have "n = 1" using board_pulse_seen(2) by (simp add: counter_irq_read_def split: if_splits)
  ultimately show ?thesis using MesgThread_sends [OF board_pulse_seen(3)] by (auto simp: GetGpsInfo_def)
qed

section \<open>Rounds of delivery\<close>

lemma board_run_trans: "\<lbrakk>board_run junk b fs c; board_run junk a es b\<rbrakk> \<Longrightarrow> board_run junk a (es @ fs) c"
proof (induction rule: board_run.induct)
  case (board_next fs c e d)
  from board_run.board_next [OF board_next(3) [OF board_next(4)] board_next(2)] show ?case by simp
qed simp

definition data_round :: "board_event list" where
  "data_round = [Command [], DataReady, DataSeen]"

lemma board_data_round:
  assumes "\<not> waits b" "s_ucIsReady (app b) = TRUE" "DeliverData_s 1 (app b) = Inr s"
  shows "\<exists>b'. board_run junk b data_round b' \<and> app b' = s \<and> \<not> waits b'"
proof -
  have "board_step junk b (Command []) (b\<lparr>app := app b, waits := (GetReadyFlag (app b) = TRUE)\<rparr>)"
    using assms(1) by (intro board_command) (simp_all add: App_def)
  moreover have "b\<lparr>app := app b, waits := (GetReadyFlag (app b) = TRUE)\<rparr> = b\<lparr>waits := True\<rparr>"
    using assms(2) by (cases b) (simp add: GetReadyFlag_def)
  ultimately have 1: "board_run junk b ([] @ [Command []]) (b\<lparr>waits := True\<rparr>)"
    by (intro board_next [OF board_start]) simp
  note 2 = board_next [OF 1 board_data_ready]
  have "board_step junk (b\<lparr>waits := True, data_dev := data_IRQ (data_dev b)\<rparr>) DataSeen
    (b\<lparr>waits := True, data_dev := data_IRQ (data_dev b), data_dev := (data_dev b)\<lparr>dataIrqHappend := 0\<rparr>, app := s, waits := False\<rparr>)"
    using assms(3) by (intro board_data_seen) (auto simp: data_irq_read_def data_IRQ_def)
  from board_next [OF 2, of DataSeen] this show ?thesis
    by (auto simp: data_round_def intro!: exI)
qed

lemma board_step_appends:
  assumes "board_step junk b e b'" "app_ok (app b)"
  shows "prefix (effects (app b)) (effects (app b'))"
  using assms
proof (cases rule: board_step.cases)
  case (board_pulse_seen n d env s)
  from MesgThread_sends [OF this(4)] this(1,2) show ?thesis by auto
next
  case (board_command env recv r s)
  from App_sends [OF this(4) assms(2)] this(1,2) show ?thesis by auto
next
  case (board_data_seen n d s)
  from DeliverData_s_sends [OF this(5)] this(1,2) show ?thesis by auto
qed simp_all

lemma board_run_appends:
  assumes "board_run junk b es b'" "app_ok (app b)"
  shows "prefix (effects (app b)) (effects (app b'))"
  using assms(1)
proof (induction rule: board_run.induct)
  case (board_next es b1 e b2)
  then have "app_ok (app b1)" using board_run_sends assms(2) by blast
  with board_step_appends [OF board_next(2)] board_next(3) show ?case by (metis prefix_order.trans)
qed simp

lemma board_deliver_rounds:
  assumes "\<not> waits b" "\<And>k. k < n \<Longrightarrow> \<exists>u. deliver_n k (app b) = Inr u \<and> s_ucIsReady u = TRUE"
    "deliver_n n (app b) = Inr t"
  shows "\<exists>b'. board_run junk b (concat (replicate n data_round)) b' \<and> app b' = t \<and> \<not> waits b'"
  using assms(2,3)
proof (induction n arbitrary: t)
  case 0
  then show ?case using assms(1) by (auto intro: board_start)
next
  case (Suc n)
  obtain u where u: "deliver_n n (app b) = Inr u" "s_ucIsReady u = TRUE" using Suc.prems(1) [of n] by blast
  obtain b1 where b1: "board_run junk b (concat (replicate n data_round)) b1" "app b1 = u" "\<not> waits b1"
    using Suc.IH [OF Suc.prems(1) u(1)] by auto
  have "DeliverData_s 1 u = Inr t" using Suc.prems(2) u(1) by simp
  with board_data_round [OF b1(3)] b1(2) u(2) obtain b2 where
    b2: "board_run junk b1 data_round b2" "app b2 = t" "\<not> waits b2" by blast
  have "concat (replicate (Suc n) data_round) = concat (replicate n data_round) @ data_round"
    by (simp add: replicate_append_same [symmetric])
  then have "board_run junk b (concat (replicate (Suc n) data_round)) b2"
    using board_run_trans [OF b2(1) b1(1)] by simp
  with b2 show ?case by blast
qed

section \<open>A sample\<close>

definition sample_board :: board where
  "sample_board = \<lparr>pps_dev = \<lparr>irqHappend = 0, lines_held = [91]\<rparr>,
     data_dev = \<lparr>dataIrqHappend = 0, data_lines_held = [90]\<rparr>, gps_rx = sample_gps, app = sample_app, waits = False\<rparr>"

end
