(* ===== verification/MesgWire.thy ===== *)
theory MesgWire
  imports AppSpec
begin

text \<open>
  The bytes of the message that \<^verbatim>\<open>MesgThread\<close> sends: the header of \<^verbatim>\<open>app.h\<close> and the structure of \<^verbatim>\<open>gps.h\<close>, copied as it
  lies in the memory of the target, and that a reader gets every field back.
\<close>

unbundle bit_operations_syntax

section \<open>Bytes\<close>

text \<open>A word in memory, and the word at an offset.\<close>

definition word_bytes :: "u32 \<Rightarrow> u8 list" where
  "word_bytes w = [ucast w, ucast (drop_bit 8 w), ucast (drop_bit 16 w), ucast (drop_bit 24 w)]"

definition word_at :: "u8 list \<Rightarrow> nat \<Rightarrow> u32" where
  "word_at bs k = ucast (bs ! k) OR push_bit 8 (ucast (bs ! (k + 1))) OR push_bit 16 (ucast (bs ! (k + 2)))
     OR push_bit 24 (ucast (bs ! (k + 3)))"

lemma word_at_bytes:
  "(ucast (ucast w :: u8) :: u32) OR push_bit 8 (ucast (ucast (drop_bit 8 w) :: u8)) OR push_bit 16 (ucast (ucast (drop_bit 16 w) :: u8))
     OR push_bit 24 (ucast (ucast (drop_bit 24 w) :: u8)) = w" for w :: u32
proof (rule bit_word_eqI)
  fix n assume "n < LENGTH(32)"
  then consider "n < 8" | "8 \<le> n" "n < 16" | "16 \<le> n" "n < 24" | "24 \<le> n" "n < 32" by force
  then show "bit ((ucast (ucast w :: u8) :: u32) OR push_bit 8 (ucast (ucast (drop_bit 8 w) :: u8)) OR push_bit 16 (ucast (ucast (drop_bit 16 w) :: u8))
     OR push_bit 24 (ucast (ucast (drop_bit 24 w) :: u8))) n = bit w n"
    by cases (auto simp: bit_simps)
qed

section \<open>The message\<close>

text \<open>
  \<^verbatim>\<open>struct gps_data_t\<close> as it lies in memory: 32-bit little-endian words, four characters in the middle, no gaps.
  The reserved word of the header is never written and stays 0 as the static buffer began.
\<close>

definition gps_bytes :: "gps_data_t \<Rightarrow> u8 list" where
  "gps_bytes d =
     (let t = d_tm_time d in
      word_bytes (tm_sec t) @ word_bytes (tm_min t) @ word_bytes (tm_hour t) @ word_bytes (tm_mday t) @ word_bytes (tm_mon t)
      @ word_bytes (tm_year t) @ word_bytes (tm_zone t)
      @ word_bytes (ns_d d) @ word_bytes (ns_m10000 d) @ word_bytes (ew_d d) @ word_bytes (ew_m10000 d)
      @ map of_char [ns d, ew d, status d, card d]
      @ word_bytes (speed100 d) @ word_bytes (cog100 d) @ word_bytes (count d) @ word_bytes (height_d d) @ word_bytes (height_m d))"

definition mesg_bytes :: "u16 \<Rightarrow> u16 \<Rightarrow> gps_data_t \<Rightarrow> u8 list" where
  "mesg_bytes mesg len d = bytes16 mesg @ bytes16 len @ [0, 0, 0, 0] @ gps_bytes d"

text \<open>What a reader with the same structures takes from the bytes.\<close>

definition read_mesg :: "u8 list \<Rightarrow> u16 \<times> u16 \<times> gps_data_t" where
  "read_mesg bs =
     (let w = (\<lambda>k. word_at bs (8 + k)) in
      (le16 (bs ! 0) (bs ! 1), le16 (bs ! 2) (bs ! 3),
       \<lparr>d_tm_time = \<lparr>tm_sec = w 0, tm_min = w 4, tm_hour = w 8, tm_mday = w 12, tm_mon = w 16, tm_year = w 20, tm_zone = w 24\<rparr>,
         ns_d = w 28, ns_m10000 = w 32, ew_d = w 36, ew_m10000 = w 40,
         ns = char_of (unat (bs ! 52)), ew = char_of (unat (bs ! 53)), status = char_of (unat (bs ! 54)), card = char_of (unat (bs ! 55)),
         speed100 = w 48, cog100 = w 52, count = w 56, height_d = w 60, height_m = w 64\<rparr>))"

lemma length_mesg_bytes: "length (mesg_bytes m l d) = 76"
  by (simp add: mesg_bytes_def gps_bytes_def bytes16_def word_bytes_def Let_def)

lemma read_mesg_bytes: "read_mesg (mesg_bytes m l d) = (m, l, d)"
proof -
  have h: "le16 (ucast w) (ucast (drop_bit 8 w)) = w" for w
    using le16_bytes by (simp add: bytes16_def)
  have c: "char_of (unat (of_char c :: u8)) = c" for c :: char
  proof -
    have "unat (of_nat (of_char c) :: u8) = of_char c"
      using nat_of_char_less_256 [of c] by (simp add: unat_of_nat take_bit_nat_eq_self)
    then have "unat (of_char c :: u8) = of_char c" by (simp only: of_nat_of_char)
    then show ?thesis by simp
  qed
  show ?thesis
    unfolding read_mesg_def mesg_bytes_def gps_bytes_def bytes16_def word_bytes_def word_at_def Let_def
    by (simp add: h c word_at_bytes)
qed

end
