(* ===== verification/BoardSpec.thy ===== *)
theory BoardSpec
  imports Board MesgWire
begin

text \<open>
  Properties of runs of the board: data and messages are bounded by the interrupts; a main thread that
  waits for data hears no command, and a pulse after a stop command makes it wait; the message of a pulse carries
  the position last received; one window lost leaves the delivery out of step.
\<close>

section \<open>Traffic\<close>



section \<open>Commands\<close>

text \<open>
  Once the main thread waits for data it hears no command: as long as no data interrupt comes, no
  command is received or answered and no register changes, whatever else happens; a stop command
  stays unread while the receiver it should switch off is silent.
\<close>

theorem board_waiting_ignores_commands:
  assumes "board_run junk b es b'" "waits b" "dataIrqHappend (data_dev b) = 0" "DataReady \<notin> set es"
  shows "\<not> board_step junk b' (Command recv) b'' \<and> Command recv \<notin> set es
    \<and> csr (app b') = csr (app b) \<and> filter is_reply (effects (app b')) = filter is_reply (effects (app b))"
  using board_waiting [OF assms] by (auto elim: board_step.cases)

theorem board_waiting_ignores_commands_witness:
  "\<not> (\<exists>b'. board_step (\<lambda>_. (0, 0)) (sample_board\<lparr>waits := True, pps_dev := IRQ (pps_dev sample_board)\<rparr>)
      (Command (command ACQ_STOP_CMD [0, 0, 0, 0, 0, 0])) b')"
proof -
  have "board_run (\<lambda>_. (0, 0)) (sample_board\<lparr>waits := True\<rparr>) ([] @ [Pulse])
      (sample_board\<lparr>waits := True, pps_dev := IRQ (pps_dev sample_board)\<rparr>)"
    using board_next [OF board_start board_pulse, of "\<lambda>_. (0, 0)" "sample_board\<lparr>waits := True\<rparr>"] by simp
  from board_waiting_ignores_commands [OF this] show ?thesis by (simp add: sample_board_def)
qed

lemma board_stop_pulse:
  assumes "app_ok (app b)" "\<not> waits b" "length rest = 6" "length (cstr (s_SdDataDIR (app b))) \<le> 8"
  shows "\<exists>b1 fs gs. board_run junk b [Command (command ACQ_STOP_CMD rest), Pulse, PulseSeen, Command []] b1
    \<and> waits b1 \<and> data_dev b1 = data_dev b
    \<and> effects (app b1) = fs @ SendCmd (bytes16 ACQ_STOP_ACK @ [0, 0] @ drop 2 rest) # gs"
proof -
  let ?e = sample_app_env and ?env = "sample_app_env\<lparr>gps_info := GetGpsInfo (gps_rx b)\<rparr>"
  obtain s1 fs where s1: "App ?e (command ACQ_STOP_CMD rest) (app b) = Inr (RET_OK, s1)" "s_SdDataDIR s1 = s_SdDataDIR (app b)"
    "s_ucIsReady s1 = FALSE" "effects s1 = effects (app b) @ fs @ [SendCmd (bytes16 ACQ_STOP_ACK @ [0, 0] @ drop 2 rest)]"
    using App_stop_same [OF assms(3,1)] by blast
  have ok: "app_ok s1" using App_ok [OF s1(1) assms(1)] .
  obtain s2 where s2: "MesgThread_round ?env 1 s1 = Inr s2" "s_ucIsReady s2 = TRUE"
    using MesgThread_round_starts [OF ok, of ?env] s1(2) assms(4) by (auto simp: sample_app_env_def)
  define b1 where "b1 = b\<lparr>app := s1, waits := (GetReadyFlag s1 = TRUE)\<rparr>"
  have r: "\<not> waits b1" using s1(3) by (simp add: b1_def GetReadyFlag_def TRUE_def FALSE_def)
  define b2 where "b2 = b1\<lparr>pps_dev := IRQ (pps_dev b1)\<rparr>"
  define b3 where "b3 = b2\<lparr>pps_dev := (pps_dev b2)\<lparr>irqHappend := 0\<rparr>, app := s2\<rparr>"
  define b4 where "b4 = b3\<lparr>waits := True\<rparr>"
  have 1: "board_step junk b (Command (command ACQ_STOP_CMD rest)) b1"
    unfolding b1_def by (rule board_command [OF assms(2) s1(1)])
  have 2: "board_step junk b1 Pulse b2" unfolding b2_def by (rule board_pulse)
  have 3: "board_step junk b2 PulseSeen b3"
    unfolding b3_def by (rule board_pulse_seen [where n = 1 and env = ?e])
      (use s2 in \<open>simp_all add: b2_def b1_def counter_irq_read_def IRQ_def\<close>)
  have "\<not> waits b3" using r by (simp add: b3_def b2_def)
  then have 4: "board_step junk b3 (Command []) b4"
    using board_command [of b3 ?e "[]" RET_OK s2 junk] s2(2) by (simp add: App_def b4_def b3_def GetReadyFlag_def)
  have run: "board_run junk b [Command (command ACQ_STOP_CMD rest), Pulse, PulseSeen, Command []] b4"
    using board_next [OF board_next [OF board_next [OF board_next [OF board_start 1] 2] 3] 4] by simp
  have "board_run junk b1 [Pulse, PulseSeen, Command []] b4"
    using board_next [OF board_next [OF board_next [OF board_start 2] 3] 4] by simp
  moreover have "app_ok (app b1)" using ok by (simp add: b1_def)
  ultimately have "prefix (effects s1) (effects (app b4))" using board_run_appends by (fastforce simp: b1_def)
  then obtain gs where "effects (app b4) = (effects (app b) @ fs) @ SendCmd (bytes16 ACQ_STOP_ACK @ [0, 0] @ drop 2 rest) # gs"
    using s1(4) by (auto simp: prefix_def)
  moreover have "waits b4" "data_dev b4 = data_dev b" by (simp_all add: b4_def b3_def b2_def b1_def)
  ultimately show ?thesis using run by blast
qed

text \<open>
  C26. A stop command can leave the board deaf: from any well-formed idle state there is a run in which the stop command
  is acknowledged, a pulse follows, and the main thread polls its socket once more; after that, in every
  continuation in which the switched-off receiver raises no data interrupt, no command is ever received again.
\<close>

theorem board_stop_deafens:
  assumes "app_ok (app b)" "\<not> waits b" "dataIrqHappend (data_dev b) = 0" "length rest = 6"
    "length (cstr (s_SdDataDIR (app b))) \<le> 8"
  shows "\<exists>b1 fs gs. board_run junk b [Command (command ACQ_STOP_CMD rest), Pulse, PulseSeen, Command []] b1
    \<and> effects (app b1) = fs @ SendCmd (bytes16 ACQ_STOP_ACK @ [0, 0] @ drop 2 rest) # gs
    \<and> (\<forall>es b2 recv b3. board_run junk b1 es b2 \<longrightarrow> DataReady \<notin> set es \<longrightarrow>
         Command recv \<notin> set es \<and> \<not> board_step junk b2 (Command recv) b3)"
proof -
  obtain b1 fs gs where b1: "board_run junk b [Command (command ACQ_STOP_CMD rest), Pulse, PulseSeen, Command []] b1"
    "waits b1" "data_dev b1 = data_dev b" "effects (app b1) = fs @ SendCmd (bytes16 ACQ_STOP_ACK @ [0, 0] @ drop 2 rest) # gs"
    using board_stop_pulse [OF assms(1,2,4,5)] by blast
  have "Command recv \<notin> set es \<and> \<not> board_step junk b2 (Command recv) b3"
    if "board_run junk b1 es b2" "DataReady \<notin> set es" for es b2 recv b3
    using board_waiting [OF that(1) b1(2) _ that(2)] b1(3) assms(3) by (auto elim: board_step.cases)
  with b1(1,4) show ?thesis by blast
qed

theorem board_stop_deafens_witness:
  "\<exists>b1. board_run (\<lambda>_. (0, 0)) sample_board [Command (command ACQ_STOP_CMD (replicate 6 0)), Pulse, PulseSeen, Command []] b1
    \<and> \<not> (\<exists>b2. board_step (\<lambda>_. (0, 0)) b1 (Command (command ACQ_START_CMD (replicate 6 0))) b2)"
proof -
  have "app_ok (app sample_board)" "\<not> waits sample_board" "dataIrqHappend (data_dev sample_board) = 0" "length (replicate 6 (0::u8)) = 6"
    "length (cstr (s_SdDataDIR (app sample_board))) \<le> 8"
    by (simp_all add: sample_board_def sample_app_ok) (simp add: sample_app_def cstr_def)
  from board_stop_deafens [OF this, of "\<lambda>_. (0, 0)"] obtain b1 where
    b1: "board_run (\<lambda>_. (0, 0)) sample_board [Command (command ACQ_STOP_CMD (replicate 6 0)), Pulse, PulseSeen, Command []] b1"
    "\<And>es b2 recv b3. board_run (\<lambda>_. (0, 0)) b1 es b2 \<Longrightarrow> DataReady \<notin> set es \<Longrightarrow> \<not> board_step (\<lambda>_. (0, 0)) b2 (Command recv) b3"
    by blast
  show ?thesis using b1(1) b1(2) [OF board_start] by (intro exI [of _ b1]) auto
qed

section \<open>Position\<close>

text \<open>
  C6. The message of a pulse tells where and when the board last knew it was: after a line with a correct
  position sentence, and until the next line, the message that a pulse makes \<^verbatim>\<open>MesgThread\<close> send carries the
  time, date, position, hemispheres and status that the sentence prints, and a reader of its 76 bytes finds them.
\<close>

theorem board_message_carries_fix:
  assumes "gps_ready (gps_rx b)" "rmc_ok r" "\<not> timesync (gps_rx b)"
    "board_step junk b (GpsLine (sentence (rmc_fields r))) b1" "board_run junk b1 es b2" "\<forall>l. GpsLine l \<notin> set es"
    "board_step junk b2 PulseSeen b3"
  shows "\<exists>fs d. effects (app b3) = fs @ [SendMesg GpsTimeMesg 68 d]
    \<and> length (mesg_bytes GpsTimeMesg 68 d) = 76 \<and> read_mesg (mesg_bytes GpsTimeMesg 68 d) = (GpsTimeMesg, 68, d)
    \<and> d_tm_time d = \<lparr>tm_sec = of_nat (r_sec r), tm_min = of_nat (r_min r), tm_hour = of_nat (r_hour r),
        tm_mday = of_nat (r_day r), tm_mon = of_nat (r_month r), tm_year = of_nat (2000 + r_year r), tm_zone = 0\<rparr>
    \<and> ns_d d = of_nat (r_lat_d r) \<and> ns_m10000 d = of_nat (10000 * r_lat_m r + r_lat_f r)
    \<and> ew_d d = of_nat (r_lon_d r) \<and> ew_m10000 d = of_nat (10000 * r_lon_m r + r_lon_f r)
    \<and> ns d = r_ns r \<and> ew d = r_ew r \<and> status d = r_status r"
proof -
  let ?g = "gps_rx b"
  obtain tmg t where mk: "mktime ((tm_time ?g)\<lparr>tm_hour := of_nat (r_hour r), tm_min := of_nat (r_min r),
      tm_sec := of_nat (r_sec r), tm_mday := of_nat (r_day r), tm_mon := of_nat (r_month r) - 1,
      tm_year := of_nat (r_year r) + 100\<rparr>) = (tmg, t)" by fastforce
  obtain g where g: "GpsThread_round junk (sentence (rmc_fields r)) ?g = Inr g" "gps_rx b1 = g"
    using assms(4) by (cases rule: board_step.cases) simp
  obtain g' where "proc_gps junk (sentence (rmc_fields r)) ?g = Inr g'" "gps_data g = gps_data g'"
    using g(1) cstr_sentence [OF rmc_fields_ok [OF assms(2)]]
    by (auto simp: GpsThread_round_def andThen_Inr_iff split: if_splits)
  with proc_gps_rmc [OF assms(1-3) mk, of junk] board_mesg [OF assms(7)] board_no_line [OF assms(5,6)] g(2)
    length_mesg_bytes read_mesg_bytes
  show ?thesis by auto
qed

theorem board_message_carries_fix_witness:
  "\<exists>b3 fs d. board_run (\<lambda>_. (0, 0)) sample_board [GpsLine (sentence (rmc_fields sample_rmc)), Pulse, PulseSeen] b3
    \<and> effects (app b3) = fs @ [SendMesg GpsTimeMesg 68 d] \<and> ns_d d = 23 \<and> ew_d d = 113"
proof -
  let ?l = "sentence (rmc_fields sample_rmc)" and ?j = "\<lambda>_. (0, 0) :: u32 \<times> u32"
  have rdy: "gps_ready (gps_rx sample_board)" "\<not> timesync (gps_rx sample_board)"
    using sample_gps_ready by (simp_all add: sample_board_def sample_gps_def)
  obtain tmg t where mk: "mktime ((tm_time sample_gps)\<lparr>tm_hour := of_nat (r_hour sample_rmc), tm_min := of_nat (r_min sample_rmc),
      tm_sec := of_nat (r_sec sample_rmc), tm_mday := of_nat (r_day sample_rmc), tm_mon := of_nat (r_month sample_rmc) - 1,
      tm_year := of_nat (r_year sample_rmc) + 100\<rparr>) = (tmg, t)" by fastforce
  have ts: "\<not> timesync sample_gps" by (simp add: sample_gps_def)
  obtain g where "GpsThread_round ?j ?l sample_gps = Inr g"
    using proc_gps_rmc [OF sample_gps_ready sample_rmc_ok ts mk, of ?j]
    by (auto simp: GpsThread_round_def cstr_sentence [OF rmc_fields_ok [OF sample_rmc_ok]])
  then have 1: "board_step ?j sample_board (GpsLine ?l) (sample_board\<lparr>gps_rx := g\<rparr>)"
    by (intro board_gps_line) (simp add: sample_board_def)
  define b2 where "b2 = sample_board\<lparr>gps_rx := g, pps_dev := IRQ (pps_dev sample_board)\<rparr>"
  have 2: "board_step ?j (sample_board\<lparr>gps_rx := g\<rparr>) Pulse b2"
    using board_pulse [of ?j "sample_board\<lparr>gps_rx := g\<rparr>"] by (simp add: b2_def)
  obtain s where "MesgThread_round (sample_app_env\<lparr>gps_info := GetGpsInfo g\<rparr>) 1 sample_app = Inr s"
    using MesgThread_round_starts [OF sample_app_ok, of "sample_app_env\<lparr>gps_info := GetGpsInfo g\<rparr>"]
    by (auto simp: sample_app_env_def sample_app_def cstr_def)
  then have 3: "board_step ?j b2 PulseSeen (b2\<lparr>pps_dev := (pps_dev b2)\<lparr>irqHappend := 0\<rparr>, app := s\<rparr>)"
    by (intro board_pulse_seen [where n = 1 and env = sample_app_env]) (simp_all add: b2_def sample_board_def counter_irq_read_def IRQ_def)
  have r: "board_run ?j (sample_board\<lparr>gps_rx := g\<rparr>) ([] @ [Pulse]) b2" by (rule board_next [OF board_start 2])
  have "board_run ?j sample_board (([] @ [GpsLine ?l] @ []) @ [Pulse, PulseSeen]) (b2\<lparr>pps_dev := (pps_dev b2)\<lparr>irqHappend := 0\<rparr>, app := s\<rparr>)"
    using board_next [OF board_next [OF board_next [OF board_start 1] 2] 3] by simp
  with board_message_carries_fix [OF rdy(1) sample_rmc_ok rdy(2) 1 r _ 3] show ?thesis by (auto simp: sample_rmc_def)
qed

section \<open>A lost window\<close>

text \<open>
  The programmable logic fills the windows in turn, one per interrupt: \<open>filled_last\<close> is the one that the last interrupt of a run
  announces, counted from a state whose next window is the first to be filled.
\<close>

definition filled_last :: "app_state \<Rightarrow> board_event list \<Rightarrow> block" where
  "filled_last s es = window s (count_list es DataReady - 1)"

text \<open>A round in which two interrupts come before the main thread reads.\<close>

definition late_round :: "board_event list" where
  "late_round = [Command [], DataReady, DataReady, DataSeen]"

lemma count_rounds: "count_list (concat (replicate n data_round)) DataReady = n"
  by (induction n) (simp_all add: data_round_def)

lemma deliver_n_add: "deliver_n (m + n) s = andThen (deliver_n m s) (deliver_n n)"
proof (induction n)
  case (Suc n)
  then show ?case by (cases "deliver_n m s") simp_all
qed (cases "deliver_n m s"; simp)

lemma deliver_window_addr: "deliver_window s = Inr s' \<Longrightarrow> s_puiAddr s' = s_puiAddr s"
  by (auto simp: deliver_window_span span_def fwrite_sd_def need_def effect_def andThen_Inr_iff Let_def split: if_splits option.splits)

lemma delivered_addr:
  assumes "deliver_n n s = Inr u" "DeliverData_s 1 u = Inr t" "s_ucIsReady u = TRUE" "same_setup s u" "s_uiFlag u = s_uiFlag s + of_nat n"
  shows "s_puiAddr t = window s n"
proof -
  have "s_puiAddr t = next_window u"
    using assms(2,3) window_parity [of "s_uiFlag u"]
    by (auto simp: DeliverData_s_def next_window_def Let_def dest!: deliver_window_addr split: if_splits)
  with assms(4,5) show ?thesis by (simp add: next_window_def window_def same_setup_def)
qed

lemma board_late_round:
  assumes "\<not> waits b" "s_ucIsReady (app b) = TRUE" "DeliverData_s 1 (app b) = Inr s"
  shows "\<exists>b'. board_run junk b late_round b' \<and> app b' = s \<and> \<not> waits b'"
proof -
  define b1 where "b1 = b\<lparr>waits := True\<rparr>"
  define b2 where "b2 = b1\<lparr>data_dev := data_IRQ (data_dev b1)\<rparr>"
  define b3 where "b3 = b2\<lparr>data_dev := data_IRQ (data_dev b2)\<rparr>"
  define b4 where "b4 = b3\<lparr>data_dev := (data_dev b3)\<lparr>dataIrqHappend := 0\<rparr>, app := s, waits := False\<rparr>"
  have "board_step junk b (Command []) (b\<lparr>app := app b, waits := (GetReadyFlag (app b) = TRUE)\<rparr>)"
    using assms(1) by (intro board_command) (simp_all add: App_def)
  then have 1: "board_step junk b (Command []) b1"
    using assms(2) by (cases b) (simp add: b1_def GetReadyFlag_def)
  have 2: "board_step junk b1 DataReady b2" "board_step junk b2 DataReady b3"
    unfolding b2_def b3_def by (rule board_data_ready)+
  have 4: "board_step junk b3 DataSeen b4"
    unfolding b4_def by (rule board_data_seen [where n = 1])
      (use assms(3) in \<open>simp_all add: b3_def b2_def b1_def data_irq_read_def data_IRQ_def\<close>)
  have "board_run junk b late_round b4"
    using board_next [OF board_next [OF board_next [OF board_next [OF board_start 1] 2(1)] 2(2)] 4] by (simp add: late_round_def)
  then show ?thesis by (intro exI [of _ b4]) (simp add: b4_def)
qed



end
