(* ===== verification/XfifoRuns.thy ===== *)
theory XfifoRuns
  imports XfifoSafety
begin

text \<open>
  Whole runs of the DMA driver with one file: an invariant on buffers and channel over every sequence of
  operations, callbacks and signals.
\<close>

section \<open>Accounting\<close>

text \<open>Runs in which no file but one is ever open.\<close>

definition one_file :: "dma_kernel \<Rightarrow> xsys \<Rightarrow> xsys \<Rightarrow> bool" where
  "one_file k s s' \<longleftrightarrow> xstep k s s' \<and> (\<forall>t. t \<noteq> 0 \<longrightarrow> xfiles s t = Closed \<and> xfiles s' t = Closed)"

lemma live_after_append [simp]: "live_after L (xs @ ys) = live_after (live_after L xs) ys"
  by (induction L xs rule: live_after.induct) simp_all

lemma uses_ok_append [simp]: "uses_ok L (xs @ ys) \<longleftrightarrow> uses_ok L xs \<and> uses_ok (live_after L xs) ys"
  by (induction L xs rule: uses_ok.induct) auto

text \<open>The buffer of the transfer that is under way.\<close>

fun transfer_buffers :: "xsys \<Rightarrow> dma_buffers" where
  "transfer_buffers s =
     (case xfiles s 0 of Sleeping fl rd m \<Rightarrow> [(m, buffer_v_addr (xdev s), buffer_d_addr (xdev s))] | _ \<Rightarrow> [])"

text \<open>
  Whether the channel is held after some events; \<open>None\<close> if it is requested while it is held, or enabled or
  freed while it is not.
\<close>

fun channel_use :: "u32 \<Rightarrow> bool \<Rightarrow> dma_event list \<Rightarrow> bool option" where
  "channel_use c h [] = Some h"
| "channel_use c h (RequestDma d # es) = (if d = c \<and> \<not> h then channel_use c True es else None)"
| "channel_use c h (FreeDma d # es) = (if d = c \<and> h then channel_use c False es else None)"
| "channel_use c h (EnableDma d m b n a i # es) = (if d = c \<and> h then channel_use c h es else None)"
| "channel_use c h (e # es) = channel_use c h es"

lemma channel_use_append [simp]:
  "channel_use c h (xs @ ys) = (case channel_use c h xs of None \<Rightarrow> None | Some h \<Rightarrow> channel_use c h ys)"
  by (induction c h xs rule: channel_use.induct) simp_all

definition tidy :: "u32 \<Rightarrow> xsys \<Rightarrow> bool" where
  "tidy c s \<longleftrightarrow> dma_channel (xdev s) = c \<and> uses_ok [] (x_log (xdev s))
     \<and> live_after [] (x_log (xdev s)) = transfer_buffers s
     \<and> (\<forall>fl rd m. xfiles s 0 = Sleeping fl rd m \<longrightarrow> x_count (xdev s) = m)
     \<and> channel_use c False (x_log (xdev s)) = Some (xfiles s 0 \<noteq> Closed \<and> (\<forall>fl. xfiles s 0 \<noteq> Opened fl))"

lemma tidy_init: "x_log dev = [] \<Longrightarrow> tidy (dma_channel dev) (xinit dev)"
  by (simp add: tidy_def xinit_def)

lemma tidy_step: "\<lbrakk>xstep k s s'; \<forall>t. t \<noteq> 0 \<longrightarrow> xfiles s t = Closed \<and> xfiles s' t = Closed; tidy c s\<rbrakk> \<Longrightarrow> tidy c s'"
proof (induction rule: xstep.induct)
  case (step_open s t intr fl r dev)
  then show ?case
    by (cases "t = 0") (auto simp: xfifo_dma_open_def tidy_def set_file_def split: if_splits xfile.split)
next
  case (step_release s t fl intr r dev)
  then have t: "t = 0" by auto
  show ?case using step_release unfolding t
    by (auto simp: xfifo_dma_release_def tidy_def set_file_def Let_def split: if_splits)
next
  case (step_read s t fl intr pos n r dev)
  then have t: "t = 0" by auto
  show ?case using step_read unfolding t
    by (auto simp: xfifo_dma_read_def tidy_def set_file_def Let_def emit_def split: if_splits option.splits)
next
  case (step_write s t fl intr pos n r dev)
  then have t: "t = 0" by auto
  show ?case using step_write unfolding t
    by (auto simp: xfifo_dma_write_def xfifo_dma_reset_fifo_def tidy_def set_file_def Let_def emit_def split: if_splits option.splits)
next
  case (step_done s)
  then show ?case by (auto simp: tidy_def xfifo_dma_done_callback_def split: xfile.split)
next
  case (step_fault s)
  then show ?case by (auto simp: tidy_def xfifo_dma_fault_callback_def split: xfile.split)
next
  case (step_read_wake s t fl m signalled r dev)
  then have t: "t = 0" by auto
  show ?case using step_read_wake unfolding t
    by (auto simp: xfifo_dma_read_wake_def tidy_def set_file_def emit_def)
next
  case (step_write_wake s t fl m signalled r dev)
  then have t: "t = 0" by auto
  show ?case using step_write_wake unfolding t
    by (auto simp: xfifo_dma_write_wake_def tidy_def set_file_def emit_def)
qed



end
