(* ===== verification/XfifoLife.thy ===== *)
theory XfifoLife
  imports XfifoDma
begin

text \<open>
  The life of the module \<^verbatim>\<open>xfifo_dma.c\<close>: its entry and exit functions over the driver core of the kernel, and what it holds
  of the kernel's resources over any number of loads and unloads.
\<close>

section \<open>The module and its device\<close>

text \<open>
  The driver core binds a device to a driver when the probe returns 0, and runs the remove function of the devices that are bound when the driver
  is unregistered. \<open>xfifo_dma_dev\<close> is a global pointer which no code resets: \<open>Bound None\<close> is a device that is bound while the pointer leads to
  memory that has been freed. The module has at most one device; \<open>pdev\<close> is what the probe finds there, and \<open>status\<close> the answer
  of \<^verbatim>\<open>platform_driver_register\<close>, which does not depend on the probe.
\<close>

datatype binding = Unbound | Bound "xfifo_dma_dev option"

definition core_bind :: "probe_env \<Rightarrow> binding \<times> probe_event list" where
  "core_bind env =
     (let (status, dev, es) = xfifo_dma_probe env in (if status = 0 then Bound dev else Unbound, es))"

definition xfifo_dma_init :: "int \<Rightarrow> probe_env option \<Rightarrow> int \<times> binding \<times> probe_event list" where
  "xfifo_dma_init status pdev =
     (status, if status < 0 then (Unbound, []) else case pdev of None \<Rightarrow> (Unbound, []) | Some env \<Rightarrow> core_bind env)"

fun xfifo_dma_exit :: "binding \<Rightarrow> probe_event list res" where
  "xfifo_dma_exit Unbound = Inr []"
| "xfifo_dma_exit (Bound None) = Inl NullPointer"
| "xfifo_dma_exit (Bound (Some dev)) = Inr (xfifo_dma_remove dev)"

text \<open>Loading and unloading, with all services called so far; \<open>None\<close> is a module that is not loaded.\<close>

inductive xfifo_life :: "(probe_env \<Rightarrow> bool) \<Rightarrow> probe_event list \<Rightarrow> binding option \<Rightarrow> bool" for P where
  life_boot: "xfifo_life P [] None"
| life_load: "\<lbrakk>xfifo_life P es None; \<forall>env. pdev = Some env \<longrightarrow> P env; xfifo_dma_init status pdev = (status', b, fs)\<rbrakk> \<Longrightarrow>
    xfifo_life P (es @ fs) (if 0 \<le> status' then Some b else None)"
| life_unload: "\<lbrakk>xfifo_life P es (Some b); xfifo_dma_exit b = Inr fs\<rbrakk> \<Longrightarrow> xfifo_life P (es @ fs) None"

section \<open>What is held\<close>

text \<open>
  Services that undo another. Memory and mappings are freed exactly as often as they were taken; the other services are undone at
  least as often as they succeeded, since a failing probe undoes what it has not reached.
\<close>

fun undo :: "probe_event \<Rightarrow> probe_event option" where
  "undo KmallocDev = Some KfreeDev"
| "undo RegisterChrdev = Some UnregisterChrdev"
| "undo (MemRegion a n) = Some (ReleaseMem a n)"
| "undo (MapIo v) = Some (UnmapIo v)"
| "undo KmallocClient = Some KfreeClient"
| "undo CdevAdd = Some CdevDel"
| "undo CreateProc = Some RemoveProc"
| "undo e = None"

definition exact :: "probe_event \<Rightarrow> bool" where
  "exact e \<longleftrightarrow> e \<notin> {RegisterChrdev, CdevAdd, CreateProc}"

definition balanced :: "probe_event list \<Rightarrow> bool" where
  "balanced es \<longleftrightarrow> (\<forall>e u. undo e = Some u \<longrightarrow>
     count_list es e \<le> count_list es u \<and> (exact e \<longrightarrow> count_list es e = count_list es u))"

lemma balanced_append: "\<lbrakk>balanced es; balanced fs\<rbrakk> \<Longrightarrow> balanced (es @ fs)"
  by (auto simp: balanced_def intro: add_mono)

lemma balanced_Nil [simp]: "balanced []"
  by (simp add: balanced_def)

lemmas probe_cases = xfifo_dma_probe_def xfifo_dma_remove_def xfifo_dma_reset_fifo_def emit_def zeroed_dev_def Let_def

lemma probe_balanced:
  assumes "xfifo_dma_probe env = (status, dev, es)" "ioremap env \<noteq> 0"
  shows "balanced (es @ (case dev of None \<Rightarrow> [] | Some d \<Rightarrow> xfifo_dma_remove d))"
  unfolding balanced_def
proof (intro allI impI)
  fix e u assume "undo e = Some u"
  then show "count_list (es @ (case dev of None \<Rightarrow> [] | Some d \<Rightarrow> xfifo_dma_remove d)) e
      \<le> count_list (es @ (case dev of None \<Rightarrow> [] | Some d \<Rightarrow> xfifo_dma_remove d)) u
    \<and> (exact e \<longrightarrow> count_list (es @ (case dev of None \<Rightarrow> [] | Some d \<Rightarrow> xfifo_dma_remove d)) e
      = count_list (es @ (case dev of None \<Rightarrow> [] | Some d \<Rightarrow> xfifo_dma_remove d)) u)"
    using assms
    by (cases e) (auto simp: exact_def probe_cases split: option.splits prod.splits if_splits)
qed

text \<open>A module that is loaded with its device will be in balance once the device is removed.\<close>

definition life_ok :: "probe_event list \<Rightarrow> binding option \<Rightarrow> bool" where
  "life_ok es m \<longleftrightarrow> (case m of Some (Bound (Some d)) \<Rightarrow> balanced (es @ xfifo_dma_remove d) | _ \<Rightarrow> balanced es)"

lemma bind_ok:
  assumes "core_bind env = (b, fs)" "ioremap env \<noteq> 0" "balanced es"
  shows "life_ok (es @ fs) (Some b)"
proof -
  obtain status dev where p: "xfifo_dma_probe env = (status, dev, fs)" "b = (if status = 0 then Bound dev else Unbound)"
    using assms(1) by (auto simp: core_bind_def split: prod.splits)
  have "dev = None" if "status \<noteq> 0" using p(1) that
    by (auto simp: xfifo_dma_probe_def Let_def split: option.splits if_splits)
  with probe_balanced [OF p(1) assms(2)] balanced_append [OF assms(3)] p(2) show ?thesis
    by (cases dev) (auto simp: life_ok_def)
qed

lemma life_ok_run:
  assumes "xfifo_life (\<lambda>env. ioremap env \<noteq> 0) es m"
  shows "life_ok es m"
  using assms
proof induction
  case (life_load es pdev status status' b fs)
  have "balanced es" using life_load.IH by (simp add: life_ok_def)
  then show ?case
    using life_load.hyps bind_ok [of _ b fs es] by (auto simp: xfifo_dma_init_def life_ok_def split: option.splits if_splits)
next
  case (life_unload es b fs)
  then show ?case by (cases b rule: xfifo_dma_exit.cases) (auto simp: life_ok_def)
qed (simp add: life_ok_def)

section \<open>Properties\<close>

text \<open>
  C17. Loading and unloading the DMA driver any number of times, with or without its device and with probes that succeed or fail anywhere,
  leaks nothing as long as the mapping of the registers succeeds: whenever the module is not loaded, all
  memory, regions and mappings have been given back exactly once, and the device number, the character device and the entry of
  \<^verbatim>\<open>/proc\<close> at least as often as they were taken.
\<close>

theorem xfifo_life_balanced:
  assumes "xfifo_life (\<lambda>env. ioremap env \<noteq> 0) es None" "undo e = Some u"
  shows "count_list es e \<le> count_list es u \<and> (e \<notin> {RegisterChrdev, CdevAdd, CreateProc} \<longrightarrow> count_list es e = count_list es u)"
  using life_ok_run [OF assms(1)] assms(2) by (simp add: life_ok_def balanced_def exact_def)

text \<open>
  C35. When the driver cannot be unloaded: the exit function uses freed memory exactly when the device was bound by a probe that failed to allocate
  the client data. That probe has removed and freed the device, but returns the 0 of the last call that succeeded. A
  probe that fails to get its device number gives the number back all the same.
\<close>

theorem xfifo_unload_after_failed_probe:
  assumes "xfifo_dma_init status pdev = (status', b, es)"
  shows "((\<exists>e. xfifo_dma_exit b = Inl e) \<longleftrightarrow>
      0 \<le> status \<and> (\<exists>env. pdev = Some env \<and> platform_get_resource env \<noteq> None \<and> kmalloc_dev_ok env
        \<and> register_chrdev_region env = 0 \<and> request_region_ok env \<and> \<not> kmalloc_client_ok env))
    \<and> (\<forall>env. pdev = Some env \<and> 0 \<le> status \<and> platform_get_resource env \<noteq> None \<and> kmalloc_dev_ok env
        \<and> register_chrdev_region env < 0 \<longrightarrow> RegisterChrdev \<notin> set es \<and> UnregisterChrdev \<in> set es)"
proof (cases "0 \<le> status \<and> pdev \<noteq> None")
  case True
  then obtain env where env: "pdev = Some env" "core_bind env = (b, es)" "0 \<le> status"
    using assms by (auto simp: xfifo_dma_init_def)
  then show ?thesis
    by (auto simp: core_bind_def probe_cases ENODEV_def ENOMEM_def split: option.splits prod.splits if_splits)
next
  case False
  then show ?thesis using assms by (auto simp: xfifo_dma_init_def split: option.splits if_splits)
qed

definition sample_env :: probe_env where
  "sample_env = \<lparr>platform_get_resource = Some (0x80000000, 0x8000ffff), kmalloc_dev_ok = True, of_node = True,
     register_chrdev_region = 0, request_region_ok = True, ioremap = 0xe0000000, kmalloc_client_ok = True,
     create_proc_ok = True\<rparr>"

theorem xfifo_life_balanced_witness:
  "\<exists>es. xfifo_life (\<lambda>env. ioremap env \<noteq> 0) es None \<and> count_list es KmallocDev = 1 \<and> count_list es KfreeDev = 1"
proof -
  obtain d fs where i: "xfifo_dma_init 0 (Some sample_env) = (0, Bound (Some d), fs)" "count_list fs KmallocDev = 1"
    by (auto simp: xfifo_dma_init_def core_bind_def xfifo_dma_probe_def sample_env_def Let_def)
  have r: "xfifo_life (\<lambda>env. ioremap env \<noteq> 0) (([] @ fs) @ xfifo_dma_remove d) None"
    by (rule life_unload [OF _ xfifo_dma_exit.simps(3)])
      (use life_load [OF life_boot _ i(1), of "\<lambda>env. ioremap env \<noteq> 0"] in \<open>simp add: sample_env_def\<close>)
  have "count_list (([] @ fs) @ xfifo_dma_remove d) KmallocDev = 1" using i(2) by (simp add: xfifo_dma_remove_def)
  with xfifo_life_balanced [OF r, of KmallocDev KfreeDev] r show ?thesis by (intro exI [of _ "([] @ fs) @ xfifo_dma_remove d"]) simp
qed

theorem xfifo_unload_after_failed_probe_witness:
  "\<exists>b es e. xfifo_dma_init 0 (Some (sample_env\<lparr>kmalloc_client_ok := False\<rparr>)) = (0, b, es) \<and> xfifo_dma_exit b = Inl e"
proof -
  obtain b es where i: "xfifo_dma_init 0 (Some (sample_env\<lparr>kmalloc_client_ok := False\<rparr>)) = (0, b, es)"
    by (cases "core_bind (sample_env\<lparr>kmalloc_client_ok := False\<rparr>)") (simp add: xfifo_dma_init_def)
  have "\<exists>e. xfifo_dma_exit b = Inl e"
    using xfifo_unload_after_failed_probe [OF i] by (simp add: sample_env_def)
  with i show ?thesis by blast
qed

end
