(* ===== verification/IniStore.thy ===== *)
theory IniStore
  imports ConfigSpec
begin

text \<open>
  The configuration file as a store of settings: the operations of \<^verbatim>\<open>inifile.c\<close> that write and read a key are
  an interpretation of the locale \<open>key_store\<close>, from which follows what a sequence of writes leaves.
\<close>

section \<open>Stores of keys and values\<close>

text \<open>What is expected of a store, and what follows for a sequence of updates.\<close>

locale key_store =
  fixes ok :: "'d \<Rightarrow> bool" and get :: "'d \<Rightarrow> 'k \<Rightarrow> 'v option" and put :: "'k \<Rightarrow> 'v \<Rightarrow> 'd \<Rightarrow> 'd"
    and keys :: "'k set" and vals :: "'v set"
  assumes ok_put: "\<lbrakk>ok d; k \<in> keys; v \<in> vals\<rbrakk> \<Longrightarrow> ok (put k v d)"
    and get_put: "\<lbrakk>ok d; k \<in> keys; v \<in> vals\<rbrakk> \<Longrightarrow> get (put k v d) k = Some v"
    and get_put_other: "\<lbrakk>ok d; k \<in> keys; v \<in> vals; k' \<in> keys; k' \<noteq> k\<rbrakk> \<Longrightarrow> get (put k v d) k' = get d k'"
begin

lemma puts_ok:
  "\<lbrakk>ok d; \<forall>(k, v) \<in> set kvs. k \<in> keys \<and> v \<in> vals\<rbrakk> \<Longrightarrow> ok (fold (\<lambda>(k, v). put k v) kvs d)"
  by (induction kvs arbitrary: d) (auto intro: ok_put)

lemma get_puts:
  assumes "ok d" "\<forall>(k, v) \<in> set kvs. k \<in> keys \<and> v \<in> vals" "distinct (map fst kvs)" "k \<in> keys"
  shows "get (fold (\<lambda>(k, v). put k v) kvs d) k = (case map_of kvs k of Some v \<Rightarrow> Some v | None \<Rightarrow> get d k)"
  using assms(1-3)
proof (induction kvs arbitrary: d)
  case (Cons kv kvs)
  obtain k1 v1 where kv: "kv = (k1, v1)" by (cases kv)
  have p: "k1 \<in> keys" "v1 \<in> vals" using Cons.prems(2) by (simp_all add: kv)
  have IH: "get (fold (\<lambda>(k, v). put k v) kvs (put k1 v1 d)) k = (case map_of kvs k of Some v \<Rightarrow> Some v | None \<Rightarrow> get (put k1 v1 d) k)"
    using Cons.prems by (intro Cons.IH) (auto intro: ok_put simp: kv)
  have "map_of kvs k1 = None" using Cons.prems(3) by (simp add: kv map_of_eq_None_iff)
  with IH get_put [OF Cons.prems(1) p] get_put_other [OF Cons.prems(1) p assms(4)] show ?case
    by (cases "k = k1") (simp_all add: kv split: option.split)
qed simp

end

section \<open>The configuration file as a store\<close>

text \<open>
  The keys that \<^verbatim>\<open>Configuration\<close> reads; none abbreviates another, although \<^verbatim>\<open>parse_file\<close> takes any abbreviation
  of a key for it. A file is \<open>store_ok\<close> when its pairs have these keys and it is well-formed.
\<close>

definition setting_keys :: "char list set" where
  "setting_keys = {''WorkMode'', ''SyncMode'', ''FullScalRange'', ''LpfFilter'', ''InputSource'', ''ImpulseWidth'',
     ''AdcSamplingRates'', ''SequenceLength'', ''GenerationPolymerization'', ''InitialValue'', ''SavePosition'',
     ''DataDirectory''}"

definition store_values :: "char list set" where
  "store_values = {v. plain v \<and> CHR ''%'' \<notin> set v \<and> CHR 0xFF \<notin> set v}"

definition store_ok :: "ini_line list \<Rightarrow> bool" where
  "store_ok ls \<longleftrightarrow> doc_ok ls \<and> CHR ''%'' \<notin> set (render ls) \<and> CHR 0xFF \<notin> set (render ls)
     \<and> (\<forall>k v. Pair k v \<in> set ls \<longrightarrow> k \<in> setting_keys)"

abbreviation store_put :: "char list \<Rightarrow> char list \<Rightarrow> ini_line list \<Rightarrow> ini_line list" where
  "store_put \<equiv> put ''Coinfiguration''"

lemma setting_key_line:
  assumes "k \<in> setting_keys" "plain v"
  shows "line_ok (Pair k v)"
proof -
  have "\<forall>k \<in> setting_keys. plain k \<and> k \<noteq> [] \<and> CHR ''='' \<notin> set k \<and> \<not> isspace (hd k) \<and> hd k \<notin> {CHR ''['', CHR '';''}"
    by (simp add: setting_keys_def plain_def isspace_def ini_char_defs)
  with assms show ?thesis by simp
qed

lemma setting_keys_apart: "\<lbrakk>k \<in> setting_keys; k' \<in> setting_keys; prefix k k'\<rbrakk> \<Longrightarrow> k = k'"
proof -
  have "\<forall>k \<in> setting_keys. \<forall>k' \<in> setting_keys. prefix k k' \<longrightarrow> k = k'"
    by (simp add: setting_keys_def)
  then show "\<lbrakk>k \<in> setting_keys; k' \<in> setting_keys; prefix k k'\<rbrakk> \<Longrightarrow> k = k'" by blast
qed

lemma put_lines:
  "l \<in> set (put sn key v ls) \<Longrightarrow>
     l \<in> set ls \<or> l = Pair key v \<or> (\<exists>k v'. l = Pair k v \<and> Pair k v' \<in> set ls) \<or> l = Other [] \<or> l = Header sn"
  by (auto simp: put_def dest!: locate_split last_section_split split: option.splits if_splits)

lemma render_chars: "c \<in> set (render ls) \<longleftrightarrow> (\<exists>l \<in> set ls. c \<in> set (line_text l)) \<or> (ls \<noteq> [] \<and> c = NL)"
  by (induction ls) auto

lemma store_put_ok:
  assumes "store_ok ls" "k \<in> setting_keys" "v \<in> store_values"
  shows "store_ok (store_put k v ls)"
proof -
  have h: "line_ok (Header ''Coinfiguration'')" by (simp add: plain_def ini_char_defs)
  have d: "doc_ok (store_put k v ls)"
    using put_ok [OF _ h setting_key_line] assms by (simp add: store_ok_def store_values_def)
  have k: "\<And>c. c \<in> {CHR ''%'', CHR 0xFF} \<Longrightarrow> c \<notin> set k'" if "k' \<in> setting_keys" for k'
    using that by (auto simp: setting_keys_def)
  have c: "c \<notin> set (render (store_put k v ls))" if c: "c \<in> {CHR ''%'', CHR 0xFF}" for c
  proof
    assume "c \<in> set (render (store_put k v ls))"
    then obtain l where l: "l \<in> set (store_put k v ls)" "c \<in> set (line_text l)" using c by (auto simp: render_chars)
    have old: "c \<notin> set (line_text l')" if "l' \<in> set ls" for l' using that assms(1) c by (auto simp: store_ok_def render_chars)
    have new: "c \<notin> set (line_text (Pair k' v))" if "k' \<in> setting_keys" for k'
      using k [OF that c] assms(3) c by (auto simp: store_values_def)
    have "c \<notin> set (line_text l)"
      using put_lines [OF l(1)] old new assms(1,2) c by (auto simp: store_ok_def simp del: line_text.simps(2))
    with l(2) show False by simp
  qed
  have p: "k' \<in> setting_keys" if "Pair k' v' \<in> set (store_put k v ls)" for k' v'
    using put_lines [OF that] assms(1,2) by (auto simp: store_ok_def)
  from d c p show ?thesis by (auto simp: store_ok_def)
qed

interpretation settings: key_store store_ok "\<lambda>ls k. look ''Coinfiguration'' k False ls" store_put setting_keys store_values
proof unfold_locales
  show "look ''Coinfiguration'' k' False (store_put k v ls) = look ''Coinfiguration'' k' False ls"
    if "store_ok ls" "k \<in> setting_keys" "k' \<in> setting_keys" "k' \<noteq> k" for ls k v k'
  proof (rule look_put_other)
    show "\<not> prefix k k'" using setting_keys_apart [OF that(2,3)] that(4) by blast
    show "\<not> prefix k1 k'" if "Pair k1 v1 \<in> set ls" "prefix k1 k" for k1 v1
    proof
      assume "prefix k1 k'"
      moreover have "k1 \<in> setting_keys" using that(1) \<open>store_ok ls\<close> by (auto simp: store_ok_def)
      ultimately show False
        using setting_keys_apart \<open>k \<in> setting_keys\<close> \<open>k' \<in> setting_keys\<close> \<open>k' \<noteq> k\<close> that(2) by blast
    qed
  qed
qed (simp_all add: store_put_ok look_put)

section \<open>Saving settings\<close>

text \<open>One call of \<^verbatim>\<open>write_profile_string\<close> after the other, each on the file the last one left.\<close>

fun save_all :: "files \<Rightarrow> (char list \<times> char list) list \<Rightarrow> files res" where
  "save_all fs [] = Inr fs"
| "save_all fs ((k, v) # kvs) =
     andThen (write_profile_string True (\<lambda>w. (True, w)) fs ''Coinfiguration'' k v ''Configuration.ini'')
       (\<lambda>(_, fs). save_all fs kvs)"

lemma render_append [simp]: "render (xs @ ys) = render xs @ render ys"
  by (simp add: render_def)

lemma put_size: "length (render (put sn k v ls)) \<le> length (render ls) + length sn + length k + length v + 6"
proof (cases "locate sn k False ls")
  case (Some f)
  obtain d k1 v1 e where "f = (d, k1, v1, e)" by (cases f)
  with Some locate_split [of sn k False ls d k1 v1 e] show ?thesis by (auto simp: put_def)
next
  case None
  then show ?thesis
    using last_section_split [of sn ls] by (auto simp: put_def split: option.split) (metis add_leD2 order_refl)?
qed

lemma save_all_puts:
  assumes "store_ok ls" "fs ''Configuration.ini'' = Some (render ls)"
    "\<forall>(k, v) \<in> set kvs. k \<in> setting_keys \<and> v \<in> store_values"
    "length (render ls) + (\<Sum>(k, v)\<leftarrow>kvs. length k + length v + 20) < MAX_FILE_SIZE"
  shows "\<exists>fs'. save_all fs kvs = Inr fs' \<and> config_file (fold (\<lambda>(k, v). store_put k v) kvs ls) fs'"
  using assms
proof (induction kvs arbitrary: ls fs)
  case Nil
  then show ?case by (auto simp: config_file_def store_ok_def)
next
  case (Cons kv kvs)
  obtain k v where kv: "kv = (k, v)" by (cases kv)
  have p: "k \<in> setting_keys" "v \<in> store_values" using Cons.prems(3) by (simp_all add: kv)
  have s: "length (render (store_put k v ls)) \<le> length (render ls) + (length k + length v + 20)"
    using put_size [of "''Coinfiguration''" k v ls] by simp
  have n: "length (render ls) < MAX_FILE_SIZE" "length (render (store_put k v ls)) < MAX_FILE_SIZE"
    "length (render (store_put k v ls)) + (\<Sum>(k, v)\<leftarrow>kvs. length k + length v + 20) < MAX_FILE_SIZE"
    using Cons.prems(4) s by (simp_all add: kv)
  have st: "doc_ok ls" "CHR 0xFF \<notin> set (render ls)" "CHR ''%'' \<notin> set (render ls)"
    using Cons.prems(1) by (simp_all add: store_ok_def)
  have pl: "plain ''Coinfiguration''" "''Coinfiguration'' \<noteq> ([] :: char list)" by (simp_all add: plain_def ini_char_defs)
  have kp: "k \<noteq> []" "plain k" "plain v" using setting_key_line [OF p(1)] p(2) by (auto simp: store_values_def)
  have w: "write_profile_string True (\<lambda>w. (True, w)) fs ''Coinfiguration'' k v ''Configuration.ini'' =
      Inr (1, fs(''Configuration.ini'' \<mapsto> render (store_put k v ls)))"
    by (rule write_profile_string_doc) (rule st n kp pl Cons.prems(2))+
  have "\<exists>fs'. save_all (fs(''Configuration.ini'' \<mapsto> render (store_put k v ls))) kvs = Inr fs'
      \<and> config_file (fold (\<lambda>(k, v). store_put k v) kvs (store_put k v ls)) fs'"
    by (rule Cons.IH [OF store_put_ok [OF Cons.prems(1) p] _ _ n(3)]) (use Cons.prems(3) in \<open>simp_all add: kv\<close>)
  with w show ?case by (simp add: kv)
qed

text \<open>
  C12. Writing several settings and reading the configuration back: on a configuration file whose keys are those that
  \<^verbatim>\<open>Configuration\<close> knows, and as long as the result fits the buffer of 16 KB, any sequence of
  \<^verbatim>\<open>write_profile_string\<close> calls for distinct settings succeeds, and afterwards \<^verbatim>\<open>read_profile_int\<close> returns for
  every setting the number that was written, or what the old file gave for a setting that was not written.
\<close>

theorem settings_saved_and_read:
  assumes "store_ok ls" "fs ''Configuration.ini'' = Some (render ls)" "distinct (map fst kvs)"
    "\<forall>(k, v) \<in> set kvs. k \<in> setting_keys \<and> v \<in> store_values"
    "length (render ls) + (\<Sum>(k, v)\<leftarrow>kvs. length k + length v + 20) < MAX_FILE_SIZE"
  shows "\<exists>fs'. save_all fs kvs = Inr fs' \<and> (\<forall>k \<in> setting_keys. cfg_int fs' k =
    Inr (case map_of kvs k of Some v \<Rightarrow> atoi (take 31 v) | None \<Rightarrow> setting ls k))"
proof -
  obtain fs' where fs': "save_all fs kvs = Inr fs'" "config_file (fold (\<lambda>(k, v). store_put k v) kvs ls) fs'"
    using save_all_puts [of ls fs kvs] assms(1,2,4,5) by blast
  have "cfg_int fs' k = Inr (case map_of kvs k of Some v \<Rightarrow> atoi (take 31 v) | None \<Rightarrow> setting ls k)"
    if "k \<in> setting_keys" for k
  proof -
    have "k \<noteq> []" using that by (auto simp: setting_keys_def)
    with cfg_int_setting [OF fs'(2)] settings.get_puts [OF assms(1,4,3) that] show ?thesis
      by (simp add: setting_def split: option.split)
  qed
  with fs'(1) show ?thesis by blast
qed

theorem settings_saved_and_read_witness:
  "\<exists>fs'. save_all (\<lambda>_. Some (render sample_ini)) [(''SequenceLength'', ''9''), (''LpfFilter'', ''3'')] = Inr fs'
    \<and> cfg_int fs' ''SequenceLength'' = Inr 9 \<and> cfg_int fs' ''LpfFilter'' = Inr 3 \<and> cfg_int fs' ''SyncMode'' = Inr 1"
proof -
  let ?kvs = "[(''SequenceLength'', ''9''), (''LpfFilter'', ''3'')]"
  have ok: "store_ok sample_ini" "length (render sample_ini) + (\<Sum>(k, v)\<leftarrow>?kvs. length k + length v + 20) < MAX_FILE_SIZE"
    by (simp_all add: store_ok_def sample_ini_def doc_ok_def setting_keys_def ini_char_defs isspace_def MAX_FILE_SIZE_def)
  have kvs: "distinct (map fst ?kvs)" "\<forall>(k, v) \<in> set ?kvs. k \<in> setting_keys \<and> v \<in> store_values"
    by (simp_all add: setting_keys_def store_values_def plain_def ini_char_defs)
  have v: "atoi ''9'' = 9" "atoi ''3'' = 3"
    by (simp_all add: atoi_def digits_val_def isspace_def isdigit_def digit_val_def saturate32_def)
  obtain fs' where fs': "save_all (\<lambda>_. Some (render sample_ini)) ?kvs = Inr fs'"
    "\<forall>k \<in> setting_keys. cfg_int fs' k = Inr (case map_of ?kvs k of Some v \<Rightarrow> atoi (take 31 v) | None \<Rightarrow> setting sample_ini k)"
    using settings_saved_and_read [OF ok(1) refl kvs ok(2)] by blast
  have "''SequenceLength'' \<in> setting_keys" "''LpfFilter'' \<in> setting_keys" "''SyncMode'' \<in> setting_keys"
    by (simp_all add: setting_keys_def)
  with fs'(2) have "cfg_int fs' ''SequenceLength'' = Inr 9" "cfg_int fs' ''LpfFilter'' = Inr 3" "cfg_int fs' ''SyncMode'' = Inr 1"
    by (simp_all add: v sample_settings)
  with fs'(1) show ?thesis by blast
qed

end
