(* ===== verification/IrqSteps.thy ===== *)
theory IrqSteps
  imports IrqDrivers
begin

text \<open>
  The reads of \<^verbatim>\<open>irq.c\<close> and \<^verbatim>\<open>dataIrq.c\<close> once more, as their two statements with the interrupt handler between them. \<open>split_read\<close> extends
  the contract \<open>irq_line\<close> and is interpreted on both drivers.
\<close>

section \<open>The two statements of a read\<close>

text \<open>
  \<^verbatim>\<open>wait_event_interruptible\<close> returns as soon as the flag is set; only then is the flag cleared, and the handler can run in between.
  A state pairs the driver with whether the wait has returned. Signals are left out.
\<close>

definition counter_irq_clear :: "irq_state \<Rightarrow> irq_state" where
  "counter_irq_clear s = s\<lparr>irqHappend := 0\<rparr>"

definition data_irq_clear :: "data_irq_state \<Rightarrow> data_irq_state" where
  "data_irq_clear s = s\<lparr>dataIrqHappend := 0\<rparr>"

datatype read_event = Raised | WaitReturned | Cleared

inductive read_steps :: "('s \<Rightarrow> 's) \<Rightarrow> ('s \<Rightarrow> bool) \<Rightarrow> ('s \<Rightarrow> 's) \<Rightarrow> 's \<Rightarrow> read_event list \<Rightarrow> 's \<times> bool \<Rightarrow> bool"
  for handler pending clear s0 where
  steps_start: "read_steps handler pending clear s0 [] (s0, False)"
| steps_raise: "read_steps handler pending clear s0 es (s, w) \<Longrightarrow>
    read_steps handler pending clear s0 (es @ [Raised]) (handler s, w)"
| steps_wait: "\<lbrakk>read_steps handler pending clear s0 es (s, False); pending s\<rbrakk> \<Longrightarrow>
    read_steps handler pending clear s0 (es @ [WaitReturned]) (s, True)"
| steps_clear: "read_steps handler pending clear s0 es (s, True) \<Longrightarrow>
    read_steps handler pending clear s0 (es @ [Cleared]) (clear s, False)"

inductive_cases read_steps_snocE: "read_steps handler pending clear s0 (es @ [e]) c"

locale split_read = irq_line handler reader pending
  for handler :: "'s \<Rightarrow> 's" and reader :: "bool \<Rightarrow> 's \<Rightarrow> (int \<times> 's) option" and pending :: "'s \<Rightarrow> bool" +
  fixes clear :: "'s \<Rightarrow> 's"
  assumes reader_split: "pending s \<Longrightarrow> reader False s = Some (1, clear s)"
    and clear_handler: "clear (handler s) = clear s"
begin

lemma clear_not_pending: "\<not> pending (clear s)"
  using reader_split [of "handler s"] reader_clears [of False "handler s"] handler_pending [of s] clear_handler [of s] by simp

text \<open>A read whose two statements come together is the read of the model.\<close>

lemma adjacent_is_read:
  "read_steps handler pending clear s0 es (s, False) \<Longrightarrow> reader False s = Some (n, s') \<Longrightarrow>
     read_steps handler pending clear s0 (es @ [WaitReturned, Cleared]) (s', False)"
  using steps_clear [OF steps_wait [of handler pending clear s0 es s]] reader_split [of s] reader_blocks [of s]
  by (cases "pending s") simp_all

text \<open>An interrupt between the two leaves no trace, and the reader blocks.\<close>

lemma late_interrupt_lost:
  assumes "read_steps handler pending clear s0 es (s, True)"
  shows "read_steps handler pending clear s0 (es @ [Raised, Cleared]) (clear s, False)
    \<and> read_steps handler pending clear s0 (es @ [Cleared]) (clear s, False) \<and> reader False (clear s) = None"
  using steps_clear [OF steps_raise [OF assms]] steps_clear [OF assms] clear_not_pending [of s] reader_blocks [of "clear s"]
  by (simp add: clear_handler)

text \<open>
  Whatever the order, a read that is over has used up an interrupt of its own: the flag that let the wait return was raised
  after the last time it was cleared.
\<close>

lemma split_reads_bounded:
  assumes "read_steps handler pending clear s0 es (s, w)" "\<not> pending s0"
  shows "count_list es WaitReturned + (if pending s \<and> \<not> w then 1 else 0) \<le> count_list es Raised
    \<and> count_list es WaitReturned = count_list es Cleared + (if w then 1 else 0) \<and> (w \<longrightarrow> pending s)"
  using assms
proof (induction es "(s, w)" arbitrary: s w rule: read_steps.induct)
  case (steps_raise es s w)
  then show ?case using handler_pending [of s] by (auto split: if_splits)
next
  case (steps_wait es s)
  then show ?case by simp
next
  case (steps_clear es s)
  then show ?case using clear_not_pending [of s] by simp
qed simp

end

interpretation pps_split: split_read IRQ counter_irq_read "\<lambda>s. irqHappend s \<noteq> 0" counter_irq_clear
  by unfold_locales (auto simp: IRQ_def counter_irq_read_def counter_irq_clear_def)

interpretation rdy_split: split_read data_IRQ data_irq_read "\<lambda>s. dataIrqHappend s \<noteq> 0" data_irq_clear
  by unfold_locales (auto simp: data_IRQ_def data_irq_read_def data_irq_clear_def)

section \<open>Properties\<close>

text \<open>
  C36. The read of the data device, statement by statement: whatever the interleaving with the handler, at most as many reads return
  as interrupts came; but an interrupt that falls between the return of the wait and the clearing of the flag is lost. It
  leaves the driver as if it had not come, and the next read blocks although the window it announced has not been read.
\<close>

theorem data_irq_late_interrupt_lost:
  assumes "read_steps data_IRQ (\<lambda>s. dataIrqHappend s \<noteq> 0) data_irq_clear s0 es (s, w)" "dataIrqHappend s0 = 0"
  shows "count_list es WaitReturned \<le> count_list es Raised
    \<and> (w \<longrightarrow>
        read_steps data_IRQ (\<lambda>s. dataIrqHappend s \<noteq> 0) data_irq_clear s0 (es @ [Raised, Cleared]) (data_irq_clear s, False)
      \<and> read_steps data_IRQ (\<lambda>s. dataIrqHappend s \<noteq> 0) data_irq_clear s0 (es @ [Cleared]) (data_irq_clear s, False)
      \<and> data_irq_read False (data_irq_clear s) = None)"
  using rdy_split.split_reads_bounded [OF assms(1)] assms(2) rdy_split.late_interrupt_lost [of s0 es s] assms(1) by auto

theorem data_irq_late_interrupt_lost_witness:
  "\<exists>s. read_steps data_IRQ (\<lambda>s. dataIrqHappend s \<noteq> 0) data_irq_clear \<lparr>dataIrqHappend = 0, data_lines_held = [90]\<rparr>
      [Raised, WaitReturned, Raised, Cleared] (s, False) \<and> data_irq_read False s = None"
proof -
  let ?s = "\<lparr>dataIrqHappend = 0, data_lines_held = [90]\<rparr>"
  have "read_steps data_IRQ (\<lambda>s. dataIrqHappend s \<noteq> 0) data_irq_clear ?s (([] @ [Raised]) @ [WaitReturned]) (data_IRQ ?s, True)"
    by (intro steps_wait steps_raise steps_start) (simp add: data_IRQ_def)
  from data_irq_late_interrupt_lost [OF this] show ?thesis by auto
qed

end
