(* ===== verification/Modules.thy ===== *)
theory Modules
  imports AxiCsr Bram IrqDrivers
begin

text \<open>
  Loading and unloading the four character drivers \<^verbatim>\<open>axi_csr.c\<close>, \<^verbatim>\<open>bram.c\<close>, \<^verbatim>\<open>irq.c\<close> and \<^verbatim>\<open>dataIrq.c\<close>: their entry and exit functions and the
  table of major numbers that the kernel keeps. \<open>char_module\<close> is the contract of such a module and is
  interpreted on all four.
\<close>

section \<open>The kernel's table of character devices\<close>

text \<open>
  Major numbers in use, with the name of their module. \<^verbatim>\<open>register_chrdev\<close> of major 0 picks a free number and returns it, of any other
  number it returns 0; a negative result changes nothing. \<^verbatim>\<open>unregister_chrdev\<close> frees the number it is given. These are parameters;
  \<open>chrdev_laws\<close> is what their documentation says.
\<close>

type_synonym majors = "int \<Rightarrow> string option"

record chrdev_kernel =
  register_chrdev :: "int \<Rightarrow> string \<Rightarrow> majors \<Rightarrow> int \<times> majors"
  unregister_chrdev :: "int \<Rightarrow> string \<Rightarrow> majors \<Rightarrow> majors"

definition chrdev_laws :: "chrdev_kernel \<Rightarrow> bool" where
  "chrdev_laws k \<longleftrightarrow>
     (\<forall>m n t r t'. register_chrdev k m n t = (r, t') \<longrightarrow>
        (r < 0 \<longrightarrow> t' = t)
        \<and> (0 \<le> r \<and> m = 0 \<longrightarrow> 0 < r \<and> t r = None \<and> t' = t(r \<mapsto> n))
        \<and> (0 \<le> r \<and> m \<noteq> 0 \<longrightarrow> r = 0 \<and> t m = None \<and> t' = t(m \<mapsto> n)))
     \<and> (\<forall>m n t. unregister_chrdev k m n t = t(m := None))"

section \<open>Loading and unloading\<close>

text \<open>
  Loading runs the entry function with the major number of the driver, a static variable of its module, which it replaces; a module whose entry
  function returns no error code is loaded and its exit function runs when it is unloaded. \<open>ret\<close> is the uninitialised local of two of the entry functions.
\<close>

datatype module = Axi_csr_ko | Bram_ko | Counter_irq_ko | Data_irq_ko

fun ko_name :: "module \<Rightarrow> string" where
  "ko_name Axi_csr_ko = ''axi_csr''"
| "ko_name Bram_ko = ''bram''"
| "ko_name Counter_irq_ko = ''counter_irq''"
| "ko_name Data_irq_ko = ''data_irq''"

fun module_entry :: "module \<Rightarrow> (int \<Rightarrow> int) \<Rightarrow> int \<Rightarrow> int \<Rightarrow> int \<times> int" where
  "module_entry Axi_csr_ko reg ret major = axi_csr_int reg ret major"
| "module_entry Bram_ko reg ret major = bram_int reg ret major"
| "module_entry Counter_irq_ko reg ret major = counter_irq_init reg major"
| "module_entry Data_irq_ko reg ret major = data_irq_int reg major"

definition module_load :: "chrdev_kernel \<Rightarrow> module \<Rightarrow> int \<Rightarrow> int \<Rightarrow> majors \<Rightarrow> int \<times> int \<times> majors" where
  "module_load k d ret major t =
     (let (status, major') = module_entry d (\<lambda>m. fst (register_chrdev k m (ko_name d) t)) ret major
      in (status, major', snd (register_chrdev k major (ko_name d) t)))"

definition axi_csr_exit :: "chrdev_kernel \<Rightarrow> int \<Rightarrow> majors \<Rightarrow> majors" where
  "axi_csr_exit k axi_csr_major t = unregister_chrdev k axi_csr_major ''axi_csr'' t"

definition bram_exit :: "chrdev_kernel \<Rightarrow> int \<Rightarrow> majors \<Rightarrow> majors" where
  "bram_exit k bram_major t = unregister_chrdev k bram_major ''bram'' t"

definition counter_irq_exit :: "chrdev_kernel \<Rightarrow> int \<Rightarrow> majors \<Rightarrow> majors" where
  "counter_irq_exit k counter_irq_major t = unregister_chrdev k counter_irq_major ''counter_irq'' t"

definition data_irq_exit :: "chrdev_kernel \<Rightarrow> int \<Rightarrow> majors \<Rightarrow> majors" where
  "data_irq_exit k data_irq_major t = unregister_chrdev k data_irq_major ''data_irq'' t"

fun module_exit :: "chrdev_kernel \<Rightarrow> module \<Rightarrow> int \<Rightarrow> majors \<Rightarrow> majors" where
  "module_exit k Axi_csr_ko = axi_csr_exit k"
| "module_exit k Bram_ko = bram_exit k"
| "module_exit k Counter_irq_ko = counter_irq_exit k"
| "module_exit k Data_irq_ko = data_irq_exit k"

text \<open>What is loaded, with the major number the module remembers, and the table.\<close>

inductive modules_run :: "chrdev_kernel \<Rightarrow> majors \<Rightarrow> (module \<Rightarrow> int option) \<Rightarrow> majors \<Rightarrow> bool" for k t0 where
  run_boot: "modules_run k t0 (\<lambda>_. None) t0"
| run_load: "\<lbrakk>modules_run k t0 l t; l d = None; module_load k d ret 0 t = (status, m, t')\<rbrakk> \<Longrightarrow>
    modules_run k t0 (if 0 \<le> status then l(d \<mapsto> m) else l) t'"
| run_unload: "\<lbrakk>modules_run k t0 l t; l d = Some m\<rbrakk> \<Longrightarrow> modules_run k t0 (l(d := None)) (module_exit k d m t)"

section \<open>The life of a module\<close>

text \<open>
  A module whose entry function registers one number and whose exit function frees the number remembered. What a failed registration
  returns is left open, but for the number that is remembered then.
\<close>

locale char_module =
  fixes load :: "chrdev_kernel \<Rightarrow> int \<Rightarrow> int \<Rightarrow> majors \<Rightarrow> int \<times> int \<times> majors"
    and exit :: "chrdev_kernel \<Rightarrow> int \<Rightarrow> majors \<Rightarrow> majors"
    and name :: string
  assumes load_registers: "\<lbrakk>load k ret m t = (status, m', t'); register_chrdev k m name t = (r, t'')\<rbrakk> \<Longrightarrow>
      m' = r \<and> t' = t'' \<and> (0 \<le> r \<longrightarrow> status = 0)"
    and exit_frees: "exit k m t = unregister_chrdev k m name t"
begin

lemma load_cases:
  assumes "chrdev_laws k" "load k ret 0 t = (status, m, t')"
  shows "m < 0 \<and> t' = t \<or> 0 < m \<and> t m = None \<and> t' = t(m \<mapsto> name) \<and> status = 0"
proof -
  obtain r t'' where r: "register_chrdev k 0 name t = (r, t'')" by fastforce
  from load_registers [OF assms(2) r] assms(1) r show ?thesis
    unfolding chrdev_laws_def by (cases "r < 0") force+
qed

lemma exit_table: "chrdev_laws k \<Longrightarrow> exit k m t = t(m := None)"
  by (simp add: exit_frees chrdev_laws_def)

lemma load_exit:
  assumes "chrdev_laws k" "load k ret 0 t = (status, m, t')" "\<forall>m \<le> 0. t m = None"
  shows "exit k m t' = t"
proof -
  have "t m = None" using load_cases [OF assms(1,2)] assms(3) by auto
  then show ?thesis using load_cases [OF assms(1,2)] by (auto simp: exit_table [OF assms(1)])
qed

text \<open>A number given at load time is not the number remembered.\<close>

lemma fixed_number:
  assumes "chrdev_laws k" "m \<noteq> 0" "load k ret m t = (status, m', t')" "0 \<le> m'"
  shows "m' = 0 \<and> status = 0 \<and> t m = None \<and> t' = t(m \<mapsto> name) \<and> (t 0 = None \<longrightarrow> exit k m' t' = t')"
proof -
  obtain r t'' where r: "register_chrdev k m name t = (r, t'')" by fastforce
  have "r = m'" "t'' = t'" using load_registers [OF assms(3) r] by simp_all
  then have "m' = 0 \<and> t m = None \<and> t' = t(m \<mapsto> name)"
    using assms(1,2,4) r unfolding chrdev_laws_def by blast
  moreover have "exit k 0 (t(m \<mapsto> name)) = t(m \<mapsto> name)" if "t 0 = None"
    using that assms(2) by (simp add: exit_table [OF assms(1)] fun_upd_idem)
  moreover have "status = 0" using load_registers [OF assms(3) r] \<open>r = m'\<close> assms(4) by simp
  ultimately show ?thesis by blast
qed

end

interpretation axi_ko: char_module "\<lambda>k. module_load k Axi_csr_ko" axi_csr_exit "''axi_csr''"
  by unfold_locales (auto simp: module_load_def axi_csr_int_def axi_csr_exit_def Let_def split: if_splits)

interpretation bram_ko: char_module "\<lambda>k. module_load k Bram_ko" bram_exit "''bram''"
  by unfold_locales (auto simp: module_load_def bram_int_def bram_exit_def Let_def split: if_splits)

interpretation pps_ko: char_module "\<lambda>k. module_load k Counter_irq_ko" counter_irq_exit "''counter_irq''"
  by unfold_locales (auto simp: module_load_def counter_irq_init_def counter_irq_exit_def Let_def split: if_splits)

interpretation data_ko: char_module "\<lambda>k. module_load k Data_irq_ko" data_irq_exit "''data_irq''"
  by unfold_locales (auto simp: module_load_def data_irq_int_def data_irq_exit_def Let_def split: if_splits)

interpretation ko: char_module "\<lambda>k. module_load k d" "\<lambda>k. module_exit k d" "ko_name d" for d
  by (cases d; simp; rule axi_ko.char_module_axioms bram_ko.char_module_axioms pps_ko.char_module_axioms data_ko.char_module_axioms)

text \<open>
  The table in a run: what is loaded and has a number owns it, no two modules the same, and nothing else has changed.
\<close>

definition table_exact :: "majors \<Rightarrow> (module \<Rightarrow> int option) \<Rightarrow> majors \<Rightarrow> bool" where
  "table_exact t0 l t \<longleftrightarrow>
     (\<forall>d m. l d = Some m \<longrightarrow> m < 0 \<or> 0 < m \<and> t0 m = None \<and> t m = Some (ko_name d))
     \<and> (\<forall>m. (\<nexists>d. l d = Some m) \<longrightarrow> t m = t0 m) \<and> (\<forall>m \<le> 0. t m = None)"

lemma ko_name_inj: "ko_name d = ko_name d' \<Longrightarrow> d = d'"
  by (cases d; cases d') simp_all

lemma table_exactI:
  assumes "\<And>d m. l d = Some m \<Longrightarrow> m < 0 \<or> 0 < m \<and> t0 m = None \<and> t m = Some (ko_name d)"
    "\<And>m. \<nexists>d. l d = Some m \<Longrightarrow> t m = t0 m" "\<And>m. m \<le> 0 \<Longrightarrow> t m = None"
  shows "table_exact t0 l t"
  using assms unfolding table_exact_def by blast

lemma table_exactD:
  assumes "table_exact t0 l t"
  shows "l d = Some m \<Longrightarrow> m < 0 \<or> 0 < m \<and> t0 m = None \<and> t m = Some (ko_name d)"
    "\<nexists>d. l d = Some m \<Longrightarrow> t m = t0 m" "m \<le> 0 \<Longrightarrow> t m = None"
  using assms unfolding table_exact_def by blast+

lemma table_exact_load:
  assumes "table_exact t0 l t" "l d = None" "0 < m" "t m = None"
  shows "table_exact t0 (l(d \<mapsto> m)) (t(m \<mapsto> ko_name d))"
proof (rule table_exactI)
  note old = table_exactD [OF assms(1)]
  have "l d' \<noteq> Some m" for d' using old(1) [of d' m] assms(3,4) by auto
  then have t0: "t0 m = None" using old(2) [of m] assms(4) by simp
  show "x < 0 \<or> 0 < x \<and> t0 x = None \<and> (t(m \<mapsto> ko_name d)) x = Some (ko_name d')"
    if "(l(d \<mapsto> m)) d' = Some x" for d' x
  proof (cases "d' = d")
    case True
    with that t0 assms(3) show ?thesis by simp
  next
    case False
    with that have "l d' = Some x" by simp
    with old(1) [OF this] \<open>\<And>d'. l d' \<noteq> Some m\<close> show ?thesis by (cases "x = m") simp_all
  qed
  show "(t(m \<mapsto> ko_name d)) x = t0 x" if "\<nexists>d'. (l(d \<mapsto> m)) d' = Some x" for x
  proof -
    have "x \<noteq> m" using that by (metis fun_upd_same)
    moreover have "\<nexists>d'. l d' = Some x" using that assms(2) by (metis fun_upd_other option.distinct(1))
    ultimately show ?thesis using old(2) by simp
  qed
  show "(t(m \<mapsto> ko_name d)) x = None" if "x \<le> 0" for x using old(3) [OF that] that assms(3) by simp
qed

lemma table_exact_failed:
  assumes "table_exact t0 l t" "l d = None" "m < 0" "\<forall>m \<le> 0. t0 m = None"
  shows "table_exact t0 (l(d \<mapsto> m)) t"
proof (rule table_exactI)
  note old = table_exactD [OF assms(1)]
  show "x < 0 \<or> 0 < x \<and> t0 x = None \<and> t x = Some (ko_name d')" if "(l(d \<mapsto> m)) d' = Some x" for d' x
    using that old(1) [of d' x] assms(3) by (cases "d' = d") simp_all
  show "t x = t0 x" if "\<nexists>d'. (l(d \<mapsto> m)) d' = Some x" for x
  proof -
    have "\<nexists>d'. l d' = Some x" using that assms(2) by (metis fun_upd_other option.distinct(1))
    then show ?thesis by (rule old(2))
  qed
qed (rule table_exactD(3) [OF assms(1)])

lemma table_exact_unload:
  assumes "table_exact t0 l t" "l d = Some m" "\<forall>m \<le> 0. t0 m = None"
  shows "table_exact t0 (l(d := None)) (t(m := None))"
proof (rule table_exactI)
  note old = table_exactD [OF assms(1)]
  have t0: "t0 m = None" using old(1) [OF assms(2)] assms(3) by auto
  show "x < 0 \<or> 0 < x \<and> t0 x = None \<and> (t(m := None)) x = Some (ko_name d')" if "(l(d := None)) d' = Some x" for d' x
  proof -
    have d: "d' \<noteq> d" "l d' = Some x" using that by (auto split: if_splits)
    have "x < 0 \<or> x \<noteq> m"
      using old(1) [OF d(2)] old(1) [OF assms(2)] d(1) ko_name_inj [of d' d] by auto
    with old(1) [OF d(2)] show ?thesis by auto
  qed
  show "(t(m := None)) x = t0 x" if "\<nexists>d'. (l(d := None)) d' = Some x" for x
  proof (cases "x = m")
    case True
    with t0 show ?thesis by simp
  next
    case False
    have "l d' \<noteq> Some x" for d' using that assms(2) False by (metis fun_upd_other option.inject)
    with old(2) [of x] False show ?thesis by simp
  qed
  show "(t(m := None)) x = None" if "x \<le> 0" for x using old(3) [OF that] by simp
qed

lemma modules_run_exact:
  assumes "modules_run k t0 l t" "chrdev_laws k" "\<forall>m \<le> 0. t0 m = None"
  shows "table_exact t0 l t"
  using assms(1)
proof induction
  case run_boot
  then show ?case using assms(3) by (simp add: table_exact_def)
next
  case (run_load l t d ret status m t')
  from ko.load_cases [OF assms(2) run_load(3)] show ?case
  proof
    assume "m < 0 \<and> t' = t"
    then show ?thesis using table_exact_failed [OF run_load(4,2) _ assms(3)] run_load(4) by simp
  next
    assume "0 < m \<and> t m = None \<and> t' = t(m \<mapsto> ko_name d) \<and> status = 0"
    with table_exact_load [OF run_load(4,2), of m] show ?thesis by (elim conjE) (simp only: if_True simp_thms order_refl)
  qed
next
  case (run_unload l t d m)
  show ?case unfolding ko.exit_table [OF assms(2)] by (rule table_exact_unload [OF run_unload(3,2) assms(3)])
qed

text \<open>A kernel with one free number to hand out.\<close>

definition sample_chrdev :: chrdev_kernel where
  "sample_chrdev = \<lparr>register_chrdev = (\<lambda>m n t.
       if m = 0 then (if t 250 = None then (250, t(250 \<mapsto> n)) else (-16, t))
       else (if t m = None then (0, t(m \<mapsto> n)) else (-16, t))),
     unregister_chrdev = (\<lambda>m n t. t(m := None))\<rparr>"

lemma sample_chrdev_laws: "chrdev_laws sample_chrdev"
  by (auto simp: chrdev_laws_def sample_chrdev_def split: if_splits)



text \<open>
  C37. A major number given as a parameter of the module is never given back: \<^verbatim>\<open>axi_csr\<close> and \<^verbatim>\<open>bram\<close> store the result of
  \<^verbatim>\<open>register_chrdev\<close>, which is 0 then, in place of the number; unloading frees number 0, the entry of the table
  stays, and the module cannot be loaded with that number again.
\<close>

theorem fixed_major_leaks:
  assumes "chrdev_laws k" "0 < m" "t 0 = None" "d \<in> {Axi_csr_ko, Bram_ko}"
    "module_load k d ret m t = (status, m', t')" "0 \<le> m'"
  shows "status = 0 \<and> module_exit k d m' t' = t' \<and> t' m = Some (ko_name d)
    \<and> (\<forall>ret. fst (snd (module_load k d ret m (module_exit k d m' t'))) < 0)"
proof -
  have "m \<noteq> 0" using assms(2) by simp
  note f = ko.fixed_number [OF assms(1) this assms(5,6)]
  have ex: "module_exit k d m' t' = t'" using f assms(3) by blast
  have up: "t' m = Some (ko_name d)" using f by (simp only: fun_upd_same)
  have "fst (snd (module_load k d ret' m t')) < 0" for ret'
  proof (rule ccontr)
    obtain st n u where u: "module_load k d ret' m t' = (st, n, u)" by (cases "module_load k d ret' m t'")
    assume "\<not> fst (snd (module_load k d ret' m t')) < 0"
    then have "0 \<le> n" by (simp only: u fst_conv snd_conv not_less)
    from ko.fixed_number [OF assms(1) \<open>m \<noteq> 0\<close> u this] up show False by simp
  qed
  then show ?thesis unfolding ex using f up by blast
qed

theorem fixed_major_leaks_witness:
  "module_exit sample_chrdev Axi_csr_ko 0 (snd (snd (module_load sample_chrdev Axi_csr_ko 0 60 (\<lambda>_. None)))) 60 = Some ''axi_csr''"
proof -
  have "module_load sample_chrdev Axi_csr_ko 0 60 (\<lambda>_. None) = (0, 0, [60 \<mapsto> ''axi_csr''])"
    by (simp add: module_load_def axi_csr_int_def sample_chrdev_def)
  from fixed_major_leaks [OF sample_chrdev_laws _ _ _ this] this show ?thesis by simp
qed

end
