(* ===== verification/IoTest.thy ===== *)
theory IoTest
  imports ZynqPrelude
begin

text \<open>
  \<^verbatim>\<open>application/io_test.c\<close>, a stand-alone benchmark of the card: it writes a file word by word and measures the time.
\<close>

section \<open>The program\<close>

text \<open>
  The loops write the counter of the outer loop, an \<^verbatim>\<open>int\<close>, 256 times per round; the file is the list of the words written.
  The test \<^verbatim>\<open>fp < 0\<close> does not recognise a null stream.
\<close>

fun io_inner :: "nat \<Rightarrow> u32 \<Rightarrow> u32 list \<Rightarrow> u32 list" where
  "io_inner 0 i fp = fp"
| "io_inner (Suc j) i fp = io_inner j i (fp @ [i])"

fun io_outer :: "nat \<Rightarrow> u32 \<Rightarrow> u32 list \<Rightarrow> u32 list" where
  "io_outer 0 i fp = fp"
| "io_outer (Suc n) i fp = io_outer n (i + 1) (io_inner 256 i fp)"

definition io_function :: "bool \<Rightarrow> u32 list res" where
  "io_function fopen_ok = need fopen_ok NullPointer (Inr (io_outer 102400 0 []))"

text \<open>
  Times are pairs of seconds and microseconds. The difference in microseconds is computed in \<^verbatim>\<open>long\<close>, here with wrap-around;
  its conversion to \<^verbatim>\<open>float\<close> and the output are not modelled.
\<close>

definition io_timeuse :: "u32 \<times> u32 \<Rightarrow> u32 \<times> u32 \<Rightarrow> u32" where
  "io_timeuse tpstart tpend = 1000000 * (fst tpend - fst tpstart) + snd tpend - snd tpstart"

definition io_main :: "bool \<Rightarrow> u32 \<times> u32 \<Rightarrow> u32 \<times> u32 \<Rightarrow> (u32 list \<times> u32) res" where
  "io_main fopen_ok tpstart tpend =
     andThen (io_function fopen_ok) (\<lambda>fp. Inr (fp, io_timeuse tpstart tpend))"

section \<open>What it writes and measures\<close>

lemma io_inner_replicate: "io_inner n i fp = fp @ replicate n i"
  by (induction n i fp rule: io_inner.induct) (simp_all add: replicate_append_same)

lemma io_outer_concat: "io_outer n i fp = fp @ concat (map (\<lambda>k. replicate 256 (i + of_nat k)) [0..<n])"
proof (induction n i fp rule: io_outer.induct)
  case (2 n i fp)
  have "map (\<lambda>k. replicate 256 (i + of_nat k)) [0..<Suc n] =
      replicate 256 i # map (\<lambda>k. replicate 256 (i + 1 + of_nat k)) [0..<n]"
    by (simp add: upt_conv_Cons map_Suc_upt [symmetric] add.assoc del: upt_Suc replicate.simps)
  with 2 show ?case by (simp add: io_inner_replicate del: upt_Suc)
qed simp

lemma concat_blocks:
  "length (concat (map (\<lambda>k. replicate m (f k)) [0..<n])) = n * m"
  "k < n * m \<Longrightarrow> concat (map (\<lambda>k. replicate m (f k)) [0..<n]) ! k = f (k div m)"
proof -
  show l: "length (concat (map (\<lambda>k. replicate m (f k)) [0..<n])) = n * m" for n
    by (induction n) simp_all
  show "k < n * m \<Longrightarrow> concat (map (\<lambda>k. replicate m (f k)) [0..<n]) ! k = f (k div m)"
  proof (induction n)
    case (Suc n)
    show ?case
    proof (cases "k < n * m")
      case True
      with Suc.IH show ?thesis by (simp add: nth_append l)
    next
      case False
      with Suc.prems have "k div m = n" by (intro div_nat_eqI) (auto simp: algebra_simps)
      with False Suc.prems show ?thesis by (simp add: nth_append l)
    qed
  qed simp
qed

text \<open>
  The benchmark writes 100 MB in which word \<open>k\<close> is \<open>k div 256\<close>, and measures the time between the two readings of
  the clock correctly when they are less than 2147 seconds apart.
\<close>

theorem io_main_result:
  assumes "sec \<le> sec'" "sec' - sec < 2147" "usec < 1000000" "usec' < 1000000"
    "(sec :: int) \<in> {0..<2 ^ 31}" "sec' \<in> {0..<2 ^ 31}" "0 \<le> usec" "0 \<le> usec'"
  shows "\<exists>fp t. io_main True (of_int sec, of_int usec) (of_int sec', of_int usec') = Inr (fp, t)
    \<and> length fp = 26214400 \<and> (\<forall>k < 26214400. fp ! k = of_nat (k div 256))
    \<and> sint t = 1000000 * (sec' - sec) + (usec' - usec)"
proof -
  define d where "d = 1000000 * (sec' - sec) + usec' - usec"
  have "- (2 ^ 31) \<le> d" "d < 2 ^ 31" using assms by (simp_all add: d_def)
  then have "sint (word_of_int d :: u32) = d" by (simp add: signed_of_int signed_take_bit_int_eq_self_iff)
  then have "sint (word_of_int d :: u32) = 1000000 * (sec' - sec) + (usec' - usec)" by (simp add: d_def)
  moreover have "io_timeuse (of_int sec, of_int usec) (of_int sec', of_int usec') = word_of_int d"
    by (simp add: io_timeuse_def d_def)
  moreover have "length (io_outer 102400 0 []) = 26214400" "\<forall>k < 26214400. io_outer 102400 0 [] ! k = of_nat (k div 256)"
    unfolding io_outer_concat by (simp_all add: concat_blocks del: upt_Suc replicate.simps)
  ultimately show ?thesis by (simp only: io_main_def io_function_def need_def if_True andThen.simps) blast
qed

end
