(* ===== verification/Spec2Isabelle.thy ===== *)
theory Spec2Isabelle
  imports ZynqPrelude Lfsr AxiCsr Bram Csr IniFile IniSafety IniDoc IrqDrivers XfifoDma XfifoSafety
    Gps Serial GpsMain GpsFrames GpsDecode AppState AppConfig ConfigProps ConfigSpec AppDeliver AppCmd NetLink
    AppShape AppSpec AppAverage Threads ThreadSpec ThreadSafety Board MesgWire BoardSpec XfifoRuns XfifoLife IniStore
    IrqSteps Modules IoTest
begin

text \<open>
  A model of the software of a Zynq data acquisition board: the character device drivers under
  \<^verbatim>\<open>driver/\<close> and the application under \<^verbatim>\<open>application/\<close>, with the properties that make them correct and
  those that record where they are not.

  \<^bold>\<open>The program.\<close> Programmable logic samples a signal into two windows of memory and is controlled by
  14 registers and a code memory. The drivers expose registers (\<^verbatim>\<open>axi_csr.c\<close>), code memory (\<^verbatim>\<open>bram.c\<close>),
  the interrupts of the pulse per second (\<^verbatim>\<open>irq.c\<close>) and of a full window (\<^verbatim>\<open>dataIrq.c\<close>), and a DMA channel
  (\<^verbatim>\<open>xfifo_dma.c\<close>). The application (\<^verbatim>\<open>main.c\<close>, \<^verbatim>\<open>app.c\<close>) waits for a start command on a socket, reads
  \<^verbatim>\<open>Configuration.ini\<close> (\<^verbatim>\<open>inifile.c\<close>), programs the registers (\<^verbatim>\<open>csr.c\<close>) and the code memory (\<^verbatim>\<open>lfsr.c\<close>),
  and on every data interrupt sends the full window to the PC or appends it to a file on the card. A
  second thread reacts to the pulse: it starts the delivery, opens the file and sends the GPS time that
  a third thread decodes from the serial line (\<^verbatim>\<open>gps.c\<close>).

  \<^bold>\<open>Theories and sources.\<close>
  \<^item> \<open>ZynqPrelude\<close>: integer types, outcomes of C code (\<open>res\<close>, a result or the reason why the program has
    no defined behaviour), the counting loop, what holds after a computation, word lemmas.
  \<^item> \<open>Lfsr\<close>: \<^verbatim>\<open>lfsr.c\<close>. \<open>CString\<close>: character buffers and the C library on them. \<open>IniFile\<close>: \<^verbatim>\<open>inifile.c\<close>.
  \<^item> \<open>FileOps\<close>: the table of operations of a driver, the hardware and kernel parameters, and the locales
    \<open>word_device\<close> and \<open>register_store\<close>, the contract between drivers and application. \<open>AxiCsr\<close> and
    \<open>Bram\<close>: \<^verbatim>\<open>axi_csr.c\<close> and \<^verbatim>\<open>bram.c\<close>, both interpretations of \<open>register_store\<close>. \<open>Csr\<close>: \<^verbatim>\<open>csr.h\<close> and
    \<^verbatim>\<open>csr.c\<close> over the contract.
  \<^item> \<open>IrqDrivers\<close>: \<^verbatim>\<open>irq.c\<close> and \<^verbatim>\<open>dataIrq.c\<close>, two interpretations of the locale \<open>irq_line\<close>. \<open>IrqSteps\<close>: their
    reads once more, as two statements with the handler between them. \<open>Modules\<close>: the entry and exit functions of the four
    character drivers over the kernel's table of major numbers, four interpretations of the locale \<open>char_module\<close>.
  \<^item> \<open>XfifoDma\<close>: \<^verbatim>\<open>xfifo_dma.c\<close>. \<open>XfifoSafety\<close>: its step relation over files, transfers and callbacks. \<open>XfifoLife\<close>: its
    entry and exit functions over the driver core.
  \<^item> \<open>Gps\<close>, \<open>Serial\<close>, \<open>GpsMain\<close>: \<^verbatim>\<open>gps.c\<close>, as framing and decoding, set-up of the line, and the
    stand-alone program \<^verbatim>\<open>org_main\<close>.
  \<^item> \<open>AppState\<close>: the static variables of \<^verbatim>\<open>app.c\<close> as the record \<open>app_state\<close>, whose \<open>effects\<close> are what
    leaves the process, and the environment \<open>app_env\<close>. \<open>AppConfig\<close>: \<^verbatim>\<open>Configuration\<close> and its helpers.
    \<open>AppDeliver\<close>: \<^verbatim>\<open>DeliverData_s\<close> and the polling deliveries. \<open>AppCmd\<close>: \<^verbatim>\<open>App\<close>, its commands,
    \<^verbatim>\<open>MesgThread\<close>, \<^verbatim>\<open>InitMem\<close>, the file copy. \<open>NetLink\<close>: the sockets, and \<^verbatim>\<open>main.c\<close>.
  \<^item> \<open>Threads\<close>: \<^verbatim>\<open>DeliverData_s\<close>, \<^verbatim>\<open>App\<close> with its commands and \<^verbatim>\<open>Configuration\<close>, and \<^verbatim>\<open>MesgThread\<close> once more, as programs of statements over the shared variables that a
    scheduler interleaves; \<open>statements_make_rounds\<close> ties them to the functions of \<open>AppDeliver\<close> and \<open>AppCmd\<close>.
  \<^item> \<open>MesgWire\<close>: the bytes of the message of \<^verbatim>\<open>MesgThread\<close>, from the structures of \<^verbatim>\<open>app.h\<close> and \<^verbatim>\<open>gps.h\<close>.
  \<^item> \<open>Board\<close>: the models of the drivers, the application and the GPS receiver as one step relation, whose events are
    interrupts, reads that return, commands and bytes of the serial line.
  \<^item> \<open>IoTest\<close>: the benchmark \<^verbatim>\<open>io_test.c\<close>, without the output of the time.
  \<^item> \<open>IniSafety\<close>, \<open>IniDoc\<close>, \<open>IniStore\<close>, \<open>GpsFrames\<close>, \<open>GpsDecode\<close>, \<open>ConfigProps\<close>, \<open>ConfigSpec\<close>, \<open>AppShape\<close>, \<open>AppSpec\<close>,
    \<open>AppAverage\<close>, \<open>ThreadSpec\<close>, \<open>ThreadSafety\<close>, \<open>BoardSpec\<close>, \<open>XfifoRuns\<close> hold specifications and proofs only. This theory composes them.

  \<^bold>\<open>What is shown.\<close>
  \<^item> Composition: an acquisition from the start command to the last byte (below) as a run of the board, over the
    configuration (\<open>ConfigSpec\<close>: registers, code memory, schedule and length as functions of the file), the
    pulse (\<open>AppSpec\<close>) and the delivery (\<open>AppDeliver\<close>: the stream is a prefix of the windows in turn).
  \<^item> The board: at most as many windows leave it as interrupts came, what a message of the pulse
    carries, that a main thread blocked in its read answers no command, a state that a pulse after a stop
    command leads to, and that one lost window leaves every later delivery out of step with the hardware (\<open>BoardSpec\<close>).
  \<^item> State: the shape of the application state in every reachable state (\<open>AppShape\<close>).
  \<^item> Threads: a thread that runs alone computes the round; which interleavings of statements write to a closed
    file, close it twice or spoil the next acquisition (\<open>ThreadSpec\<close>); that none of them faults while the data goes to the PC, start
    commands included, and how a start command tears the header of a file or, by moving to the card, crashes (\<open>ThreadSafety\<close>).
  \<^item> Configuration files: memory safety and termination of the parser (\<open>IniSafety\<close>); files as lists of
    lines, with lookup, update and round trip (\<open>IniDoc\<close>), and as stores of settings (\<open>IniStore\<close>).
  \<^item> Registers: reading back, frame, bus traffic, window and disjointness of the fields (\<open>Csr\<close>).
  \<^item> Drivers: one writer, the interleavings that go
    wrong (\<open>XfifoSafety\<close>), and that nothing goes wrong while one file is used (\<open>XfifoRuns\<close>); what loading and unloading take
    and give back (\<open>XfifoLife\<close>, \<open>Modules\<close>); interrupts and reads (\<open>IrqDrivers\<close>), and the interrupt that comes between the two
    statements of a read (\<open>IrqSteps\<close>).
  \<^item> GPS: framing is independent of how the bytes arrive (\<open>GpsFrames\<close>), printed sentences are decoded to
    their values, when the clock is set (\<open>GpsDecode\<close>), line settings (\<open>Serial\<close>), watchdog (\<open>GpsMain\<close>).
  \<^item> Code: bit conversions, the shift register, and what the generator really fills in (\<open>Lfsr\<close>).

  \<^bold>\<open>Parameters.\<close> Hardware registers are a function of the history of accesses; where a value read back
  matters a property assumes that the register is stable. Files, directories, sockets, the system time,
  the kernel's allocation and DMA services, and the contents of uninitialised variables are arguments.
  \<^verbatim>\<open>char\<close> is unsigned and \<^verbatim>\<open>long\<close> has 32 bits, as on the target. The quotient that \<^verbatim>\<open>Configuration\<close>
  computes in \<^verbatim>\<open>double\<close> is exact in the model, \<open>acq_period\<close> says why.

  \<^bold>\<open>Loops.\<close> Loops that end are total functions, by structure or with a measure. The loops that wait for
  hardware are \<open>poll_ready\<close>, with fuel, for the polling delivery (a property says with which hardware some
  fuel is enough), and \<open>PraseGPS\<close>, which takes the lines to come and says when it still waits.
  The threads and the main loop never end; a round of each is a function, and the rounds interleave as the
  steps of \<open>app_step\<close>, and with the drivers as those of \<open>board_step\<close>. The C threads share their variables without a
  lock: \<open>Threads\<close> therefore interleaves the statements of \<^verbatim>\<open>DeliverData_s\<close>, \<^verbatim>\<open>App\<close>, \<^verbatim>\<open>Configuration\<close> and \<^verbatim>\<open>MesgThread\<close>, one access
  to the shared variables or one library call at a time. A register write, the transfer to the code memory and the change
  of the directory name with its creation are one statement each, as is a section of the DMA driver under its mutex.

  \<^bold>\<open>Not modelled.\<close> The generated \<^verbatim>\<open>*.mod.c\<close> files; the
  device tree; what the kernel does to register a driver, of which the answers are parameters; output for
  the terminal, and the speed that \<^verbatim>\<open>TestSd\<close> prints; the use that \<^verbatim>\<open>App\<close> makes of the address of the peer.

  \<^bold>\<open>Open.\<close> Interleavings within a statement (a 64-bit access or an increment counts as atomic).
\<close>

section \<open>A whole acquisition\<close>

text \<open>
  The steps of an acquisition, one after the other: the command, the pulse, and the data interrupts, after each of
  which but the last the acquisition is still ready.
\<close>

lemma acquisition_steps:
  assumes "config_file ls (ini_files env)" "config_fits (settings ls)" "board_ready env s" "app_ok s"
    "look ''Coinfiguration'' ''DataDirectory'' False ls = Some dir" "dir \<noteq> []" "length dir \<le> 8"
    "length rest = 6" "\<forall>p. fopen_ok env' p" "now env' < 2 ^ 31"
    "L = nat ((2 ^ nat (setting ls ''SequenceLength'') - 1) * setting ls ''ImpulseWidth''
        * uint (s_SampleRateValue ! nat (setting ls ''AdcSamplingRates'')) div 1000000 * 4)"
  obtains s1 s2 s3 where "App env (command ACQ_START_CMD rest) s = Inr (RET_OK, s1)"
    "effects s1 = effects s @ [SendCmd (bytes16 ACQ_START_ACK @ [0, 0] @ drop 2 rest)]"
    "s_ucIsReady s1 = s_ucIsReady s" "MesgThread_round env' 1 s1 = Inr s2"
    "\<forall>k \<le> (L - 1) div 65536. \<exists>u. deliver_n k s2 = Inr u \<and> s_ucIsReady u = TRUE"
    "deliver_n (Suc ((L - 1) div 65536)) s2 = Inr s3" "s_ucIsReady s3 = FALSE"
    "stream_of (effects s3) = stream_of (effects s) @ take L (windows (s\<lparr>s_uiFlag := 0\<rparr>) (Suc ((L - 1) div 65536)))"
proof -
  define t where "t = s\<lparr>s_pTcpBuff := command ACQ_START_CMD rest @ drop 8 (s_pTcpBuff s)\<rparr>"
  have l: "length (command ACQ_START_CMD rest) = 8" using assms(8) by (simp add: command_def bytes16_def)
  have t: "board_ready env t" "length (s_SdDataDIR t) = 64"
    using assms(3,4) by (simp_all add: t_def board_ready_def app_ok_def)
  obtain c where c: "Configuration env t = Inr (0, c)" "cstr (s_SdDataDIR c) = take 63 dir"
    "uint (s_ulSampleLength c) = (2 ^ nat (setting ls ''SequenceLength'') - 1) * setting ls ''ImpulseWidth''
        * uint (s_SampleRateValue ! nat (setting ls ''AdcSamplingRates'')) div 1000000 * 4"
    using Configuration_from_file [OF assms(1,2) t(1) assms(5,6) t(2)] by blast
  obtain s1 where s1: "App env (command ACQ_START_CMD rest) s = Inr (RET_OK, s1)"
    "effects s1 = effects s @ [SendCmd (bytes16 ACQ_START_ACK @ [0, 0] @ drop 2 rest)]"
    "s_SdDataDIR s1 = s_SdDataDIR c" "s_ulSampleLength s1 = s_ulSampleLength c"
    "s_puiAddr_A s1 = s_puiAddr_A s" "s_puiAddr_B s1 = s_puiAddr_B s"
    using App_starts [OF c(1) [unfolded t_def] assms(4,8)] by blast
  have ok: "app_ok s1" using App_ok [OF s1(1) assms(4)] .
  have "length (cstr (s_SdDataDIR s1)) \<le> 8" using s1(3) c(2) assms(7) by simp
  with MesgThread_round_starts [OF ok _ assms(10)] assms(9)
  obtain s2 where s2: "MesgThread_round env' 1 s1 = Inr s2" "s_ucIsReady s2 = TRUE" "sink_ok s2" "s_uiFlag s2 = 0"
    "s_ulTotalLen s2 = 0" "s_ulSampleLength s2 = s_ulSampleLength s1" "s_puiAddr_A s2 = s_puiAddr_A s1"
    "s_puiAddr_B s2 = s_puiAddr_B s1" "stream_of (effects s2) = stream_of (effects s1)" by blast
  have L: "unat (s_ulSampleLength s2 - s_ulTotalLen s2) = L"
    using c(3) s1(4) s2(5,6) assms(11) by (simp add: unat_eq_nat_uint)
  have w: "windows s2 n = windows (s\<lparr>s_uiFlag := 0\<rparr>) n" for n
    by (rule windows_cong) (simp_all add: s1 s2)
  have k: "\<exists>u. deliver_n k s2 = Inr u \<and> s_ucIsReady u = TRUE" if "k \<le> (L - 1) div 65536" for k
  proof -
    have "k = 0 \<or> 65536 * k < unat (s_ulSampleLength s2 - s_ulTotalLen s2)" using that unfolding L by auto
    from deliver_n_goes_on [OF s2(2,3) this] show ?thesis by blast
  qed
  obtain s3 where s3: "deliver_n (Suc ((L - 1) div 65536)) s2 = Inr s3" "s_ucIsReady s3 = FALSE"
    "stream_of (effects s3) = stream_of (effects s2) @ take L (windows (s\<lparr>s_uiFlag := 0\<rparr>) (Suc ((L - 1) div 65536)))"
    using deliver_n_finishes [OF s2(2,3) refl] unfolding L w by blast
  show thesis
    by (rule that [OF s1(1,2) App_starts_ready [OF s1(1) assms(4,8)] s2(1) _ s3(1,2)])
      (use k s3(3) s2(9) s1(2) in auto)
qed

theorem acquisition_delivers:
  assumes "config_file ls (ini_files env)" "config_fits (settings ls)" "board_ready env s" "app_ok s"
    "look ''Coinfiguration'' ''DataDirectory'' False ls = Some dir" "dir \<noteq> []" "length dir \<le> 8"
    "length rest = 6" "\<forall>p. fopen_ok env' p" "now env' < 2 ^ 31"
    "L = nat ((2 ^ nat (setting ls ''SequenceLength'') - 1) * setting ls ''ImpulseWidth''
        * uint (s_SampleRateValue ! nat (setting ls ''AdcSamplingRates'')) div 1000000 * 4)"
  shows "\<exists>s1 s2 s3. App env (command ACQ_START_CMD rest) s = Inr (RET_OK, s1)
    \<and> effects s1 = effects s @ [SendCmd (bytes16 ACQ_START_ACK @ [0, 0] @ drop 2 rest)]
    \<and> MesgThread_round env' 1 s1 = Inr s2
    \<and> deliver_n (Suc ((L - 1) div 65536)) s2 = Inr s3 \<and> s_ucIsReady s3 = FALSE
    \<and> stream_of (effects s3) = stream_of (effects s) @ take L (windows (s\<lparr>s_uiFlag := 0\<rparr>) (Suc ((L - 1) div 65536)))"
  by (rule acquisition_steps [OF assms]) blast

theorem acquisition_delivers_witness:
  "\<exists>s1 s2 s3. App sample_app_env (command ACQ_START_CMD (replicate 6 0)) sample_app = Inr (RET_OK, s1)
    \<and> MesgThread_round sample_app_env 1 s1 = Inr s2 \<and> deliver_n 61 s2 = Inr s3 \<and> s_ucIsReady s3 = FALSE
    \<and> stream_of (effects s3) = take 3968748 (windows (sample_app\<lparr>s_uiFlag := 0\<rparr>) 61)"
proof -
  have L: "3968748 = nat ((2 ^ nat (setting sample_ini ''SequenceLength'') - 1) * setting sample_ini ''ImpulseWidth''
        * uint (s_SampleRateValue ! nat (setting sample_ini ''AdcSamplingRates'')) div 1000000 * 4)"
    by (simp add: sample_settings s_SampleRateValue_def)
  have e: "\<forall>p. fopen_ok sample_app_env p" "now sample_app_env < 2 ^ 31" by (simp_all add: sample_app_env_def)
  have n: "Suc ((3968748 - 1) div 65536) = 61" by simp
  have st: "stream_of (effects sample_app) = []" by (simp add: sample_app_def)
  have len: "length (replicate 6 (0::u8)) = 6" "''DATA'' \<noteq> ([]::char list)" "length ''DATA'' \<le> 8" by simp_all
  from acquisition_delivers [OF sample_ini_file sample_fits sample_board_ready sample_app_ok sample_settings(6) len(2,3,1) e L]
  show ?thesis unfolding n st by (auto simp del: windows.simps deliver_n.simps)
qed

section \<open>A whole acquisition on the board\<close>



end
